(* ===== verification/Rust_Prelude.thy ===== *)
theory Rust_Prelude
  imports Main "HOL-Library.Word"
begin

text \<open>
  The prelude of the development: the machine integers of the kernel, the panics of Rust as
  values, checked and unchecked access to byte slices, and the generic lemmas that the component
  theories share.

  The kernel is built by \<^verbatim>\<open>src/build.sh\<close> with \<^verbatim>\<open>cargo build --release\<close>, and the release
  profile of \<^verbatim>\<open>src/Cargo.toml\<close> switches debug assertions off.  Integer arithmetic therefore
  wraps around and the amount of a shift is taken modulo the width of the shifted value; array
  and slice accesses stay checked and panic when they are out of bounds.
\<close>

unbundle bit_operations_syntax

section \<open>Machine integers\<close>

type_synonym u8 = "8 word"
type_synonym u16 = "16 word"
type_synonym u32 = "32 word"
type_synonym u64 = "64 word"
type_synonym u128 = "128 word"
type_synonym usize = "64 word"

text \<open>Shifts of the release profile: the amount is reduced modulo the width.\<close>

definition rust_shl :: "'a::len word \<Rightarrow> nat \<Rightarrow> 'a word" where
  "rust_shl x n = push_bit (n mod LENGTH('a)) x"

definition rust_shr :: "'a::len word \<Rightarrow> nat \<Rightarrow> 'a word" where
  "rust_shr x n = drop_bit (n mod LENGTH('a)) x"

section \<open>Panics as values\<close>

text \<open>
  A panic halts the kernel for good (the panic handler of \<^verbatim>\<open>src/lib.rs\<close> loops on \<^verbatim>\<open>hlt\<close>), so
  the state it leaves behind is never observed and a fallible operation returns the panic or the
  new state.  \<open>Unsafe_OOB\<close> is not a panic of Rust: it marks an access through a raw pointer
  that leaves the slice the pointer was taken from, which is undefined behaviour.
\<close>

datatype panic =
    Index_OOB
  | Slice_OOB
  | Unsafe_OOB
  | Expect_failed
  | Assert_failed
  | Explicit_panic
  | Divide_by_zero

type_synonym 'a res = "panic + 'a"

definition rbind :: "'a res \<Rightarrow> ('a \<Rightarrow> 'b res) \<Rightarrow> 'b res" where
  "rbind m f = (case m of Inl e \<Rightarrow> Inl e | Inr x \<Rightarrow> f x)"

text \<open>A \<^verbatim>\<open>for\<close> loop over a list whose body may panic.\<close>

fun rfold :: "('a \<Rightarrow> 's \<Rightarrow> 's res) \<Rightarrow> 'a list \<Rightarrow> 's \<Rightarrow> 's res" where
  "rfold f [] s = Inr s"
| "rfold f (x # xs) s = rbind (f x s) (rfold f xs)"

text \<open>A \<^verbatim>\<open>for i in lo..hi\<close> loop; the range is empty when the bounds are not in order.\<close>

function rfor :: "nat \<Rightarrow> nat \<Rightarrow> (nat \<Rightarrow> 's \<Rightarrow> 's res) \<Rightarrow> 's \<Rightarrow> 's res" where
  "rfor lo hi f s =
     (if lo < hi then (case f lo s of Inl e \<Rightarrow> Inl e | Inr s' \<Rightarrow> rfor (Suc lo) hi f s') else Inr s)"
  by pat_completeness auto
termination by (relation "measure (\<lambda>(lo, hi, f, s). hi - lo)") auto

declare rfor.simps [simp del]

section \<open>Slices\<close>

text \<open>Checked indexing \<^verbatim>\<open>xs[i]\<close>, checked assignment \<^verbatim>\<open>xs[i] = v\<close> and the range \<^verbatim>\<open>xs[i..]\<close>.\<close>

definition get_at :: "'a list \<Rightarrow> nat \<Rightarrow> 'a res" where
  "get_at xs i = (if i < length xs then Inr (xs ! i) else Inl Index_OOB)"

definition set_at :: "'a list \<Rightarrow> nat \<Rightarrow> 'a \<Rightarrow> 'a list res" where
  "set_at xs i v = (if i < length xs then Inr (xs[i := v]) else Inl Index_OOB)"

text \<open>
  The bytes of a packed structure of \<open>n\<close> bytes behind \<^verbatim>\<open>&*(&xs[i] as *const _ as *const T)\<close>:
  the index is checked, the rest of the structure is not.
\<close>

definition view_at :: "'a list \<Rightarrow> nat \<Rightarrow> nat \<Rightarrow> 'a list res" where
  "view_at xs i n =
     (if i < length xs
      then if i + n \<le> length xs then Inr (take n (drop i xs)) else Inl Unsafe_OOB
      else Inl Index_OOB)"

text \<open>Writing the bytes \<open>bs\<close> of such a structure back to its place.\<close>

definition splice :: "nat \<Rightarrow> 'a list \<Rightarrow> 'a list \<Rightarrow> 'a list" where
  "splice i bs xs = take i xs @ bs @ drop (i + length bs) xs"

definition write_at :: "'a list \<Rightarrow> nat \<Rightarrow> 'a list \<Rightarrow> 'a list res" where
  "write_at xs i bs =
     (if i < length xs
      then if i + length bs \<le> length xs then Inr (splice i bs xs) else Inl Unsafe_OOB
      else Inl Index_OOB)"

text \<open>Passing the mutable tail \<^verbatim>\<open>&mut xs[i..]\<close> to a function.\<close>

definition with_tail :: "'a list \<Rightarrow> nat \<Rightarrow> ('a list \<Rightarrow> 'a list res) \<Rightarrow> 'a list res" where
  "with_tail xs i f =
     (if i \<le> length xs then rbind (f (drop i xs)) (\<lambda>t. Inr (take i xs @ t)) else Inl Slice_OOB)"

text \<open>The checked subslice \<^verbatim>\<open>xs[i..j]\<close>.\<close>

definition subslice :: "'a list \<Rightarrow> nat \<Rightarrow> nat \<Rightarrow> 'a list res" where
  "subslice xs i j = (if i \<le> j \<and> j \<le> length xs then Inr (take (j - i) (drop i xs)) else Inl Slice_OOB)"

text \<open>A 16-bit field of a packed structure on the little-endian machine.\<close>

definition le16 :: "u16 \<Rightarrow> u8 list" where
  "le16 w = [ucast w, ucast (drop_bit 8 w)]"

text \<open>Reading two bytes as such a field, and as a big-endian (network order) number.\<close>

definition of_le16 :: "u8 list \<Rightarrow> u16" where
  "of_le16 bs = (ucast (bs ! 0) OR push_bit 8 (ucast (bs ! 1)))"

definition be16 :: "u8 \<Rightarrow> u8 \<Rightarrow> nat" where
  "be16 hi lo = unat hi * 256 + unat lo"

named_theorems res_simps "evaluation of fallible operations"
named_theorems slice_simps "reading from and writing to slices"
named_theorems word_bytes "the bytes of words that are put together from bytes"

section \<open>Words and natural numbers\<close>

lemma unat_of_nat_small: "n < 2 ^ LENGTH('a) \<Longrightarrow> unat (of_nat n :: 'a::len word) = n"
  by (simp add: unsigned_of_nat take_bit_nat_eq_self)

lemma unat_less_width: "unat (w :: 'a::len word) < 2 ^ LENGTH('a)"
  by (rule unsigned_less)

lemma of_nat_div_word:
  assumes "a < 2 ^ LENGTH('a)" "b < 2 ^ LENGTH('a)"
  shows "(of_nat a div of_nat b :: 'a::len word) = of_nat (a div b)"
  using assms by (simp add: word_arith_nat_div unat_of_nat_small)

lemma unat_decr_less: "x \<noteq> 0 \<Longrightarrow> unat (x - 1 :: 'a::len word) < unat x"
  by (simp add: unat_minus_one unat_gt_0)

text \<open>Operations that do not wrap around.\<close>

lemma unat_add_nowrap: "unat x + unat y < 2 ^ LENGTH('a) \<Longrightarrow> unat (x + y :: 'a::len word) = unat x + unat y"
  by (simp add: unat_word_ariths)

lemma unat_mult_nowrap: "unat x * unat y < 2 ^ LENGTH('a) \<Longrightarrow> unat (x * y :: 'a::len word) = unat x * unat y"
  by (simp add: unat_word_ariths)

lemma unat_ucast_fits: "unat x < 2 ^ LENGTH('b) \<Longrightarrow> unat (ucast (x :: 'a::len word) :: 'b::len word) = unat x"
  by (simp add: unsigned_ucast_eq take_bit_nat_eq_self)

lemma unat_drop_bit: "unat (drop_bit n w) = unat (w :: 'a::len word) div 2 ^ n"
  unfolding unsigned_drop_bit_eq
  by (simp only: take_bit_nat_eq_self unsigned_less) (simp add: drop_bit_eq_div)

lemma unat_of_sint: "0 \<le> sint w \<Longrightarrow> unat (w :: 'a::len word) = nat (sint w)"
proof -
  assume "0 \<le> sint w"
  moreover have "sint w < 2 ^ LENGTH('a)"
    using sint_lt [of w] power_increasing [of "LENGTH('a) - 1" "LENGTH('a)" "2 :: int"] by linarith
  ultimately have "uint w = sint w" by (simp add: uint_sint take_bit_int_eq_self)
  then show ?thesis by (simp add: unat_eq_nat_uint)
qed

lemma unat_minus_sint:
  "sint w < 0 \<Longrightarrow> - (2 ^ (LENGTH('a) - 1)) < sint w \<Longrightarrow> unat (- w :: 'a::len word) = nat (- sint w)"
proof -
  assume w: "sint w < 0" "- (2 ^ (LENGTH('a) - 1)) < sint w"
  have "- w = word_of_int (- sint w)" by simp
  moreover have "- sint w < 2 ^ LENGTH('a)"
    using w(2) power_increasing [of "LENGTH('a) - 1" "LENGTH('a)" "2 :: int"] by linarith
  ultimately have "uint (- w) = - sint w"
    using w(1) by (simp only: uint_word_of_int_eq) (simp add: take_bit_int_eq_self)
  then show ?thesis by (simp add: unat_eq_nat_uint)
qed

text \<open>Arithmetic on words modulo a power of two that divides the size of the type.\<close>

lemma unat_add_mod_pow:
  "k \<le> LENGTH('a) \<Longrightarrow> unat (x + y :: 'a::len word) mod 2 ^ k = (unat x + unat y) mod 2 ^ k"
  by (simp add: unat_word_ariths mod_mod_cancel le_imp_power_dvd)

lemma unat_and_pow_minus_1:
  "unat (x AND (2 ^ k - 1) :: 'a::len word) = unat x mod 2 ^ k"
proof -
  have eq: "x AND (2 ^ k - 1) = take_bit k x" by (simp add: take_bit_eq_mask mask_eq_exp_minus_1)
  show ?thesis unfolding eq unsigned_take_bit_eq by (simp add: take_bit_eq_mod)
qed

section \<open>Bytes of words\<close>

text \<open>The byte of a word that starts at bit \<open>k\<close>: the source writes it \<^verbatim>\<open>(w >> k) as u8\<close>.\<close>

abbreviation byte_at :: "nat \<Rightarrow> 'a::len word \<Rightarrow> u8" where
  "byte_at k w \<equiv> ucast (drop_bit k w)"

lemma byte_at_OR [word_bytes]: "byte_at k (x OR y) = byte_at k x OR byte_at k y"
  by (rule bit_word_eqI) (simp add: bit_simps)

lemma low_byte_OR [word_bytes]: "(ucast (x OR y) :: u8) = ucast x OR ucast y"
  by (rule bit_word_eqI) (simp add: bit_simps)

lemma byte_at_push_same [word_bytes]:
  "k + 8 \<le> LENGTH('a) \<Longrightarrow> byte_at k (push_bit k (ucast b) :: 'a::len word) = b"
  by (rule bit_word_eqI) (simp add: bit_simps)

lemma byte_at_push_low [word_bytes]:
  "j + 8 \<le> k \<Longrightarrow> byte_at k (push_bit j (ucast (b :: u8)) :: 'a::len word) = 0"
  using bit_imp_le_length [of b] by (intro bit_word_eqI) (force simp: bit_simps)

lemma byte_at_push_high [word_bytes]:
  "k + 8 \<le> j \<Longrightarrow> byte_at k (push_bit j (ucast b) :: 'a::len word) = 0"
  by (rule bit_word_eqI) (auto simp: bit_simps)

lemma byte_at_ucast_high [word_bytes]:
  "8 \<le> k \<Longrightarrow> byte_at k (ucast (b :: u8) :: 'a::len word) = 0"
  using bit_imp_le_length [of b] by (intro bit_word_eqI) (force simp: bit_simps)

lemma low_byte_push_high [word_bytes]:
  "8 \<le> j \<Longrightarrow> (ucast (push_bit j (ucast (b :: u8)) :: 'a::len word) :: u8) = 0"
  by (rule bit_word_eqI) (auto simp: bit_simps)

lemma low_byte_ucast [word_bytes]:
  "8 \<le> LENGTH('a) \<Longrightarrow> (ucast (ucast (b :: u8) :: 'a::len word) :: u8) = b"
  by (rule bit_word_eqI) (simp add: bit_simps)

text \<open>A word whose width is a multiple of eight is determined by its bytes.\<close>

lemma word_eq_bytesI:
  fixes x y :: "'a::len word"
  assumes "8 dvd LENGTH('a)"
    and "\<And>k. k < LENGTH('a) div 8 \<Longrightarrow> byte_at (8 * k) x = byte_at (8 * k) y"
  shows "x = y"
proof (rule bit_word_eqI)
  fix n assume n: "n < LENGTH('a)"
  have byte: "bit w n \<longleftrightarrow> bit (byte_at (8 * (n div 8)) w) (n mod 8)" for w :: "'a word"
    by (simp add: bit_simps mult.commute)
  have "n div 8 < LENGTH('a) div 8"
    using n assms(1) by (metis dvd_mult_div_cancel less_mult_imp_div_less mult.commute)
  then show "bit x n \<longleftrightarrow> bit y n"
    using assms(2) [of "n div 8"] byte by metis
qed

section \<open>Lemmas on results\<close>

lemma rbind_Inr [simp, res_simps]: "rbind (Inr x) f = f x"
  by (simp add: rbind_def)

lemma rbind_Inl [simp, res_simps]: "rbind (Inl e) f = Inl e"
  by (simp add: rbind_def)

lemma rbind_eq_Inr [res_simps]:
  "rbind m f = Inr y \<longleftrightarrow> (\<exists>x. m = Inr x \<and> f x = Inr y)"
  by (cases m) auto

lemma rbind_eq_Inl:
  "rbind m f = Inl e \<longleftrightarrow> m = Inl e \<or> (\<exists>x. m = Inr x \<and> f x = Inl e)"
  by (cases m) auto

lemma rbind_assoc: "rbind (rbind m f) g = rbind m (\<lambda>x. rbind (f x) g)"
  by (cases m) auto

lemma rfold_append: "rfold f (xs @ ys) s = rbind (rfold f xs s) (rfold f ys)"
  by (induction xs arbitrary: s) (simp_all add: rbind_def split: sum.splits)

text \<open>A loop whose body cannot panic is a \<^const>\<open>fold\<close>; a loop invariant is kept by the loop.\<close>

lemma rfold_fold:
  assumes "\<And>x s. f x s = Inr (g x s)"
  shows "rfold f xs s = Inr (fold g xs s)"
  using assms by (induction xs arbitrary: s) auto

lemma rfold_invariant:
  assumes "P s"
    and "\<And>x s. x \<in> set xs \<Longrightarrow> P s \<Longrightarrow> \<exists>s'. f x s = Inr s' \<and> P s'"
  shows "\<exists>s'. rfold f xs s = Inr s' \<and> P s'"
  using assms
proof (induction xs arbitrary: s)
  case Nil
  then show ?case by simp
next
  case (Cons x xs)
  obtain s' where s': "f x s = Inr s'" "P s'"
    using Cons.prems(2) [OF _ Cons.prems(1), of x] by auto
  have "\<exists>s''. rfold f xs s' = Inr s'' \<and> P s''"
    using s'(2) Cons.prems(2) by (intro Cons.IH) auto
  with s'(1) show ?case by simp
qed

lemma rfold_keeps:
  assumes "rfold f xs s = Inr s'" and "P s"
    and "\<And>x s s'. x \<in> set xs \<Longrightarrow> P s \<Longrightarrow> f x s = Inr s' \<Longrightarrow> P s'"
  shows "P s'"
  using assms
proof (induction xs arbitrary: s)
  case Nil
  then show ?case by simp
next
  case (Cons x xs)
  then obtain t where t: "f x s = Inr t" "rfold f xs t = Inr s'"
    by (auto simp: rbind_eq_Inr)
  have "P t" using Cons.prems(2) Cons.prems(3) [of x s t] t(1) by simp
  with t(2) Cons.prems(3) show ?case by (auto intro: Cons.IH)
qed

lemma rfor_rfold: "rfor lo hi f s = rfold f [lo..<hi] s"
proof (induction lo hi f s rule: rfor.induct)
  case (1 lo hi f s)
  then show ?case
    by (cases "lo < hi") (simp_all add: rfor.simps [of lo] upt_conv_Cons rbind_def split: sum.split)
qed

text \<open>A \<^verbatim>\<open>for\<close> loop that computes on when its body does.\<close>

lemma rfor_fold:
  assumes "\<And>i s. lo \<le> i \<Longrightarrow> i < hi \<Longrightarrow> f i s = Inr (g i s)"
  shows "rfor lo hi f s = Inr (fold g [lo..<hi] s)"
proof -
  have "rfold f xs s = Inr (fold g xs s)" if "set xs \<subseteq> {lo..<hi}" for xs s
    using that assms by (induction xs arbitrary: s) auto
  then show ?thesis by (simp add: rfor_rfold)
qed

section \<open>Lemmas on slices\<close>

lemma get_at_ok [slice_simps]: "i < length xs \<Longrightarrow> get_at xs i = Inr (xs ! i)"
  by (simp add: get_at_def)

lemma get_at_eq_Inr: "get_at xs i = Inr v \<longleftrightarrow> i < length xs \<and> v = xs ! i"
  by (auto simp: get_at_def)

lemma get_at_oob: "length xs \<le> i \<Longrightarrow> get_at xs i = Inl Index_OOB"
  by (simp add: get_at_def)

lemma set_at_ok [slice_simps]: "i < length xs \<Longrightarrow> set_at xs i v = Inr (xs[i := v])"
  by (simp add: set_at_def)

lemma set_at_eq_Inr: "set_at xs i v = Inr ys \<longleftrightarrow> i < length xs \<and> ys = xs[i := v]"
  by (auto simp: set_at_def)

lemma view_at_ok [slice_simps]:
  "i < length xs \<Longrightarrow> i + n \<le> length xs \<Longrightarrow> view_at xs i n = Inr (take n (drop i xs))"
  by (simp add: view_at_def)

lemma write_at_ok [slice_simps]:
  "i < length xs \<Longrightarrow> i + length bs \<le> length xs \<Longrightarrow> write_at xs i bs = Inr (splice i bs xs)"
  by (simp add: write_at_def)

lemma length_splice [simp]: "i + length bs \<le> length xs \<Longrightarrow> length (splice i bs xs) = length xs"
  by (simp add: splice_def)

lemma nth_splice:
  assumes "i + length bs \<le> length xs" and "k < length xs"
  shows "splice i bs xs ! k = (if i \<le> k \<and> k < i + length bs then bs ! (k - i) else xs ! k)"
proof -
  consider "k < i" | "i \<le> k" "k < i + length bs" | "i + length bs \<le> k" by linarith
  then show ?thesis
  proof cases
    case 3
    then have "\<not> k - i < length bs" and "i + length bs + (k - i - length bs) = k" by simp_all
    with 3 assms show ?thesis by (simp add: splice_def nth_append)
  qed (use assms in \<open>auto simp: splice_def nth_append\<close>)
qed

lemma take_drop_splice [simp]:
  "i + length bs \<le> length xs \<Longrightarrow> take (length bs) (drop i (splice i bs xs)) = bs"
  by (simp add: splice_def)

lemma length_le16 [simp]: "length (le16 w) = 2"
  by (simp add: le16_def)

lemma of_le16_le16 [simp]: "of_le16 (le16 w) = w"
  unfolding of_le16_def le16_def
  by (rule bit_word_eqI) (auto simp: bit_simps)

lemma be16_less: "be16 hi lo < 65536"
proof -
  have "unat hi \<le> 255" and "unat lo \<le> 255"
    using unsigned_less [of hi, where 'a = nat] unsigned_less [of lo, where 'a = nat] by simp_all
  then show ?thesis by (simp add: be16_def)
qed

end
