(* ===== verification/X86_Io.thy ===== *)
theory X86_Io
  imports Rust_Prelude
begin

text \<open>
  The instructions behind \<^verbatim>\<open>src/src/arch/x86_64/io.rs\<close>.  Each is an event in a log; what an instruction
  reads from the machine is the answer of the hardware, an argument that sees the log so far.  The
  serial port of \<^verbatim>\<open>src/src/devices/serial.rs\<close> and the console of \<^verbatim>\<open>src/src/console.rs\<close> are modelled on top.
\<close>

section \<open>Instructions\<close>

datatype io_event =
    Out8 u16 u8
  | Out16 u16 u16
  | Out32 u16 u32
  | In8 u16
  | In16 u16
  | In32 u16
  | Hlt
  | Nop
  | Rdtsc
  | Cpuid u32
  | Sti
  | Cli
  | Wrmsr u32 u32 u32
  | Rdmsr u32
  | Mem_Write u64 u32
  | Mem_Read u64
  | Lidt u16 u64

type_synonym io_log = "io_event list"

record hardware =
  hw_in8 :: "io_log \<Rightarrow> u16 \<Rightarrow> u8"
  hw_in16 :: "io_log \<Rightarrow> u16 \<Rightarrow> u16"
  hw_in32 :: "io_log \<Rightarrow> u16 \<Rightarrow> u32"
  hw_rdtsc :: "io_log \<Rightarrow> u32 \<times> u32"
  hw_cpuid :: "io_log \<Rightarrow> u32 \<Rightarrow> u32 \<times> u32 \<times> u32 \<times> u32"
  hw_rdmsr :: "io_log \<Rightarrow> u32 \<Rightarrow> u32 \<times> u32"
  hw_mem :: "io_log \<Rightarrow> u64 \<Rightarrow> u32"

definition outb :: "u16 \<Rightarrow> u8 \<Rightarrow> io_log \<Rightarrow> io_log" where "outb port val l = l @ [Out8 port val]"
definition outw :: "u16 \<Rightarrow> u16 \<Rightarrow> io_log \<Rightarrow> io_log" where "outw port val l = l @ [Out16 port val]"
definition outl :: "u16 \<Rightarrow> u32 \<Rightarrow> io_log \<Rightarrow> io_log" where "outl port val l = l @ [Out32 port val]"

definition inb :: "hardware \<Rightarrow> u16 \<Rightarrow> io_log \<Rightarrow> u8 \<times> io_log" where
  "inb H port l = (hw_in8 H l port, l @ [In8 port])"
definition inw :: "hardware \<Rightarrow> u16 \<Rightarrow> io_log \<Rightarrow> u16 \<times> io_log" where
  "inw H port l = (hw_in16 H l port, l @ [In16 port])"
definition inl :: "hardware \<Rightarrow> u16 \<Rightarrow> io_log \<Rightarrow> u32 \<times> io_log" where
  "inl H port l = (hw_in32 H l port, l @ [In32 port])"

definition hlt :: "io_log \<Rightarrow> io_log" where "hlt l = l @ [Hlt]"
definition nop :: "io_log \<Rightarrow> io_log" where "nop l = l @ [Nop]"
definition io_enable_interrupt :: "io_log \<Rightarrow> io_log" where "io_enable_interrupt l = l @ [Sti]"
definition io_disable_interrupt :: "io_log \<Rightarrow> io_log" where "io_disable_interrupt l = l @ [Cli]"

definition rdtsc_with_cpuid :: "hardware \<Rightarrow> io_log \<Rightarrow> u64 \<times> io_log" where
  "rdtsc_with_cpuid H l = (let (lo, hi) = hw_rdtsc H l in (push_bit 32 (ucast hi) OR ucast lo, l @ [Rdtsc]))"

definition get_kvm_features :: "hardware \<Rightarrow> io_log \<Rightarrow> u32 \<times> io_log" where
  "get_kvm_features H l = (fst (hw_cpuid H l 0x40000001), l @ [Cpuid 0x40000001])"

definition cpuid :: "hardware \<Rightarrow> u32 \<Rightarrow> io_log \<Rightarrow> (u32 \<times> u32 \<times> u32 \<times> u32) \<times> io_log" where
  "cpuid H eax l = (hw_cpuid H l eax, l @ [Cpuid eax])"

definition wrmsr :: "u32 \<Rightarrow> u64 \<Rightarrow> io_log \<Rightarrow> io_log" where
  "wrmsr reg val l = (let lo = ucast (val AND 0xffffffff); hi = ucast (drop_bit 32 val) in l @ [Wrmsr reg lo hi])"

definition rdmsr :: "hardware \<Rightarrow> u32 \<Rightarrow> io_log \<Rightarrow> u64 \<times> io_log" where
  "rdmsr H reg l = (let (lo, hi) = hw_rdmsr H l reg in (push_bit 32 (ucast hi) OR ucast lo, l @ [Rdmsr reg]))"

text \<open>The two halves that \<^verbatim>\<open>wrmsr\<close> writes are the value that \<^verbatim>\<open>rdmsr\<close> puts together.\<close>

lemma msr_halves: "push_bit 32 (ucast (ucast (drop_bit 32 val) :: u32)) OR ucast (ucast (val AND 0xffffffff) :: u32) = (val :: u64)"
proof -
  have low: "val AND 0xffffffff = take_bit 32 val" by (simp add: take_bit_eq_mask mask_eq_exp_minus_1)
  show ?thesis unfolding low by (rule bit_word_eqI) (auto simp: bit_simps)
qed

section \<open>The serial port\<close>

definition init_serial :: "u16 \<Rightarrow> io_log \<Rightarrow> io_log" where
  "init_serial port l =
     (let l = outb (port + 1) 0x00 l;
          l = outb (port + 3) 0x80 l;
          l = outb (port + 0) 0x03 l;
          l = outb (port + 1) 0x00 l;
          l = outb (port + 3) 0x03 l;
          l = outb (port + 2) 0xC7 l
      in outb (port + 4) 0x0B l)"

definition serial_new :: "u16 \<Rightarrow> io_log \<Rightarrow> u16 \<times> io_log" where
  "serial_new port l = (port, init_serial port l)"

definition is_received :: "hardware \<Rightarrow> u16 \<Rightarrow> io_log \<Rightarrow> bool \<times> io_log" where
  "is_received H port l = (let (b, l) = inb H (port + 5) l in (b AND 0x01 = 1, l))"

definition is_transmit_empty :: "hardware \<Rightarrow> u16 \<Rightarrow> io_log \<Rightarrow> bool \<times> io_log" where
  "is_transmit_empty H port l = (let (b, l) = inb H (port + 5) l in (b AND 0x20 = 0x20, l))"

text \<open>The loops that wait for the port; \<^const>\<open>None\<close> says that they do not return.\<close>

partial_function (option) serial_read_byte :: "hardware \<Rightarrow> u16 \<Rightarrow> io_log \<Rightarrow> (u8 \<times> io_log) option" where
  "serial_read_byte H port l =
     (let (ready, l) = is_received H port l in
      if ready then Some (inb H port l) else serial_read_byte H port l)"

partial_function (option) serial_write_byte :: "hardware \<Rightarrow> u16 \<Rightarrow> u8 \<Rightarrow> io_log \<Rightarrow> io_log option" where
  "serial_write_byte H port val l =
     (let (ready, l) = is_transmit_empty H port l in
      if ready then Some (outb port val l) else serial_write_byte H port val l)"

fun serial_write_str :: "hardware \<Rightarrow> u16 \<Rightarrow> u8 list \<Rightarrow> io_log \<Rightarrow> io_log option" where
  "serial_write_str H port [] l = Some l"
| "serial_write_str H port (item # bytes) l = Option.bind (serial_write_byte H port item l) (serial_write_str H port bytes)"

text \<open>The console: nothing is printed before \<^verbatim>\<open>init\<close>.\<close>

definition console_init :: "io_log \<Rightarrow> u16 option \<times> io_log" where
  "console_init l = (let (port, l) = serial_new 0x03f8 l in (Some port, l))"

definition console_print :: "hardware \<Rightarrow> u16 option \<Rightarrow> u8 list \<Rightarrow> io_log \<Rightarrow> io_log option" where
  "console_print H console text l =
     (case console of Some port \<Rightarrow> serial_write_str H port text l | None \<Rightarrow> Some l)"

section \<open>What arrives at the serial port\<close>

text \<open>The bytes that a log sends to a port, in order.\<close>

fun sent_bytes :: "u16 \<Rightarrow> io_log \<Rightarrow> u8 list" where
  "sent_bytes port [] = []"
| "sent_bytes port (Out8 p v # l) = (if p = port then v # sent_bytes port l else sent_bytes port l)"
| "sent_bytes port (_ # l) = sent_bytes port l"

lemma sent_bytes_append: "sent_bytes port (l @ l') = sent_bytes port l @ sent_bytes port l'"
  by (induction port l rule: sent_bytes.induct) simp_all

text \<open>
  In the events after the log \<open>l\<close> every byte for the port comes right after a reading of the line status
  that reported the transmitter to be empty; \<open>ready\<close> says whether the last event was such a reading.
\<close>

fun ready_sends :: "hardware \<Rightarrow> u16 \<Rightarrow> bool \<Rightarrow> io_log \<Rightarrow> io_log \<Rightarrow> bool" where
  "ready_sends H port ready l [] = True"
| "ready_sends H port ready l (e # es) =
     ((case e of Out8 p v \<Rightarrow> p = port \<longrightarrow> ready | _ \<Rightarrow> True) \<and>
      ready_sends H port (e = In8 (port + 5) \<and> hw_in8 H l (port + 5) AND 0x20 = 0x20) (l @ [e]) es)"

lemma ready_sends_byte:
  "hw_in8 H (l @ replicate k (In8 (port + 5))) (port + 5) AND 0x20 = 0x20 \<Longrightarrow>
   ready_sends H port r l (replicate (Suc k) (In8 (port + 5)) @ Out8 port v # es) \<longleftrightarrow>
   ready_sends H port False (l @ replicate (Suc k) (In8 (port + 5)) @ [Out8 port v]) es"
proof (induction k arbitrary: l r)
  case (Suc k)
  then show ?case using Suc.IH [of "l @ [In8 (port + 5)]"] by simp
qed simp

text \<open>A port that, polled often enough, always reports at some point that it can take a byte.\<close>

definition drains :: "hardware \<Rightarrow> u16 \<Rightarrow> bool" where
  "drains H port \<longleftrightarrow> (\<forall>l. \<exists>k. hw_in8 H (l @ replicate k (In8 (port + 5))) (port + 5) AND 0x20 = 0x20)"

lemma serial_write_byte_poll:
  assumes "hw_in8 H (l @ replicate k (In8 (port + 5))) (port + 5) AND 0x20 = 0x20"
    and "\<And>j. j < k \<Longrightarrow> hw_in8 H (l @ replicate j (In8 (port + 5))) (port + 5) AND 0x20 \<noteq> 0x20"
  shows "serial_write_byte H port val l = Some (l @ replicate (Suc k) (In8 (port + 5)) @ [Out8 port val])"
  using assms
proof (induction k arbitrary: l)
  case 0
  then show ?case by (subst serial_write_byte.simps) (simp add: is_transmit_empty_def inb_def outb_def)
next
  case (Suc k)
  have busy: "hw_in8 H l (port + 5) AND 0x20 \<noteq> 0x20" using Suc.prems(2) [of 0] by simp
  have "serial_write_byte H port val (l @ [In8 (port + 5)]) =
      Some ((l @ [In8 (port + 5)]) @ replicate (Suc k) (In8 (port + 5)) @ [Out8 port val])"
  proof (rule Suc.IH)
    show "hw_in8 H ((l @ [In8 (port + 5)]) @ replicate k (In8 (port + 5))) (port + 5) AND 0x20 = 0x20"
      using Suc.prems(1) by simp
    show "hw_in8 H ((l @ [In8 (port + 5)]) @ replicate j (In8 (port + 5))) (port + 5) AND 0x20 \<noteq> 0x20" if "j < k" for j
      using Suc.prems(2) [of "Suc j"] that by simp
  qed
  then show ?case using busy by (subst serial_write_byte.simps) (simp add: is_transmit_empty_def inb_def)
qed

lemma serial_write_byte_returns:
  assumes "drains H port"
  shows "\<exists>k. serial_write_byte H port val l = Some (l @ replicate (Suc k) (In8 (port + 5)) @ [Out8 port val]) \<and>
    hw_in8 H (l @ replicate k (In8 (port + 5))) (port + 5) AND 0x20 = 0x20"
proof -
  define P where "P k \<longleftrightarrow> hw_in8 H (l @ replicate k (In8 (port + 5))) (port + 5) AND 0x20 = 0x20" for k
  have ex: "\<exists>k. P k" using assms by (simp add: drains_def P_def)
  define k where "k = (LEAST k. P k)"
  have "P k" unfolding k_def by (rule LeastI_ex [OF ex])
  moreover have "\<not> P j" if "j < k" for j using that unfolding k_def by (rule not_less_Least)
  ultimately have "serial_write_byte H port val l = Some (l @ replicate (Suc k) (In8 (port + 5)) @ [Out8 port val])"
    unfolding P_def by (rule serial_write_byte_poll)
  then show ?thesis using \<open>P k\<close> unfolding P_def by blast
qed

lemma sent_bytes_polls: "sent_bytes port (replicate k (In8 p)) = []"
  by (induction k) simp_all

lemma serial_write_str_sends:
  assumes "drains H port"
  shows "\<exists>l'. serial_write_str H port bytes l = Some (l @ l') \<and> sent_bytes port l' = bytes \<and> ready_sends H port False l l'"
proof (induction bytes arbitrary: l)
  case Nil
  show ?case by simp
next
  case (Cons b bs)
  obtain k where k: "serial_write_byte H port b l = Some (l @ replicate (Suc k) (In8 (port + 5)) @ [Out8 port b])"
    "hw_in8 H (l @ replicate k (In8 (port + 5))) (port + 5) AND 0x20 = 0x20"
    using serial_write_byte_returns [OF assms] by blast
  let ?l = "l @ replicate (Suc k) (In8 (port + 5)) @ [Out8 port b]"
  obtain l' where "serial_write_str H port bs ?l = Some (?l @ l')" "sent_bytes port l' = bs" "ready_sends H port False ?l l'"
    using Cons.IH by blast
  then show ?case
    using k ready_sends_byte [OF k(2), of False b l']
    by (intro exI [of _ "replicate (Suc k) (In8 (port + 5)) @ Out8 port b # l'"])
      (simp add: sent_bytes_append sent_bytes_polls del: replicate_Suc)
qed

text \<open>
  C40. Everything printed on the console arrives: on a serial port that always reports again at some point
  that it can take a byte, printing returns and sends exactly the bytes of the text, in order, each of them
  right after a reading of the line status that reported the transmitter to be empty; before the console is
  set up nothing is sent.
\<close>

theorem console_sends_text:
  assumes "drains H 0x3f8"
  shows "(\<exists>l'. console_print H (fst (console_init l)) text (snd (console_init l)) = Some (snd (console_init l) @ l') \<and>
      sent_bytes 0x3f8 l' = text \<and> ready_sends H 0x3f8 False (snd (console_init l)) l') \<and> console_print H None text l = Some l"
  using serial_write_str_sends [OF assms] by (simp add: console_print_def console_init_def serial_new_def)

definition slow_hardware :: hardware where
  "slow_hardware = \<lparr>hw_in8 = (\<lambda>l p. case rev l of In8 q # r \<Rightarrow> 0x60 | _ \<Rightarrow> 0), hw_in16 = (\<lambda>_ _. 0), hw_in32 = (\<lambda>_ _. 0),
     hw_rdtsc = (\<lambda>_. (0, 0)), hw_cpuid = (\<lambda>_ _. (0, 0, 0, 0)), hw_rdmsr = (\<lambda>_ _. (0, 0)), hw_mem = (\<lambda>_ _. 0)\<rparr>"

theorem console_sends_text_witness:
  "\<exists>l'. console_print slow_hardware (fst (console_init [])) [72, 105] (snd (console_init [])) = Some (snd (console_init []) @ l') \<and>
     sent_bytes 0x3f8 l' = [72, 105] \<and> ready_sends slow_hardware 0x3f8 False (snd (console_init [])) l'"
proof -
  have "drains slow_hardware 0x3f8"
    unfolding drains_def by (intro allI exI [of _ 1]) (simp add: slow_hardware_def)
  then show ?thesis using console_sends_text by blast
qed

end
