(* ===== verification/Civil_Calendar.thy ===== *)
theory Civil_Calendar
  imports Rust_Prelude
begin

text \<open>
  The date computation \<^verbatim>\<open>get_calendar_from_epoch\<close> of \<^verbatim>\<open>src/src/arch/x86_64/kvmclock.rs\<close>, on the
  machine words of the source, compared with a specification of the Gregorian calendar that counts
  days year by year and month by month.
\<close>

section \<open>The calendar\<close>

record calendar_time =
  cal_year :: u16
  cal_month :: u8
  cal_day :: u8
  cal_hour :: u8
  cal_min :: u8
  cal_sec :: u8

definition days_of_month :: "u64 list" where
  "days_of_month = [0, 31, 61, 92, 122, 153, 184, 214, 245, 275, 306, 337]"

definition days_of_one_year :: u64 where "days_of_one_year = 365"
definition days_of_four_year :: u64 where "days_of_four_year = days_of_one_year * 4 + 1"
definition days_of_hundred_year :: u64 where "days_of_hundred_year = days_of_four_year * 25 - 1"
definition days_of_four_hundred_year :: u64 where "days_of_four_hundred_year = days_of_hundred_year * 4 + 1"

text \<open>The year and the day within it, both counted from March; the flag says that it is a leap day.\<close>

definition split_years :: "u64 \<Rightarrow> u64 \<times> u64 \<times> bool" where
  "split_years day_from_march =
     (let year = 400 * (day_from_march div days_of_four_hundred_year);
          day = day_from_march mod days_of_four_hundred_year;
          n = day div days_of_hundred_year;
          year = year + n * 100;
          day = day mod days_of_hundred_year
      in if n = 4 then (year, day, True)
         else
           let year = year + (day div days_of_four_year) * 4;
               day = day mod days_of_four_year;
               n = day div days_of_one_year;
               year = year + n;
               day = day mod days_of_one_year
           in (year, day, n = 4))"

definition split_months :: "u64 \<times> u64 \<times> bool \<Rightarrow> (u64 \<times> u64 \<times> u64) res" where
  "split_months ydl =
     (case ydl of (year, day, leap) \<Rightarrow>
        if leap then Inr (year, 2, 29)
        else
          let month_diff = (day * 5 + 2) div 153 in
          rbind (get_at days_of_month (unat month_diff)) (\<lambda>before.
            let day = day - before + 1 in
            Inr (if 9 < month_diff then (year + 1, month_diff - 9, day) else (year, month_diff + 3, day))))"

definition get_calendar_from_epoch :: "u64 \<Rightarrow> calendar_time res" where
  "get_calendar_from_epoch sec =
     (let second = sec mod 60;
          minute = (sec div 60) mod 60;
          hour = (sec div 3600) mod 24;
          day_from_epoch = sec div (24 * 60 * 60);
          day_from_march = day_from_epoch + (1969 * 365 + 1969 div 4 - 1969 div 100 + 1969 div 400 + 306)
      in rbind (split_months (split_years day_from_march)) (\<lambda>(year, month, day).
           Inr \<lparr>cal_year = ucast year, cal_month = ucast month, cal_day = ucast day,
                cal_hour = ucast hour, cal_min = ucast minute, cal_sec = ucast second\<rparr>))"

section \<open>The Gregorian calendar\<close>

definition leap_year :: "nat \<Rightarrow> bool" where
  "leap_year y \<longleftrightarrow> (4 dvd y \<and> \<not> 100 dvd y) \<or> 400 dvd y"

definition year_days :: "nat \<Rightarrow> nat" where
  "year_days y = (if leap_year y then 366 else 365)"

definition month_days :: "nat \<Rightarrow> nat \<Rightarrow> nat" where
  "month_days y m =
     (if m = 2 then if leap_year y then 29 else 28
      else if m = 4 \<or> m = 6 \<or> m = 9 \<or> m = 11 then 30 else 31)"

definition valid_date :: "nat \<Rightarrow> nat \<Rightarrow> nat \<Rightarrow> bool" where
  "valid_date y m d \<longleftrightarrow> 1970 \<le> y \<and> 1 \<le> m \<and> m \<le> 12 \<and> 1 \<le> d \<and> d \<le> month_days y m"

text \<open>Days from 1 January 1970 to a date.\<close>

definition days_since_epoch :: "nat \<Rightarrow> nat \<Rightarrow> nat \<Rightarrow> nat" where
  "days_since_epoch y m d = (\<Sum>i=1970..<y. year_days i) + (\<Sum>i=1..<m. month_days y i) + (d - 1)"

section \<open>Years\<close>

text \<open>The leap days of the years up to and including \<open>n\<close>.\<close>

definition leap_days :: "nat \<Rightarrow> nat" where
  "leap_days n = n div 4 - n div 100 + n div 400"

lemma leap_days_Suc: "leap_days (Suc n) = leap_days n + (if leap_year (Suc n) then 1 else 0)"
proof -
  have s: "Suc n div k = n div k + (if k dvd Suc n then 1 else 0)" if "0 < k" for k
    using that by (simp add: div_Suc mod_Suc dvd_eq_mod_eq_0)
  have "100 dvd Suc n \<Longrightarrow> 4 dvd Suc n" "400 dvd Suc n \<Longrightarrow> 100 dvd Suc n"
    by (auto elim: dvd_trans [rotated] intro: dvd_trans)
  moreover have "n div 100 \<le> n div 4" by (rule div_le_mono2) auto
  ultimately show ?thesis
    by (simp add: leap_days_def leap_year_def s) 
qed

lemma leap_days_mono: "m \<le> n \<Longrightarrow> leap_days m \<le> leap_days n"
  by (induction rule: dec_induct) (simp_all add: leap_days_Suc)

lemma year_days_sum:
  "(\<Sum>i=1970..<1970 + k. year_days i) + leap_days 1969 = 365 * k + leap_days (1969 + k)"
proof (induction k)
  case (Suc k)
  have "leap_days (1969 + Suc k) = leap_days (1969 + k) + (if leap_year (1970 + k) then 1 else 0)"
    using leap_days_Suc [of "1969 + k"] by simp
  moreover have "(\<Sum>i=1970..<1970 + Suc k. year_days i) = (\<Sum>i=1970..<1970 + k. year_days i) + year_days (1970 + k)"
    by (simp only: add_Suc_right sum.atLeastLessThan_Suc le_add1)
  ultimately show ?case using Suc by (simp only: year_days_def) simp
qed simp

text \<open>
  Days counted from 1 March of the year 0: \<open>march_day\<close> is the day on which the year \<open>Y\<close> of
  twelve months that begins in March starts.
\<close>

definition march_day :: "nat \<Rightarrow> nat" where
  "march_day Y = 365 * Y + leap_days Y"

lemma march_day_parts:
  assumes "c \<le> 3" "f \<le> 24" "n \<le> 3"
  shows "march_day (400 * q + 100 * c + 4 * f + n) = 146097 * q + 36524 * c + 1461 * f + 365 * n"
proof -
  let ?y = "400 * q + 100 * c + 4 * f + n"
  have "?y div 4 = 100 * q + 25 * c + f" "?y div 100 = 4 * q + c" "?y div 400 = q"
    using assms by (auto intro: div_nat_eqI)
  then show ?thesis by (simp add: march_day_def leap_days_def)
qed

lemma leap_year_parts: "f \<le> 23 \<Longrightarrow> leap_year (400 * q + 100 * c + 4 * f + 4)"
proof -
  assume f: "f \<le> 23"
  have "400 * q + 100 * c + 4 * f + 4 = 4 * (100 * q + 25 * c + f + 1)" by simp
  then have "4 dvd 400 * q + 100 * c + 4 * f + 4" by (metis dvd_triv_left)
  moreover have "400 * q + 100 * c + 4 * f + 4 = 100 * (4 * q + c) + (4 * f + 4)" by simp
  then have "(400 * q + 100 * c + 4 * f + 4) mod 100 = (4 * f + 4) mod 100" by (simp only: mod_mult_self4)
  then have "\<not> 100 dvd 400 * q + 100 * c + 4 * f + 4" using f by (simp add: dvd_eq_mod_eq_0)
  ultimately show ?thesis by (simp add: leap_year_def)
qed

text \<open>The decomposition of a day number, as the code computes it, on natural numbers.\<close>

lemma march_split:
  fixes D :: nat
  defines "r \<equiv> D mod 146097"
  defines "r2 \<equiv> r mod 36524"
  defines "r3 \<equiv> r2 mod 1461"
  defines "Y \<equiv> 400 * (D div 146097) + 100 * (r div 36524) + 4 * (r2 div 1461)"
  shows "r div 36524 = 4 \<Longrightarrow>
      D = march_day (400 * (D div 146097) + 399) + 365 \<and> leap_year (400 * (D div 146097) + 400)"
    and "r div 36524 \<noteq> 4 \<Longrightarrow> r3 div 365 = 4 \<Longrightarrow> D = march_day (Y + 3) + 365 \<and> leap_year (Y + 4)"
    and "r div 36524 \<noteq> 4 \<Longrightarrow> r3 div 365 \<noteq> 4 \<Longrightarrow> D = march_day (Y + r3 div 365) + r3 mod 365"
proof -
  have eqs: "D = 146097 * (D div 146097) + r" "r = 36524 * (r div 36524) + r2"
      "r2 = 1461 * (r2 div 1461) + r3" "r3 = 365 * (r3 div 365) + r3 mod 365"
    and less: "r < 146097" "r2 < 36524" "r3 < 1461" "r3 mod 365 < 365"
    by (simp_all add: r_def r2_def r3_def)
  show "D = march_day (400 * (D div 146097) + 399) + 365 \<and> leap_year (400 * (D div 146097) + 400)"
    if c: "r div 36524 = 4"
  proof -
    have "march_day (400 * (D div 146097) + 399) = 146097 * (D div 146097) + 145731"
      using march_day_parts [of 3 24 3 "D div 146097"] by (simp add: add.commute)
    then show ?thesis using c eqs(1,2) less(1) by (simp add: leap_year_def)
  qed
  have f: "r2 div 1461 \<le> 24" using less by linarith
  show "D = march_day (Y + 3) + 365 \<and> leap_year (Y + 4)" if a: "r div 36524 \<noteq> 4" "r3 div 365 = 4"
  proof -
    have "r div 36524 \<le> 3" "r2 div 1461 \<le> 23" "r3 = 1460" using a eqs less by linarith+
    then show ?thesis
      using march_day_parts [of "r div 36524" "r2 div 1461" 3 "D div 146097"] leap_year_parts eqs
      by (simp add: Y_def)
  qed
  show "D = march_day (Y + r3 div 365) + r3 mod 365" if a: "r div 36524 \<noteq> 4" "r3 div 365 \<noteq> 4"
  proof -
    have "r div 36524 \<le> 3" "r3 div 365 \<le> 3" using a less by linarith+
    then show ?thesis
      using march_day_parts [of "r div 36524" "r2 div 1461" "r3 div 365" "D div 146097"] f eqs
      by (simp add: Y_def)
  qed
qed

section \<open>The computation on machine words\<close>

lemmas calendar_constants = days_of_one_year_def days_of_four_year_def days_of_hundred_year_def
  days_of_four_hundred_year_def

lemma split_years_correct:
  assumes D: "unat d < 2 ^ 62"
  shows "case split_years d of (y, k, l) \<Rightarrow> unat y \<le> unat d + 1 \<and>
    (if l then 0 < unat y \<and> unat d = march_day (unat y - 1) + 365 \<and> leap_year (unat y)
     else unat d = march_day (unat y) + unat k \<and> unat k < 365)"
proof -
  define q r where "q = d div 146097" and "r = d mod 146097"
  define c r2 where "c = r div 36524" and "r2 = r mod 36524"
  define f r3 where "f = r2 div 1461" and "r3 = r2 mod 1461"
  define n k where "n = r3 div 365" and "k = r3 mod 365"
  note defs = q_def r_def c_def r2_def f_def r3_def n_def k_def
  have u: "unat q = unat d div 146097" "unat r = unat d mod 146097" "unat c = unat r div 36524"
    "unat r2 = unat r mod 36524" "unat f = unat r2 div 1461" "unat r3 = unat r2 mod 1461"
    "unat n = unat r3 div 365" "unat k = unat r3 mod 365"
    by (simp_all add: defs unat_div_distrib unat_mod_distrib)
  have sum: "unat d = 146097 * unat q + 36524 * unat c + 1461 * unat f + 365 * unat n + unat k"
    unfolding u by simp
  have b: "unat r < 146097" "unat r2 < 36524" "unat r3 < 1461" unfolding u by simp_all
  have bounds: "unat c \<le> 4" "unat f \<le> 24" "unat n \<le> 4" "unat k < 365"
    using b unfolding u by linarith+
  have y0: "unat (400 * q + c * 100) = 400 * unat q + 100 * unat c"
    using sum bounds D by (simp add: unat_add_nowrap unat_mult_nowrap)
  have y1: "unat (400 * q + c * 100 + f * 4 + n) = 400 * unat q + 100 * unat c + 4 * unat f + unat n"
    using sum bounds D by (simp add: unat_add_nowrap unat_mult_nowrap)
  have c4: "c = 4 \<longleftrightarrow> unat c = 4" and n4: "n = 4 \<longleftrightarrow> unat n = 4"
    by (simp_all add: word_unat_eq_iff)
  have eq: "split_years d = (if c = 4 then (400 * q + c * 100, r2, True) else (400 * q + c * 100 + f * 4 + n, k, n = 4))"
    by (simp add: split_years_def defs calendar_constants Let_def)
  note split = march_split [of "unat d", folded u]
  consider "unat c = 4" | "unat c \<noteq> 4" "unat n = 4" | "unat c \<noteq> 4" "unat n \<noteq> 4" by blast
  then show ?thesis
  proof cases
    case 1
    then have "unat (400 * q + c * 100) = 400 * unat q + 400" using y0 by simp
    with 1 split(1) sum show ?thesis by (simp only: eq c4) (simp add: add.commute)
  next
    case 2
    then show ?thesis using y1 split(2) sum bounds by (simp only: eq c4 n4) (simp add: ac_simps)
  next
    case 3
    then show ?thesis using y1 split(3) sum bounds by (simp only: eq c4 n4) simp
  qed
qed

section \<open>Months\<close>

text \<open>The days before a month that counts from March, and the days of that month.\<close>

definition month_starts :: "nat list" where
  "month_starts = [0, 31, 61, 92, 122, 153, 184, 214, 245, 275, 306, 337]"

definition month_lengths :: "nat list" where
  "month_lengths = [31, 30, 31, 30, 31, 31, 30, 31, 30, 31, 31, 28]"

lemma length_days_of_month [simp]: "length days_of_month = 12"
  by (simp add: days_of_month_def)

lemma days_of_month_unat: "i < 12 \<Longrightarrow> unat (days_of_month ! i) = month_starts ! i"
proof -
  have "map unat days_of_month = month_starts"
    by (simp add: days_of_month_def month_starts_def)
  then show "i < 12 \<Longrightarrow> ?thesis" by (metis length_days_of_month nth_map)
qed

lemma month_index:
  assumes "doy < 365"
  defines "md \<equiv> (doy * 5 + 2) div 153"
  shows "md < 12" "month_starts ! md \<le> doy" "doy - month_starts ! md + 1 \<le> month_lengths ! md"
proof -
  have lim: "153 * md \<le> doy * 5 + 2" "doy * 5 + 2 < 153 * md + 153"
    by (simp_all add: md_def)
  show md: "md < 12" using lim assms(1) by linarith
  then have "md \<in> {0, 1, 2, 3, 4, 5, 6, 7, 8, 9, 10, 11}" by (simp only: insert_iff empty_iff) arith
  then show "month_starts ! md \<le> doy" "doy - month_starts ! md + 1 \<le> month_lengths ! md"
    using lim assms(1) by (auto simp: month_starts_def month_lengths_def)
qed

lemma months_from_march:
  assumes "md \<le> 9"
  shows "(\<Sum>i=1..<md + 3. month_days y i) = 59 + (if leap_year y then 1 else 0) + month_starts ! md"
    and "month_days y (md + 3) = month_lengths ! md"
proof -
  have "md \<in> {0, 1, 2, 3, 4, 5, 6, 7, 8, 9}" using assms by auto
  then show "(\<Sum>i=1..<md + 3. month_days y i) = 59 + (if leap_year y then 1 else 0) + month_starts ! md"
    "month_days y (md + 3) = month_lengths ! md"
    by (auto simp: month_days_def month_starts_def month_lengths_def atLeastLessThan_nat_numeral)
qed

lemma years_before:
  assumes "1970 \<le> y"
  shows "(\<Sum>i=1970..<y. year_days i) + 719527 = 365 * y + leap_days (y - 1)"
proof -
  obtain k where y: "y = 1970 + k" using assms by (metis le_iff_add)
  have "leap_days 1969 = 477" by (simp add: leap_days_def)
  with year_days_sum [of k] show ?thesis by (simp add: y)
qed

text \<open>The day numbers of the three forms of dates that the code distinguishes.\<close>

lemma date_from_march:
  assumes "1970 \<le> y" "md \<le> 9" "month_starts ! md \<le> doy"
  shows "days_since_epoch y (md + 3) (doy - month_starts ! md + 1) + 719468 = march_day y + doy"
proof -
  have "leap_days y = leap_days (y - 1) + (if leap_year y then 1 else 0)"
    using leap_days_Suc [of "y - 1"] assms(1) by simp
  then show ?thesis
    using years_before [OF assms(1)] months_from_march(1) [OF assms(2), of y] assms(3)
    by (simp add: days_since_epoch_def march_day_def)
qed

lemma date_before_march:
  assumes "1969 \<le> y" "md = 10 \<or> md = 11" "month_starts ! md \<le> doy"
  shows "days_since_epoch (y + 1) (md - 9) (doy - month_starts ! md + 1) + 719468 = march_day y + doy"
  using assms years_before [of "y + 1"]
  by (auto simp: days_since_epoch_def march_day_def month_starts_def month_days_def atLeastLessThan_nat_numeral)

lemma date_leap_day:
  "1970 \<le> y \<Longrightarrow> days_since_epoch y 2 29 + 719468 = march_day (y - 1) + 365"
  using years_before [of y]
  by (simp add: days_since_epoch_def march_day_def month_days_def atLeastLessThan_nat_numeral)

lemma march_day_from_1970:
  assumes "719468 \<le> march_day y + doy" "doy \<le> 365"
  shows "1969 \<le> y" and "y = 1969 \<Longrightarrow> 306 \<le> doy"
proof -
  show "1969 \<le> y"
  proof (rule ccontr)
    assume "\<not> 1969 \<le> y"
    then have y: "y \<le> 1968" by simp
    have "leap_days 1968 = 477" by (simp add: leap_days_def)
    then have "march_day y \<le> 365 * 1968 + 477" using leap_days_mono [OF y] y by (simp add: march_day_def)
    with assms show False by simp
  qed
  show "y = 1969 \<Longrightarrow> 306 \<le> doy"
    using assms(1) by (simp add: march_day_def leap_days_def)
qed

section \<open>The date of a second\<close>

lemma split_months_day:
  assumes k: "unat k < 365" and y: "unat y < 2 ^ 63"
  defines "md \<equiv> (unat k * 5 + 2) div 153"
  shows "\<exists>y' m d. split_months (y, k, False) = Inr (y', m, d) \<and>
    unat y' = (if 9 < md then unat y + 1 else unat y) \<and>
    unat m = (if 9 < md then md - 9 else md + 3) \<and> unat d = unat k - month_starts ! md + 1"
proof -
  let ?w = "(k * 5 + 2) div 153"
  have w: "unat ?w = md"
    using k by (simp add: md_def unat_div_distrib unat_add_nowrap unat_mult_nowrap)
  note idx = month_index [OF k, folded md_def]
  have ge: "9 < ?w \<longleftrightarrow> 9 < md" by (simp add: word_less_nat_alt w)
  have b: "unat (days_of_month ! md) = month_starts ! md" using days_of_month_unat idx(1) by simp
  have "unat (k - days_of_month ! md) = unat k - month_starts ! md"
    using idx(2) b by (simp add: unat_sub word_le_nat_alt)
  then have d: "unat (k - days_of_month ! md + 1) = unat k - month_starts ! md + 1"
    using k by (simp add: unat_add_nowrap)
  have m: "unat (?w + 3) = md + 3" using idx(1) w by (simp add: unat_add_nowrap)
  have m': "9 < md \<Longrightarrow> unat (?w - 9) = md - 9" using w by (simp add: unat_sub word_le_nat_alt)
  have y': "unat (y + 1) = unat y + 1" using y by (simp add: unat_add_nowrap)
  have "split_months (y, k, False) =
      Inr (if 9 < md then (y + 1, ?w - 9, k - days_of_month ! md + 1) else (y, ?w + 3, k - days_of_month ! md + 1))"
    using idx(1) by (simp add: split_months_def Let_def w ge get_at_ok)
  then show ?thesis using d m m' y' by simp
qed

lemma split_months_correct:
  assumes inv: "if l then 0 < unat y \<and> D = march_day (unat y - 1) + 365 \<and> leap_year (unat y)
     else D = march_day (unat y) + unat k \<and> unat k < 365"
    and y: "unat y < 2 ^ 63" and D: "719468 \<le> D"
  shows "\<exists>y' m d. split_months (y, k, l) = Inr (y', m, d) \<and> valid_date (unat y') (unat m) (unat d) \<and>
    days_since_epoch (unat y') (unat m) (unat d) + 719468 = D"
proof (cases l)
  case True
  then have "1969 \<le> unat y - 1" using march_day_from_1970(1) [of "unat y - 1" 365] inv D by simp
  then show ?thesis
    using True inv date_leap_day [of "unat y"] by (simp add: split_months_def valid_date_def month_days_def)
next
  case False
  then have D': "D = march_day (unat y) + unat k" and k: "unat k < 365" using inv by simp_all
  define md where "md = (unat k * 5 + 2) div 153"
  note idx = month_index [OF k, folded md_def]
  note start = march_day_from_1970 [of "unat y" "unat k"]
  obtain y' m d where sm: "split_months (y, k, False) = Inr (y', m, d)"
    "unat y' = (if 9 < md then unat y + 1 else unat y)" "unat m = (if 9 < md then md - 9 else md + 3)"
    "unat d = unat k - month_starts ! md + 1"
    using split_months_day [OF k y] by (auto simp: md_def)
  show ?thesis
  proof (cases "9 < md")
    case True
    then have md: "md = 10 \<or> md = 11" using idx(1) by auto
    then show ?thesis
      using sm False idx date_before_march [of "unat y" md "unat k"] start D D' k
      by (auto simp: valid_date_def month_days_def month_lengths_def)
  next
    case late: False
    have "1970 \<le> unat y"
    proof -
      have "unat k < 306" using late by (simp add: md_def)
      then show ?thesis using start D D' k by (cases "unat y = 1969") auto
    qed
    then show ?thesis
      using sm False late idx months_from_march(2) [of md "unat y"] date_from_march [of "unat y" md "unat k"] D'
      by (auto simp: valid_date_def)
  qed
qed

text \<open>Every second has a date, and the date has the day number of the second.\<close>

lemma date_of_second:
  "\<exists>y m d. split_months (split_years (sec div (24 * 60 * 60) +
      (1969 * 365 + 1969 div 4 - 1969 div 100 + 1969 div 400 + 306))) = Inr (y, m, d) \<and>
    valid_date (unat y) (unat m) (unat d) \<and> unat sec div 86400 = days_since_epoch (unat y) (unat m) (unat d)"
proof -
  have "1969 * 365 + 1969 div 4 - 1969 div 100 + 1969 div 400 + 306 = (719468 :: u64)" by simp
  moreover have "unat (sec div (24 * 60 * 60)) = unat sec div 86400" by (simp add: unat_div_distrib)
  moreover define D where "D = sec div (24 * 60 * 60) + 719468"
  moreover have "unat sec div 86400 < 2 ^ 61" using unsigned_less [of sec, where 'a = nat] by simp
  ultimately have D: "unat D = unat sec div 86400 + 719468" "unat D < 2 ^ 62"
    and goal: "split_months (split_years (sec div (24 * 60 * 60) +
      (1969 * 365 + 1969 div 4 - 1969 div 100 + 1969 div 400 + 306))) = split_months (split_years D)"
    by (simp_all add: unat_add_nowrap)
  obtain y k l where ykl: "split_years D = (y, k, l)" by (cases "split_years D")
  have "unat y < 2 ^ 63" and "719468 \<le> unat D"
    using split_years_correct [OF D(2)] D by (simp_all add: ykl)
  then show ?thesis
    using split_months_correct [of l y "unat D" k] split_years_correct [OF D(2)] D(1)
    unfolding goal ykl by fastforce
qed

lemma year_bound: "days_since_epoch y m d < days_since_epoch 65536 1 1 \<Longrightarrow> y < 65536"
proof (rule ccontr)
  assume less: "days_since_epoch y m d < days_since_epoch 65536 1 1" and "\<not> y < 65536"
  then have "(\<Sum>i=1970..<65536. year_days i) \<le> (\<Sum>i=1970..<y. year_days i)"
    by (intro sum_mono2) auto
  with less show False by (simp add: days_since_epoch_def)
qed

lemma seconds_of_day: "n = 86400 * (n div 86400) + 3600 * (n div 3600 mod 24) + 60 * (n div 60 mod 60) + n mod (60 :: nat)"
proof -
  have "n div 86400 = n div 3600 div 24" "n div 3600 = n div 60 div 60"
    by (simp_all add: div_mult2_eq [symmetric])
  then show ?thesis
    using mult_div_mod_eq [of 60 n] mult_div_mod_eq [of 60 "n div 60"] mult_div_mod_eq [of 24 "n div 3600"]
    by linarith
qed

lemma calendar_total: "\<exists>c. get_calendar_from_epoch sec = Inr c"
  using date_of_second [of sec] by (auto simp: get_calendar_from_epoch_def Let_def)

text \<open>
  C32. \<^verbatim>\<open>get_calendar_from_epoch\<close> computes the Gregorian date: for every second before the year 65536,
  which is where the 16-bit year ends, it returns without a panic an existing date and time of day, and
  counting days year by year and month by month up to that date gives the second back.
\<close>

theorem calendar_correct:
  assumes sec: "unat sec < 86400 * days_since_epoch 65536 1 1"
  shows "\<exists>c. get_calendar_from_epoch sec = Inr c \<and>
    valid_date (unat (cal_year c)) (unat (cal_month c)) (unat (cal_day c)) \<and>
    unat (cal_hour c) < 24 \<and> unat (cal_min c) < 60 \<and> unat (cal_sec c) < 60 \<and>
    unat sec = 86400 * days_since_epoch (unat (cal_year c)) (unat (cal_month c)) (unat (cal_day c)) +
      3600 * unat (cal_hour c) + 60 * unat (cal_min c) + unat (cal_sec c)"
proof -
  obtain y m d where ymd: "split_months (split_years (sec div (24 * 60 * 60) +
      (1969 * 365 + 1969 div 4 - 1969 div 100 + 1969 div 400 + 306))) = Inr (y, m, d)"
    and valid: "valid_date (unat y) (unat m) (unat d)"
    and days: "unat sec div 86400 = days_since_epoch (unat y) (unat m) (unat d)"
    using date_of_second by blast
  have "unat y < 65536" using year_bound [of "unat y" "unat m" "unat d"] sec days by simp
  moreover have "unat m \<le> 12" "unat d \<le> 31"
    using valid by (auto simp: valid_date_def month_days_def split: if_splits)
  moreover have "unat (sec div 3600 mod 24) = unat sec div 3600 mod 24"
    "unat (sec div 60 mod 60) = unat sec div 60 mod 60" "unat (sec mod 60) = unat sec mod 60"
    by (simp_all add: unat_div_distrib unat_mod_distrib)
  moreover have "n mod 24 < 256" "n mod 60 < 256" for n :: nat
    by (simp_all add: less_trans [OF mod_less_divisor])
  ultimately show ?thesis
    using valid days seconds_of_day [of "unat sec"]
    by (simp add: get_calendar_from_epoch_def Let_def ymd [simplified] unat_ucast_fits)
qed

lemma end_of_years: "days_since_epoch 65536 1 1 = 23217004"
  using years_before [of 65536] by (simp add: days_since_epoch_def leap_days_def)

theorem calendar_correct_witness:
  "get_calendar_from_epoch 951782400 =
     Inr \<lparr>cal_year = 2000, cal_month = 2, cal_day = 29, cal_hour = 0, cal_min = 0, cal_sec = 0\<rparr> \<and>
   days_since_epoch 2000 2 29 = 11016"
proof -
  have "get_calendar_from_epoch 951782400 =
     Inr \<lparr>cal_year = 2000, cal_month = 2, cal_day = 29, cal_hour = 0, cal_min = 0, cal_sec = 0\<rparr>"
    by (simp add: get_calendar_from_epoch_def split_years_def split_months_def calendar_constants Let_def)
  then show ?thesis using calendar_correct [of 951782400] by (simp add: end_of_years [simplified])
qed

end
