(* ===== verification/Kvm_Clock.thy ===== *)
theory Kvm_Clock
  imports Civil_Calendar
begin

text \<open>
  The paravirtual clock of \<^verbatim>\<open>src/src/arch/x86_64/kvmclock.rs\<close>.  The two structures that the
  hypervisor fills in are read through volatile reads: each is a stream whose element at a position
  is the value of one read of the whole structure.  The time stamp counter is a stream as well.  The
  loops that wait for a consistent pair of reads may run for ever, so they return an option.
\<close>

section \<open>Reading the clock\<close>

record pvclock_vcpu_time_info =
  pvc_version :: u32
  pvc_pad0 :: u32
  pvc_tsc_timestamp :: u64
  pvc_system_time :: u64
  pvc_tsc_to_system_mul :: u32
  pvc_tsc_shift :: "8 word"
  pvc_flags :: u8
  pvc_pad1 :: u16

record pvclock_wall_clock =
  wc_version :: u32
  wc_sec :: u32
  wc_nsec :: u32

text \<open>The initial values of the two statics, which stay if the hypervisor never writes them.\<close>

definition pvclock_vcpu_time_info_new :: pvclock_vcpu_time_info where
  "pvclock_vcpu_time_info_new = \<lparr>pvc_version = 0, pvc_pad0 = 0, pvc_tsc_timestamp = 0, pvc_system_time = 0,
     pvc_tsc_to_system_mul = 0, pvc_tsc_shift = 0, pvc_flags = 0, pvc_pad1 = 0\<rparr>"

definition pvclock_wall_clock_new :: pvclock_wall_clock where
  "pvclock_wall_clock_new = \<lparr>wc_version = 0, wc_sec = 0, wc_nsec = 0\<rparr>"

text \<open>What the machine answers: the time stamp counter and the two structures, read after read.\<close>

record clock_source =
  src_tsc :: "nat \<Rightarrow> u64"
  src_info :: "nat \<Rightarrow> pvclock_vcpu_time_info"
  src_wall :: "nat \<Rightarrow> pvclock_wall_clock"

text \<open>How much of each has been read.\<close>

record clock_pos =
  pos_tsc :: nat
  pos_info :: nat
  pos_wall :: nat

text \<open>\<^verbatim>\<open>init_kvmclock\<close>: the model-specific registers that are written, or the error.\<close>

definition init_kvmclock :: "u32 \<Rightarrow> u64 \<Rightarrow> u64 \<Rightarrow> (u32 \<times> u64) list option" where
  "init_kvmclock features wallclock_address clockinfo =
     (let clockinfo_address = clockinfo OR 1 in
      if features AND rust_shl 1 3 \<noteq> 0 then
        Some [(0x4b564d00, wallclock_address), (0x4b564d01, clockinfo_address)]
      else if features AND rust_shl 1 0 \<noteq> 0 then
        Some [(0x11, wallclock_address), (0x12, clockinfo_address)]
      else None)"

text \<open>The body of the loop of \<^verbatim>\<open>get_monotonic_time\<close>: a time stamp scaled to nanoseconds.\<close>

definition scaled_delta :: "u64 \<Rightarrow> pvclock_vcpu_time_info \<Rightarrow> u64" where
  "scaled_delta nowtsc old_val =
     (let tsc_delta = (ucast (nowtsc - pvc_tsc_timestamp old_val) :: u128);
          shifted_delta =
            (if 0 \<le> sint (pvc_tsc_shift old_val) then rust_shl tsc_delta (unat (pvc_tsc_shift old_val))
             else rust_shr tsc_delta (unat (- pvc_tsc_shift old_val)))
      in ucast (drop_bit 32 (shifted_delta * ucast (pvc_tsc_to_system_mul old_val))))"

partial_function (option) monotonic_loop ::
  "(nat \<Rightarrow> pvclock_vcpu_time_info) \<Rightarrow> u64 \<Rightarrow> nat \<Rightarrow> (u64 \<times> nat) option"
where
  "monotonic_loop info nowtsc i =
     (let old_val = info i; ret = scaled_delta nowtsc old_val; new_val = info (i + 1) in
      if pvc_version new_val AND 1 \<noteq> 0 then monotonic_loop info nowtsc (i + 2)
      else if pvc_version new_val \<noteq> pvc_version old_val AND NOT 1 then monotonic_loop info nowtsc (i + 2)
      else Some (ret, i + 2))"

definition get_monotonic_time :: "clock_source \<Rightarrow> clock_pos \<Rightarrow> (u64 \<times> clock_pos) option" where
  "get_monotonic_time C p =
     map_option (\<lambda>(t, i). (t, p\<lparr>pos_tsc := Suc (pos_tsc p), pos_info := i\<rparr>))
       (monotonic_loop (src_info C) (src_tsc C (pos_tsc p)) (pos_info p))"

partial_function (option) wall_loop :: "(nat \<Rightarrow> pvclock_wall_clock) \<Rightarrow> nat \<Rightarrow> (u64 \<times> u64 \<times> nat) option"
where
  "wall_loop wall i =
     (let old_val = wall i; new_val = wall (i + 1) in
      if wc_version new_val AND 1 \<noteq> 0 then wall_loop wall (i + 2)
      else if wc_version new_val \<noteq> wc_version old_val then wall_loop wall (i + 2)
      else Some (ucast (wc_sec old_val), ucast (wc_nsec old_val), i + 2))"

definition get_calendar :: "clock_source \<Rightarrow> clock_pos \<Rightarrow> (calendar_time res \<times> clock_pos) option" where
  "get_calendar C p =
     Option.bind (wall_loop (src_wall C) (pos_wall p)) (\<lambda>(sec, nsec, i).
     Option.bind (get_monotonic_time C (p\<lparr>pos_wall := i\<rparr>)) (\<lambda>(delta, p).
     Option.bind (get_monotonic_time C p) (\<lambda>(t, p).
       let nsec_from_epoch = sec * 1000000000 + nsec + t;
           sec_from_epoch = nsec_from_epoch div 1000000000
       in Some (get_calendar_from_epoch sec_from_epoch, p))))"

section \<open>The clock\<close>

text \<open>The two loops look for a pair of reads in between which the hypervisor did not write.\<close>

definition quiet_info :: "(nat \<Rightarrow> pvclock_vcpu_time_info) \<Rightarrow> nat \<Rightarrow> bool" where
  "quiet_info info i \<longleftrightarrow> pvc_version (info (i + 1)) AND 1 = 0 \<and>
     pvc_version (info (i + 1)) = pvc_version (info i) AND NOT 1"

lemma monotonic_loop_quiet:
  "quiet_info info i \<Longrightarrow> monotonic_loop info t i = Some (scaled_delta t (info i), i + 2)"
  by (subst monotonic_loop.simps) (auto simp: quiet_info_def Let_def)

lemma monotonic_loop_busy:
  "\<not> quiet_info info i \<Longrightarrow> monotonic_loop info t i = monotonic_loop info t (i + 2)"
  by (subst monotonic_loop.simps) (auto simp: quiet_info_def Let_def)

lemma monotonic_loop_first:
  assumes "quiet_info info (i + 2 * k)" "\<forall>j<k. \<not> quiet_info info (i + 2 * j)"
  shows "monotonic_loop info t i = Some (scaled_delta t (info (i + 2 * k)), i + 2 * k + 2)"
  using assms
proof (induction k arbitrary: i)
  case 0
  then show ?case by (simp add: monotonic_loop_quiet)
next
  case (Suc k)
  have "\<not> quiet_info info i" using Suc.prems(2) by force
  moreover have "\<forall>j<k. \<not> quiet_info info (i + 2 + 2 * j)"
  proof (intro allI impI)
    fix j assume "j < k"
    then show "\<not> quiet_info info (i + 2 + 2 * j)" using Suc.prems(2) [rule_format, of "Suc j"] by (simp add: add.assoc)
  qed
  ultimately show ?case using Suc.IH [of "i + 2"] Suc.prems(1) by (simp add: monotonic_loop_busy ac_simps)
qed

definition quiet_wall :: "(nat \<Rightarrow> pvclock_wall_clock) \<Rightarrow> nat \<Rightarrow> bool" where
  "quiet_wall wall i \<longleftrightarrow> wc_version (wall (i + 1)) AND 1 = 0 \<and> wc_version (wall (i + 1)) = wc_version (wall i)"

text \<open>The clock can be read again and again: from every reading on there comes such a pair.\<close>

definition clock_live :: "clock_source \<Rightarrow> bool" where
  "clock_live C \<longleftrightarrow> (\<forall>i. \<exists>k. quiet_info (src_info C) (i + 2 * k)) \<and> (\<forall>i. \<exists>k. quiet_wall (src_wall C) (i + 2 * k))"

lemma get_monotonic_time_live:
  assumes "clock_live C"
  shows "\<exists>t p'. get_monotonic_time C p = Some (t, p')"
proof -
  let ?q = "\<lambda>k. quiet_info (src_info C) (pos_info p + 2 * k)"
  have ex: "\<exists>k. ?q k" using assms by (simp add: clock_live_def)
  define k where "k = (LEAST k. ?q k)"
  have "?q k" "\<forall>j<k. \<not> ?q j" unfolding k_def using LeastI_ex [OF ex] not_less_Least by blast+
  then show ?thesis using monotonic_loop_first [of "src_info C" "pos_info p" k] by (simp add: get_monotonic_time_def)
qed

lemma get_monotonic_time_pos: "get_monotonic_time C p = Some (t, p') \<Longrightarrow> pos_tsc p' = Suc (pos_tsc p)"
  by (auto simp: get_monotonic_time_def)

lemma wall_loop_returns:
  assumes "quiet_wall wall (i + 2 * k)"
  shows "\<exists>sec nsec j. wall_loop wall i = Some (sec, nsec, j)"
  using assms
proof (induction k arbitrary: i)
  case 0
  then show ?case by (subst wall_loop.simps) (auto simp: quiet_wall_def Let_def)
next
  case (Suc k)
  then have "\<exists>sec nsec j. wall_loop wall (i + 2) = Some (sec, nsec, j)" by (simp add: add.assoc)
  then show ?case by (subst wall_loop.simps) (auto simp: Let_def)
qed

text \<open>Then a date can be had at any time, and computing it never panics.\<close>

lemma get_calendar_live:
  assumes "clock_live C"
  shows "\<exists>c p'. get_calendar C p = Some (Inr c, p') \<and> pos_tsc p \<le> pos_tsc p'"
proof -
  obtain k where "quiet_wall (src_wall C) (pos_wall p + 2 * k)" using assms by (auto simp: clock_live_def)
  then obtain sec nsec i where w: "wall_loop (src_wall C) (pos_wall p) = Some (sec, nsec, i)" using wall_loop_returns by blast
  obtain t1 p1 where p1: "get_monotonic_time C (p\<lparr>pos_wall := i\<rparr>) = Some (t1, p1)" using get_monotonic_time_live [OF assms] by blast
  obtain t2 p2 where p2: "get_monotonic_time C p1 = Some (t2, p2)" using get_monotonic_time_live [OF assms] by blast
  obtain c where "get_calendar_from_epoch ((sec * 1000000000 + nsec + t2) div 1000000000) = Inr c" using calendar_total by blast
  then show ?thesis
    using w p1 p2 get_monotonic_time_pos [OF p1] get_monotonic_time_pos [OF p2] by (simp add: get_calendar_def Let_def)
qed

text \<open>Without a hypervisor that fills in the structure the clock stands still at 0.\<close>

lemma unregistered_clock:
  assumes "src_info C = (\<lambda>_. pvclock_vcpu_time_info_new)"
  shows "get_monotonic_time C p = Some (0, p\<lparr>pos_tsc := Suc (pos_tsc p), pos_info := pos_info p + 2\<rparr>)"
proof -
  have "quiet_info (src_info C) (pos_info p)" using assms by (simp add: quiet_info_def pvclock_vcpu_time_info_new_def)
  moreover have "scaled_delta t pvclock_vcpu_time_info_new = 0" for t
    by (simp add: scaled_delta_def pvclock_vcpu_time_info_new_def)
  ultimately show ?thesis using assms by (simp add: get_monotonic_time_def monotonic_loop_quiet)
qed

text \<open>Nanoseconds since the time stamp of the structure, on natural numbers.\<close>

definition elapsed_ns :: "u64 \<Rightarrow> pvclock_vcpu_time_info \<Rightarrow> nat" where
  "elapsed_ns nowtsc x =
     (let d = unat (nowtsc - pvc_tsc_timestamp x); s = sint (pvc_tsc_shift x)
      in (if 0 \<le> s then d * 2 ^ nat s else d div 2 ^ nat (- s)) * unat (pvc_tsc_to_system_mul x) div 2 ^ 32)"

lemma scale_value:
  assumes "unat a < 2 ^ 96"
  shows "unat (ucast (drop_bit 32 (a * ucast (m :: u32) :: u128)) :: u64) = unat a * unat m div 2 ^ 32 mod 2 ^ 64"
proof -
  have m: "unat (ucast m :: u128) = unat m" "unat m < 2 ^ 32"
    using unsigned_less [of m, where 'a = nat] by (simp_all add: unat_ucast_fits)
  have "unat a * unat m < 2 ^ 96 * 2 ^ 32" using assms m(2) by (intro mult_strict_mono) simp_all
  then have "unat (a * ucast m) = unat a * unat m" using m(1) by (simp add: unat_mult_nowrap)
  then show ?thesis
    by (simp add: unsigned_ucast_eq unat_div_distrib drop_bit_eq_div take_bit_eq_mod)
qed

lemma scaled_delta_value:
  assumes "- 32 \<le> sint (pvc_tsc_shift x)" "sint (pvc_tsc_shift x) \<le> 32"
  shows "unat (scaled_delta t x) = elapsed_ns t x mod 2 ^ 64"
proof -
  let ?s = "sint (pvc_tsc_shift x)" and ?d = "t - pvc_tsc_timestamp x"
  have d: "unat (ucast ?d :: u128) = unat ?d" "unat ?d < 2 ^ 64"
    using unsigned_less [of ?d, where 'a = nat] by (simp_all add: unat_ucast_fits)
  show ?thesis
  proof (cases "0 \<le> ?s")
    case True
    have le: "(2 :: nat) ^ nat ?s \<le> 2 ^ 32" using assms True by (intro power_increasing) auto
    then have less: "unat ?d * 2 ^ nat ?s < 2 ^ 64 * 2 ^ 32" using d(2) by (intro mult_less_le_imp_less) auto
    have "unat (2 ^ nat ?s :: u128) = 2 ^ nat ?s" using le unat_of_nat_small [of "2 ^ nat ?s", where 'a = 128] by simp
    then have "unat (push_bit (nat ?s) (ucast ?d) :: u128) = unat ?d * 2 ^ nat ?s"
      using less d(1) by (simp add: push_bit_eq_mult unat_mult_nowrap)
    then show ?thesis
      using True assms less scale_value [of "push_bit (nat ?s) (ucast ?d)" "pvc_tsc_to_system_mul x"]
      by (simp add: scaled_delta_def elapsed_ns_def Let_def unat_of_sint rust_shl_def)
  next
    case False
    have "unat (drop_bit (nat (- ?s)) (ucast ?d) :: u128) = unat ?d div 2 ^ nat (- ?s)"
      by (simp only: unat_drop_bit d(1))
    moreover from this have "unat (drop_bit (nat (- ?s)) (ucast ?d) :: u128) < 2 ^ 96"
      by (rule ssubst) (rule le_less_trans [OF div_le_dividend less_trans [OF d(2)]], simp)
    ultimately show ?thesis
      using False assms scale_value [of "drop_bit (nat (- ?s)) (ucast ?d)" "pvc_tsc_to_system_mul x"]
      by (simp add: scaled_delta_def elapsed_ns_def Let_def unat_minus_sint rust_shr_def)
  qed
qed

text \<open>
  C33. The clock can be read: when the hypervisor stops updating its structure at some point, with an
  even version, \<^verbatim>\<open>get_monotonic_time\<close> returns.  It returns the scaled distance between the time stamp
  counter and the time stamp of the first snapshot that the next read confirms, computed without
  intermediate overflow for the shifts the hypervisor uses; snapshots taken during an update are skipped.
\<close>

theorem monotonic_time_settles:
  assumes quiet: "\<And>i. N \<le> i \<Longrightarrow> pvc_version (src_info C i) = v" and even: "v AND 1 = 0"
    and shift: "\<And>i. - 32 \<le> sint (pvc_tsc_shift (src_info C i)) \<and> sint (pvc_tsc_shift (src_info C i)) \<le> 32"
  shows "\<exists>k t. get_monotonic_time C p =
      Some (t, p\<lparr>pos_tsc := Suc (pos_tsc p), pos_info := pos_info p + 2 * k + 2\<rparr>) \<and>
    quiet_info (src_info C) (pos_info p + 2 * k) \<and> (\<forall>j<k. \<not> quiet_info (src_info C) (pos_info p + 2 * j)) \<and>
    unat t = elapsed_ns (src_tsc C (pos_tsc p)) (src_info C (pos_info p + 2 * k)) mod 2 ^ 64"
proof -
  let ?q = "\<lambda>k. quiet_info (src_info C) (pos_info p + 2 * k)"
  have "(v AND 1) OR (v AND NOT 1) = v" by (rule bit_word_eqI) (auto simp: bit_simps)
  then have "v AND NOT 1 = v" using even by simp
  then have "quiet_info (src_info C) i" if "N \<le> i" for i
    using quiet [of i] quiet [of "i + 1"] even that by (simp add: quiet_info_def)
  then have ex: "?q N" by simp
  define k where "k = (LEAST k. ?q k)"
  have "?q k" "\<forall>j<k. \<not> ?q j" unfolding k_def using LeastI [of ?q, OF ex] not_less_Least by blast+
  then show ?thesis
    using monotonic_loop_first [of "src_info C" "pos_info p" k] scaled_delta_value shift
    by (intro exI [of _ k]) (simp add: get_monotonic_time_def)
qed

theorem monotonic_time_settles_witness:
  "\<exists>t p'. get_monotonic_time
     \<lparr>src_tsc = (\<lambda>_. 5000000000),
      src_info = (\<lambda>i. \<lparr>pvc_version = (if i < 3 then of_nat i + 1 else 4), pvc_pad0 = 0, pvc_tsc_timestamp = 3000000000,
        pvc_system_time = 7, pvc_tsc_to_system_mul = 2147483648, pvc_tsc_shift = 1, pvc_flags = 0, pvc_pad1 = 0\<rparr>),
      src_wall = (\<lambda>_. \<lparr>wc_version = 0, wc_sec = 0, wc_nsec = 0\<rparr>)\<rparr>
     \<lparr>pos_tsc = 0, pos_info = 0, pos_wall = 0\<rparr> = Some (t, p') \<and> unat t = 2000000000"
proof -
  define C where "C = \<lparr>src_tsc = (\<lambda>_. 5000000000),
      src_info = (\<lambda>i. \<lparr>pvc_version = (if i < 3 then of_nat i + 1 else 4), pvc_pad0 = 0, pvc_tsc_timestamp = 3000000000,
        pvc_system_time = 7, pvc_tsc_to_system_mul = 2147483648, pvc_tsc_shift = 1, pvc_flags = 0, pvc_pad1 = 0\<rparr>),
      src_wall = (\<lambda>_. \<lparr>wc_version = 0, wc_sec = 0, wc_nsec = 0\<rparr>)\<rparr>"
  have e: "elapsed_ns (src_tsc C 0) (src_info C i) = 2000000000" for i
    by (simp add: C_def elapsed_ns_def)
  show ?thesis
    using monotonic_time_settles [of 3 C 4 "\<lparr>pos_tsc = 0, pos_info = 0, pos_wall = 0\<rparr>"]
    unfolding C_def [symmetric] by (auto simp: e) (auto simp: C_def)
qed

text \<open>
  The clock starts again at every update of the hypervisor's structure: right after an update, when
  the time stamp of the structure is the present one, \<^verbatim>\<open>get_monotonic_time\<close> returns 0 whatever the system
  time of the structure is, because the code never adds \<^verbatim>\<open>system_time\<close>; the time is not monotonic.
\<close>

theorem monotonic_time_restarts:
  assumes "quiet_info (src_info C) (pos_info p)"
    and "pvc_tsc_timestamp (src_info C (pos_info p)) = src_tsc C (pos_tsc p)"
  shows "\<exists>p'. get_monotonic_time C p = Some (0, p')"
proof -
  have "scaled_delta (src_tsc C (pos_tsc p)) (src_info C (pos_info p)) = 0"
    using assms(2) by (simp add: scaled_delta_def rust_shl_def rust_shr_def)
  then show ?thesis using assms(1) by (simp add: get_monotonic_time_def monotonic_loop_quiet)
qed

theorem monotonic_time_restarts_witness:
  "\<exists>p'. get_monotonic_time
     \<lparr>src_tsc = (\<lambda>_. 8000000000),
      src_info = (\<lambda>i. \<lparr>pvc_version = 6, pvc_pad0 = 0, pvc_tsc_timestamp = 8000000000,
        pvc_system_time = 4000000000, pvc_tsc_to_system_mul = 2147483648, pvc_tsc_shift = 0, pvc_flags = 0, pvc_pad1 = 0\<rparr>),
      src_wall = (\<lambda>_. \<lparr>wc_version = 0, wc_sec = 0, wc_nsec = 0\<rparr>)\<rparr>
     \<lparr>pos_tsc = 1, pos_info = 2, pos_wall = 0\<rparr> = Some (0, p')"
  by (rule monotonic_time_restarts) (simp_all add: quiet_info_def)

end
