(* ===== verification/Inet_Checksum.thy ===== *)
theory Inet_Checksum
  imports Rust_Prelude
begin

text \<open>
  The checksum loops of the ICMP replies in \<^verbatim>\<open>src/src/net/ipv4.rs\<close> and \<^verbatim>\<open>src/src/net/ipv6.rs\<close>, and
  their specification, the one's complement sum of 16-bit words of RFC 1071: a message carries a
  valid checksum when that sum is a multiple of 65535 and not zero, which is what a receiver sees
  as 0xffff.
\<close>

section \<open>The loops\<close>

text \<open>\<^verbatim>\<open>for i in lo..hi { csum = csum + ((s[i*2] as u32) << 8 | (s[i*2+1] as u32)) }\<close>\<close>

definition csum_loop :: "u8 list \<Rightarrow> nat \<Rightarrow> nat \<Rightarrow> u32 \<Rightarrow> u32 res" where
  "csum_loop s lo hi csum =
     rfor lo hi (\<lambda>i csum.
       rbind (get_at s (i * 2)) (\<lambda>a. rbind (get_at s (i * 2 + 1)) (\<lambda>b.
         Inr (csum + (push_bit 8 (ucast a) OR ucast b))))) csum"

definition csum_fold :: "u32 \<Rightarrow> u32" where
  "csum_fold csum = (csum AND 0x0000ffff) + drop_bit 16 csum"

text \<open>Twice folded and complemented.\<close>

definition csum_finish :: "u32 \<Rightarrow> u32" where
  "csum_finish csum = NOT (csum_fold (csum_fold csum))"

text \<open>The value for a 16-bit checksum field of a packed structure.\<close>

definition csum_field :: "u32 \<Rightarrow> u16" where
  "csum_field csum = ucast (push_bit 8 (csum AND 0x00ff) OR drop_bit 8 (csum AND 0xff00))"

section \<open>The specification\<close>

fun inet_sum :: "u8 list \<Rightarrow> nat" where
  "inet_sum [] = 0"
| "inet_sum [a] = be16 a 0"
| "inet_sum (a # b # r) = be16 a b + inet_sum r"

definition valid_csum :: "u8 list \<Rightarrow> bool" where
  "valid_csum bs \<longleftrightarrow> inet_sum bs mod 65535 = 0 \<and> inet_sum bs \<noteq> 0"

text \<open>The loops of the code sum whole 16-bit words only: the bytes that they cover.\<close>

definition whole_words :: "u8 list \<Rightarrow> u8 list" where
  "whole_words bs = take (2 * (length bs div 2)) bs"

section \<open>The loop computes the sum\<close>

lemma inet_sum_append: "even (length xs) \<Longrightarrow> inet_sum (xs @ ys) = inet_sum xs + inet_sum ys"
  by (induction xs rule: inet_sum.induct) auto

lemma whole_words_even: "even (length bs) \<Longrightarrow> whole_words bs = bs"
  by (simp add: whole_words_def)

text \<open>For an odd number of bytes the last one is left out.\<close>

lemma whole_words_odd:
  assumes "odd (length bs)"
  shows "inet_sum bs = inet_sum (whole_words bs) + 256 * unat (last bs)"
proof -
  have "bs \<noteq> []" using assms by auto
  then have bs: "bs = butlast bs @ [last bs]" by simp
  have "2 * (length bs div 2) = length (butlast bs)" using assms by simp
  then have w: "whole_words bs = butlast bs" unfolding whole_words_def by (metis bs append_eq_conv_conj)
  have "even (length (butlast bs))" using assms by simp
  from inet_sum_append [OF this, of "[last bs]"] show ?thesis unfolding w using bs by (simp add: be16_def)
qed

lemma valid_csum_odd:
  assumes "odd (length bs)" "valid_csum (whole_words bs)"
  shows "valid_csum bs \<longleftrightarrow> last bs = 0"
proof -
  have w: "inet_sum (whole_words bs) mod 65535 = 0" "inet_sum (whole_words bs) \<noteq> 0" using assms(2) by (simp_all add: valid_csum_def)
  have "unat (last bs) < 256" using unat_less_width [of "last bs"] by simp
  then have l: "256 * unat (last bs) mod 65535 = 256 * unat (last bs)" by simp
  have "inet_sum bs mod 65535 = 256 * unat (last bs) mod 65535"
    unfolding whole_words_odd [OF assms(1)] using w(1) by (metis add.left_neutral mod_add_left_eq)
  then have "inet_sum bs mod 65535 = 256 * unat (last bs)" unfolding l .
  then show ?thesis using w whole_words_odd [OF assms(1)] by (simp add: valid_csum_def unat_eq_zero)
qed

lemma inet_sum_bound: "inet_sum bs \<le> 65535 * ((length bs + 1) div 2)"
proof (induction bs rule: inet_sum.induct)
  case (2 a)
  show ?case using be16_less [of a 0] by simp
next
  case (3 a b r)
  then show ?case using be16_less [of a b] by simp
qed simp

lemma be16_word: "unat (push_bit 8 (ucast a) OR ucast b :: u32) = be16 a b"
proof -
  have disj: "(push_bit 8 (ucast a) :: u32) AND ucast b = 0"
    using bit_imp_le_length [of b] by (intro bit_word_eqI) (force simp: bit_simps)
  have "(push_bit 8 (ucast a) OR ucast b :: u32) = push_bit 8 (ucast a) + ucast b"
    using disjunctive_add_eq_or [OF disj] by simp
  also have "\<dots> = of_nat (be16 a b)"
    by (simp add: be16_def push_bit_eq_mult)
  finally show ?thesis using be16_less [of a b] by (simp add: unat_of_nat_small)
qed

lemma csum_loop_sum:
  assumes "lo \<le> hi" "2 * hi \<le> length s" "hi \<le> 40000" "unat c + 65535 * (hi - lo) < 2 ^ 32"
  shows "\<exists>c'. csum_loop s lo hi c = Inr c' \<and>
     unat c' = unat c + inet_sum (take (2 * (hi - lo)) (drop (2 * lo) s))"
  using assms
proof (induction "hi - lo" arbitrary: lo c)
  case 0
  then show ?case by (simp add: csum_loop_def rfor.simps [of lo])
next
  case (Suc k)
  let ?w = "push_bit 8 (ucast (s ! (lo * 2))) OR ucast (s ! (lo * 2 + 1)) :: u32"
  have lt: "lo < hi" and k: "k = hi - Suc lo" using Suc.hyps(2) by simp_all
  have step: "csum_loop s lo hi c = csum_loop s (Suc lo) hi (c + ?w)"
    using lt Suc.prems(2) by (simp add: csum_loop_def rfor.simps [of lo] get_at_ok)
  have w: "unat ?w = be16 (s ! (lo * 2)) (s ! (lo * 2 + 1))" by (rule be16_word)
  have ww: "unat (c + ?w) = unat c + be16 (s ! (lo * 2)) (s ! (lo * 2 + 1))"
    using Suc.prems(4) lt be16_less [of "s ! (lo * 2)" "s ! (lo * 2 + 1)"] w
    by (subst unat_word_ariths) simp
  have "unat (c + ?w) + 65535 * (hi - Suc lo) < 2 ^ 32"
    unfolding ww using Suc.prems(4) lt be16_less [of "s ! (lo * 2)" "s ! (lo * 2 + 1)"] by simp
  then obtain c' where c': "csum_loop s (Suc lo) hi (c + ?w) = Inr c'"
    "unat c' = unat (c + ?w) + inet_sum (take (2 * (hi - Suc lo)) (drop (2 * Suc lo) s))"
    using Suc.hyps(1) [OF k, of "c + ?w"] Suc.prems lt by auto
  have "drop (2 * lo) s = s ! (lo * 2) # s ! (lo * 2 + 1) # drop (2 * Suc lo) s"
    using Suc.prems(2) lt by (simp add: Cons_nth_drop_Suc mult.commute)
  moreover have "2 * (hi - lo) = Suc (Suc (2 * (hi - Suc lo)))" using lt by simp
  ultimately show ?case using step c' ww by simp
qed

section \<open>Folding\<close>

lemma unat_csum_fold:
  assumes "unat c < 2 ^ 32 - 2 ^ 16"
  shows "unat (csum_fold c) = unat c mod 65536 + unat c div 65536"
proof -
  have lo: "unat (c AND 0xffff) = unat c mod 65536"
    using unat_and_pow_minus_1 [of c 16] by simp
  have hi: "unat (drop_bit 16 c) = unat c div 65536"
    unfolding unat_drop_bit_eq by (simp add: drop_bit_eq_div)
  have "unat c div 65536 < 65536" using unat_less_width [of c] by simp
  then show ?thesis
    unfolding csum_fold_def unat_word_ariths lo hi by simp
qed

lemma fold_mod: "(n mod 65536 + n div 65536) mod 65535 = (n::nat) mod 65535"
proof -
  have "n = n mod 65536 + 65536 * (n div 65536)" by simp
  then have "n = (n mod 65536 + n div 65536) + 65535 * (n div 65536)" by linarith
  then show ?thesis by (metis mod_mult_self2)
qed

lemma fold_eq_0: "n mod 65536 + n div 65536 = 0 \<longleftrightarrow> n = (0::nat)"
  by (metis add_is_0 div_0 div_mult_mod_eq mod_0 mult_0)

text \<open>Two folds bring a sum into 16 bits, keep it modulo 65535, and keep it different from zero.\<close>

lemma csum_fold_twice:
  fixes c :: u32
  defines "r \<equiv> unat (csum_fold (csum_fold c))"
  assumes "unat c < 2 ^ 32 - 2 ^ 16"
  shows "r \<le> 65535 \<and> r mod 65535 = unat c mod 65535 \<and> (r = 0 \<longleftrightarrow> unat c = 0)"
proof -
  let ?n = "unat c"
  have f1: "unat (csum_fold c) = ?n mod 65536 + ?n div 65536" by (rule unat_csum_fold [OF assms(2)])
  have b1: "?n div 65536 < 65535" using assms(2) by simp
  have "unat (csum_fold c) < 2 ^ 32 - 2 ^ 16" unfolding f1 using b1 by simp
  then have r: "r = unat (csum_fold c) mod 65536 + unat (csum_fold c) div 65536"
    unfolding r_def by (rule unat_csum_fold)
  have mod: "r mod 65535 = ?n mod 65535" unfolding r fold_mod unfolding f1 fold_mod ..
  have "unat (csum_fold c) \<le> 131069" unfolding f1 using b1 by simp
  then have "r \<le> 65535"
    unfolding r by (cases "unat (csum_fold c) < 65536") (auto simp: div_if mod_if)
  moreover have "r = 0 \<longleftrightarrow> ?n = 0" unfolding r f1 fold_eq_0 ..
  ultimately show ?thesis using mod by simp
qed

lemma csum_finish_field:
  "le16 (csum_field c) = [byte_at 8 c, ucast c]"
proof -
  have m: "(0x00ff :: u32) = mask 8" "(0xff00 :: u32) = push_bit 8 (mask 8)"
    by (simp_all add: mask_eq_exp_minus_1)
  have "(ucast (csum_field c) :: u8) = byte_at 8 c"
    unfolding csum_field_def m by (rule bit_word_eqI) (auto simp: bit_simps)
  moreover have "byte_at 8 (csum_field c) = (ucast c :: u8)"
    unfolding csum_field_def m by (rule bit_word_eqI) (auto simp: bit_simps)
  ultimately show ?thesis by (simp add: le16_def)
qed

text \<open>
  The two checksum bytes complete the sum to a multiple of 65535.
\<close>

lemma csum_bytes:
  assumes "unat c < 2 ^ 32 - 2 ^ 16"
  shows "(unat c + be16 (byte_at 8 (csum_finish c)) (ucast (csum_finish c))) mod 65535 = 0"
    and "unat c + be16 (byte_at 8 (csum_finish c)) (ucast (csum_finish c)) \<noteq> 0"
proof -
  let ?r = "csum_fold (csum_fold c)"
  have r: "unat ?r \<le> 65535" "unat ?r mod 65535 = unat c mod 65535" "unat ?r = 0 \<longleftrightarrow> unat c = 0"
    using csum_fold_twice [OF assms] by auto
  have "be16 (byte_at 8 (NOT ?r)) (ucast (NOT ?r)) = unat (push_bit 8 (ucast (byte_at 8 (NOT ?r))) OR ucast (ucast (NOT ?r) :: u8) :: u32)"
    by (rule be16_word [symmetric])
  also have "push_bit 8 (ucast (byte_at 8 (NOT ?r))) OR ucast (ucast (NOT ?r) :: u8) = (take_bit 16 (NOT ?r) :: u32)"
    by (rule bit_word_eqI) (auto simp: bit_simps)
  also have "\<dots> = take_bit 16 (- 1 - ?r)" by (simp add: not_eq_complement minus_diff_commute)
  also have "unat \<dots> = 65535 - unat ?r"
  proof -
    have u: "unat (- 1 :: u32) = 4294967295" by (simp add: unsigned_minus_1_eq_mask mask_eq_exp_minus_1)
    have "unat (- 1 - ?r) = 4294967295 - unat ?r" using unat_sub [of ?r "- 1"] by (simp add: u)
    then have "unat (take_bit 16 (- 1 - ?r)) = (4294967295 - unat ?r) mod 65536"
      unfolding unsigned_take_bit_eq by (simp add: take_bit_eq_mod)
    also have "4294967295 - unat ?r = (65535 - unat ?r) + 65535 * 65536" using r(1) by simp
    also have "\<dots> mod 65536 = 65535 - unat ?r" unfolding mod_mult_self1 by simp
    finally show ?thesis .
  qed
  finally have b: "be16 (byte_at 8 (csum_finish c)) (ucast (csum_finish c)) = 65535 - unat ?r"
    by (simp add: csum_finish_def)
  show "unat c + be16 (byte_at 8 (csum_finish c)) (ucast (csum_finish c)) \<noteq> 0"
    unfolding b using r by auto
  have "(unat c + (65535 - unat ?r)) mod 65535 = (unat ?r + (65535 - unat ?r)) mod 65535"
    using r(2) by (metis mod_add_left_eq)
  then show "(unat c + be16 (byte_at 8 (csum_finish c)) (ucast (csum_finish c))) mod 65535 = 0"
    unfolding b using r(1) by simp
qed

end
