(* ===== verification/Net_Address.thy ===== *)
theory Net_Address
  imports Rust_Prelude
begin

text \<open>
  The address types of the network stack: \<^verbatim>\<open>MacAddress\<close> (\<^verbatim>\<open>src/src/net/ethernet.rs\<close>),
  \<^verbatim>\<open>Ipv4Address\<close> (\<^verbatim>\<open>src/src/net/ipv4.rs\<close>) and \<^verbatim>\<open>Ipv6Address\<close> (\<^verbatim>\<open>src/src/net/ipv6.rs\<close>), with
  their conversions from and to byte arrays, their masks and their orders.  The lemmas show that
  the conversions are inverse to each other, that the primitive value of a MAC address identifies
  its bytes, and what a mask of a given prefix length keeps.
\<close>

section \<open>Orders\<close>

datatype ordering = Less | Equal | Greater

definition prim_cmp :: "'a::linorder \<Rightarrow> 'a \<Rightarrow> ordering" where
  "prim_cmp x y = (if x < y then Less else if x = y then Equal else Greater)"

section \<open>MAC addresses\<close>

datatype mac_address = MacAddress (mac_array: "u8 list") (mac_prim: u64)

definition mac_new :: "u8 list \<Rightarrow> mac_address" where
  "mac_new addr =
     (let addr_prim =
        push_bit 40 (ucast (addr ! 5)) OR
        push_bit 32 (ucast (addr ! 4)) OR
        push_bit 24 (ucast (addr ! 3)) OR
        push_bit 16 (ucast (addr ! 2)) OR
        push_bit 8 (ucast (addr ! 1)) OR
        ucast (addr ! 0)
      in MacAddress addr addr_prim)"

definition mac_cmp :: "mac_address \<Rightarrow> mac_address \<Rightarrow> ordering" where
  "mac_cmp a b = prim_cmp (mac_prim a) (mac_prim b)"

definition mac_eq :: "mac_address \<Rightarrow> mac_address \<Rightarrow> bool" where
  "mac_eq a b \<longleftrightarrow> mac_prim a = mac_prim b"

section \<open>IPv4 addresses\<close>

datatype ipv4_address = Ipv4Address (ipv4_prim: u32)

definition ipv4_from_array :: "u8 list \<Rightarrow> ipv4_address" where
  "ipv4_from_array arr =
     Ipv4Address (push_bit 24 (ucast (arr ! 0)) OR push_bit 16 (ucast (arr ! 1)) OR
                  push_bit 8 (ucast (arr ! 2)) OR ucast (arr ! 3))"

definition ipv4_masked :: "ipv4_address \<Rightarrow> u32 \<Rightarrow> ipv4_address" where
  "ipv4_masked a prefix_length =
     (let m = rust_shl 0xffffffff (unat (32 - prefix_length))
      in Ipv4Address (ipv4_prim a AND m))"

definition ipv4_get_array :: "ipv4_address \<Rightarrow> u8 list" where
  "ipv4_get_array a =
     [ucast (drop_bit 24 (ipv4_prim a)), ucast (drop_bit 16 (ipv4_prim a)),
      ucast (drop_bit 8 (ipv4_prim a)), ucast (ipv4_prim a)]"

definition ipv4_cmp :: "ipv4_address \<Rightarrow> ipv4_address \<Rightarrow> ordering" where
  "ipv4_cmp a b = prim_cmp (ipv4_prim a) (ipv4_prim b)"

definition ipv4_eq :: "ipv4_address \<Rightarrow> ipv4_address \<Rightarrow> bool" where
  "ipv4_eq a b \<longleftrightarrow> ipv4_prim a = ipv4_prim b"

section \<open>IPv6 addresses\<close>

datatype ipv6_address = Ipv6Address (ipv6_prim: u128)

definition ipv6_from_array :: "u8 list \<Rightarrow> ipv6_address" where
  "ipv6_from_array arr =
     Ipv6Address
      (push_bit 120 (ucast (arr ! 0)) OR
       push_bit 112 (ucast (arr ! 1)) OR
       push_bit 104 (ucast (arr ! 2)) OR
       push_bit 96 (ucast (arr ! 3)) OR
       push_bit 88 (ucast (arr ! 4)) OR
       push_bit 80 (ucast (arr ! 5)) OR
       push_bit 72 (ucast (arr ! 6)) OR
       push_bit 64 (ucast (arr ! 7)) OR
       push_bit 56 (ucast (arr ! 8)) OR
       push_bit 48 (ucast (arr ! 9)) OR
       push_bit 40 (ucast (arr ! 10)) OR
       push_bit 32 (ucast (arr ! 11)) OR
       push_bit 24 (ucast (arr ! 12)) OR
       push_bit 16 (ucast (arr ! 13)) OR
       push_bit 8 (ucast (arr ! 14)) OR
       ucast (arr ! 15))"

definition ipv6_masked :: "ipv6_address \<Rightarrow> u32 \<Rightarrow> ipv6_address" where
  "ipv6_masked a prefix_length =
     (let m = rust_shl 0xffffffffffffffffffffffffffffffff (unat (128 - prefix_length))
      in Ipv6Address (ipv6_prim a AND m))"

definition ipv6_get_array :: "ipv6_address \<Rightarrow> u8 list" where
  "ipv6_get_array a =
     [ucast (drop_bit 120 (ipv6_prim a)),
      ucast (drop_bit 112 (ipv6_prim a)),
      ucast (drop_bit 104 (ipv6_prim a)),
      ucast (drop_bit 96 (ipv6_prim a)),
      ucast (drop_bit 88 (ipv6_prim a)),
      ucast (drop_bit 80 (ipv6_prim a)),
      ucast (drop_bit 72 (ipv6_prim a)),
      ucast (drop_bit 64 (ipv6_prim a)),
      ucast (drop_bit 56 (ipv6_prim a)),
      ucast (drop_bit 48 (ipv6_prim a)),
      ucast (drop_bit 40 (ipv6_prim a)),
      ucast (drop_bit 32 (ipv6_prim a)),
      ucast (drop_bit 24 (ipv6_prim a)),
      ucast (drop_bit 16 (ipv6_prim a)),
      ucast (drop_bit 8 (ipv6_prim a)),
      ucast (ipv6_prim a)]"

definition ipv6_cmp :: "ipv6_address \<Rightarrow> ipv6_address \<Rightarrow> ordering" where
  "ipv6_cmp a b = prim_cmp (ipv6_prim a) (ipv6_prim b)"

definition ipv6_eq :: "ipv6_address \<Rightarrow> ipv6_address \<Rightarrow> bool" where
  "ipv6_eq a b \<longleftrightarrow> ipv6_prim a = ipv6_prim b"

text \<open>The orders of the two address types are linear orders, as the B-tree maps keyed by them need.\<close>

instantiation ipv4_address :: linorder
begin

definition less_eq_ipv4_address :: "ipv4_address \<Rightarrow> ipv4_address \<Rightarrow> bool" where
  "less_eq_ipv4_address a b \<longleftrightarrow> ipv4_cmp a b \<noteq> Greater"

definition less_ipv4_address :: "ipv4_address \<Rightarrow> ipv4_address \<Rightarrow> bool" where
  "less_ipv4_address a b \<longleftrightarrow> ipv4_cmp a b = Less"

instance
  by standard
    (auto simp: less_eq_ipv4_address_def less_ipv4_address_def ipv4_cmp_def prim_cmp_def
       ipv4_address.expand split: if_splits)

end

instantiation ipv6_address :: linorder
begin

definition less_eq_ipv6_address :: "ipv6_address \<Rightarrow> ipv6_address \<Rightarrow> bool" where
  "less_eq_ipv6_address a b \<longleftrightarrow> ipv6_cmp a b \<noteq> Greater"

definition less_ipv6_address :: "ipv6_address \<Rightarrow> ipv6_address \<Rightarrow> bool" where
  "less_ipv6_address a b \<longleftrightarrow> ipv6_cmp a b = Less"

instance
  by standard
    (auto simp: less_eq_ipv6_address_def less_ipv6_address_def ipv6_cmp_def prim_cmp_def
       ipv6_address.expand split: if_splits)

end

section \<open>Byte arrays of a fixed length\<close>

lemma list_of_length_4:
  assumes "length xs = 4" shows "xs = [xs ! 0, xs ! 1, xs ! 2, xs ! 3]"
  using assms by (intro nth_equalityI) (auto simp: less_Suc_eq numeral_eq_Suc)

lemma list_of_length_6:
  assumes "length xs = 6" shows "xs = [xs ! 0, xs ! 1, xs ! 2, xs ! 3, xs ! 4, xs ! 5]"
  using assms by (intro nth_equalityI) (auto simp: less_Suc_eq numeral_eq_Suc)

lemma list_of_length_16:
  assumes "length xs = 16"
  shows "xs = [xs ! 0, xs ! 1, xs ! 2, xs ! 3, xs ! 4, xs ! 5, xs ! 6, xs ! 7,
               xs ! 8, xs ! 9, xs ! 10, xs ! 11, xs ! 12, xs ! 13, xs ! 14, xs ! 15]"
  using assms by (intro nth_equalityI) (auto simp: less_Suc_eq numeral_eq_Suc)

lemma length_ipv4_get_array [simp]: "length (ipv4_get_array a) = 4"
  by (simp add: ipv4_get_array_def)

lemma length_ipv6_get_array [simp]: "length (ipv6_get_array a) = 16"
  by (simp add: ipv6_get_array_def)

lemma mac_array_new [simp]: "mac_array (mac_new addr) = addr"
  by (simp add: mac_new_def Let_def)

section \<open>Conversions are inverse to each other\<close>

lemma less_4_cases: "(k::nat) < 4 \<longleftrightarrow> k = 0 \<or> k = 1 \<or> k = 2 \<or> k = 3"
  by auto

lemma less_16_cases:
  "(k::nat) < 16 \<longleftrightarrow> k = 0 \<or> k = 1 \<or> k = 2 \<or> k = 3 \<or> k = 4 \<or> k = 5 \<or> k = 6 \<or> k = 7 \<or>
     k = 8 \<or> k = 9 \<or> k = 10 \<or> k = 11 \<or> k = 12 \<or> k = 13 \<or> k = 14 \<or> k = 15"
  by presburger

lemma ipv4_get_from_array:
  assumes "length arr = 4" shows "ipv4_get_array (ipv4_from_array arr) = arr"
  using list_of_length_4 [OF assms]
  by (simp add: ipv4_get_array_def ipv4_from_array_def word_bytes)

lemma ipv4_from_get_array [simp]: "ipv4_from_array (ipv4_get_array a) = a"
proof (rule ipv4_address.expand, rule word_eq_bytesI)
  fix k assume "k < LENGTH(32) div 8"
  then show "byte_at (8 * k) (ipv4_prim (ipv4_from_array (ipv4_get_array a)))
      = byte_at (8 * k) (ipv4_prim a)"
    by (auto simp: less_4_cases ipv4_get_array_def ipv4_from_array_def word_bytes)
qed simp

lemma ipv6_get_from_array:
  assumes "length arr = 16" shows "ipv6_get_array (ipv6_from_array arr) = arr"
  using list_of_length_16 [OF assms]
  by (simp add: ipv6_get_array_def ipv6_from_array_def word_bytes)

lemma ipv6_from_get_array [simp]: "ipv6_from_array (ipv6_get_array a) = a"
proof (rule ipv6_address.expand, rule word_eq_bytesI)
  fix k assume "k < LENGTH(128) div 8"
  then show "byte_at (8 * k) (ipv6_prim (ipv6_from_array (ipv6_get_array a)))
      = byte_at (8 * k) (ipv6_prim a)"
    by (auto simp: less_16_cases ipv6_get_array_def ipv6_from_array_def word_bytes)
qed simp

lemma mac_prim_bytes:
  assumes "length arr = 6"
  shows "arr = map (\<lambda>k. byte_at (8 * k) (mac_prim (mac_new arr))) [0..<6]"
  using list_of_length_6 [OF assms]
  by (simp add: mac_new_def Let_def word_bytes upt_conv_Cons)

lemma mac_prim_inj:
  assumes "length xs = 6" "length ys = 6" "mac_prim (mac_new xs) = mac_prim (mac_new ys)"
  shows "xs = ys"
  using mac_prim_bytes [OF assms(1)] mac_prim_bytes [OF assms(2)] assms(3) by simp

section \<open>Masks\<close>

text \<open>
  For a prefix length between 1 and the width of the address, masking keeps exactly the leading
  bits: two addresses have the same masked value if and only if these bits agree.  For the prefix
  length 0 the shift amount is the full width, which the release profile reduces to 0: the mask
  keeps every bit.
\<close>

lemma rust_shl_ones_bit:
  assumes "k < LENGTH('a)"
  shows "bit (rust_shl (- 1 :: 'a::len word) k) n \<longleftrightarrow> k \<le> n \<and> n < LENGTH('a)"
  using assms by (auto simp: rust_shl_def bit_simps)

lemma AND_rust_shl_eq_iff:
  fixes x y :: "'a::len word"
  assumes "k < LENGTH('a)"
  shows "x AND rust_shl (- 1) k = y AND rust_shl (- 1) k \<longleftrightarrow> drop_bit k x = drop_bit k y"
proof
  assume eq: "x AND rust_shl (- 1) k = y AND rust_shl (- 1) k"
  show "drop_bit k x = drop_bit k y"
  proof (rule bit_word_eqI)
    fix n
    show "bit (drop_bit k x) n \<longleftrightarrow> bit (drop_bit k y) n"
      using arg_cong [OF eq, of "\<lambda>w. bit w (k + n)"] assms bit_imp_le_length [of x "k + n"]
        bit_imp_le_length [of y "k + n"]
      by (auto simp: bit_simps rust_shl_ones_bit)
  qed
next
  assume eq: "drop_bit k x = drop_bit k y"
  show "x AND rust_shl (- 1) k = y AND rust_shl (- 1) k"
  proof (rule bit_word_eqI)
    fix n
    show "bit (x AND rust_shl (- 1) k) n \<longleftrightarrow> bit (y AND rust_shl (- 1) k) n"
      using arg_cong [OF eq, of "\<lambda>w. bit w (n - k)"] assms
      by (auto simp: bit_simps rust_shl_ones_bit)
  qed
qed

lemma unat_width_sub:
  assumes "p \<le> w" and "w < 2 ^ 32"
  shows "unat (of_nat w - of_nat p :: u32) = w - p"
proof -
  have eq: "(of_nat w - of_nat p :: u32) = of_nat (w - p)"
    using assms(1) by (simp add: of_nat_diff)
  show ?thesis unfolding eq using assms by (intro unat_of_nat_small) simp
qed

lemma all_ones_32: "(0xffffffff :: u32) = - 1"
  by simp

lemma all_ones_128: "(0xffffffffffffffffffffffffffffffff :: u128) = - 1"
  by simp

lemma ipv4_masked_prim:
  "p \<le> 32 \<Longrightarrow> ipv4_prim (ipv4_masked a (of_nat p)) = ipv4_prim a AND rust_shl (- 1) (32 - p)"
proof -
  assume "p \<le> 32"
  then have "unat (32 - of_nat p :: u32) = 32 - p" using unat_width_sub [of p 32] by simp
  then show ?thesis by (simp only: ipv4_masked_def all_ones_32 Let_def ipv4_address.sel)
qed

lemma ipv6_masked_prim:
  "p \<le> 128 \<Longrightarrow> ipv6_prim (ipv6_masked a (of_nat p)) = ipv6_prim a AND rust_shl (- 1) (128 - p)"
proof -
  assume "p \<le> 128"
  then have "unat (128 - of_nat p :: u32) = 128 - p" using unat_width_sub [of p 128] by simp
  then show ?thesis by (simp only: ipv6_masked_def all_ones_128 Let_def ipv6_address.sel)
qed

lemma ipv4_masked_eq_iff:
  assumes "1 \<le> p" "p \<le> 32"
  shows "ipv4_masked a (of_nat p) = ipv4_masked b (of_nat p) \<longleftrightarrow>
     drop_bit (32 - p) (ipv4_prim a) = drop_bit (32 - p) (ipv4_prim b)"
  using assms AND_rust_shl_eq_iff [of "32 - p" "ipv4_prim a" "ipv4_prim b"]
  by (auto simp: ipv4_masked_prim ipv4_address.expand dest: arg_cong [where f = ipv4_prim])

lemma ipv4_masked_idem:
  "p \<le> 32 \<Longrightarrow> ipv4_masked (ipv4_masked a (of_nat p)) (of_nat p) = ipv4_masked a (of_nat p)"
  by (rule ipv4_address.expand) (simp add: ipv4_masked_prim and.assoc)

lemma ipv4_masked_0 [simp]: "ipv4_masked a 0 = a"
  using ipv4_masked_prim [of 0 a] by (intro ipv4_address.expand) (simp add: rust_shl_def)

lemma ipv4_masked_32 [simp]: "ipv4_masked a 32 = a"
  using ipv4_masked_prim [of 32 a] by (intro ipv4_address.expand) (simp add: rust_shl_def)

lemma ipv6_masked_128 [simp]: "ipv6_masked a 128 = a"
  using ipv6_masked_prim [of 128 a] by (intro ipv6_address.expand) (simp add: rust_shl_def)

end
