(* ===== verification/Packet_Headers.thy ===== *)
theory Packet_Headers
  imports Inet_Checksum Net_Address
begin

text \<open>
  The packed headers that the stack reads from and writes to packets, and the functions that fill
  them: \<^verbatim>\<open>generate_ether_header\<close>, \<^verbatim>\<open>generate_arp_packet\<close>, \<^verbatim>\<open>generate_ipv4_header\<close> and
  \<^verbatim>\<open>generate_ipv6_header\<close>, then the two ICMP echo replies.  A header that is read is the list of
  its bytes; its fields are selected by their offsets in the packed structure.
\<close>

section \<open>Ethernet (src/src/net/ethernet.rs)\<close>

definition eth_dest :: "u8 list \<Rightarrow> u8 list" where "eth_dest h = take 6 h"
definition eth_src :: "u8 list \<Rightarrow> u8 list" where "eth_src h = take 6 (drop 6 h)"
definition eth_type :: "u8 list \<Rightarrow> u8 list" where "eth_type h = take 2 (drop 12 h)"

definition generate_ether_header ::
  "u8 list \<Rightarrow> mac_address \<Rightarrow> mac_address \<Rightarrow> u8 list \<Rightarrow> u8 list res"
where
  "generate_ether_header buffer src_addr dest_addr frame_type =
     write_at buffer 0 (mac_array dest_addr @ mac_array src_addr @ frame_type)"

section \<open>ARP (src/src/net/arp.rs)\<close>

definition arp_oper :: "u8 list \<Rightarrow> u16" where "arp_oper p = of_le16 (take 2 (drop 6 p))"
definition arp_sha :: "u8 list \<Rightarrow> u8 list" where "arp_sha p = take 6 (drop 8 p)"
definition arp_spa :: "u8 list \<Rightarrow> u8 list" where "arp_spa p = take 4 (drop 14 p)"
definition arp_tha :: "u8 list \<Rightarrow> u8 list" where "arp_tha p = take 6 (drop 18 p)"
definition arp_tpa :: "u8 list \<Rightarrow> u8 list" where "arp_tpa p = take 4 (drop 24 p)"

definition generate_arp_packet ::
  "u8 list \<Rightarrow> u16 \<Rightarrow> mac_address \<Rightarrow> ipv4_address \<Rightarrow> mac_address \<Rightarrow> ipv4_address \<Rightarrow> u8 list res"
where
  "generate_arp_packet buffer oper src_mac src_ip dest_mac dest_ip =
     write_at buffer 0
       (le16 0x0100 @ le16 0x0008 @ [6, 4] @ le16 oper @ mac_array src_mac @ ipv4_get_array src_ip @
        mac_array dest_mac @ ipv4_get_array dest_ip)"

section \<open>IPv4 (src/src/net/ipv4.rs)\<close>

definition ip4_version_and_ihl :: "u8 list \<Rightarrow> u8" where "ip4_version_and_ihl h = h ! 0"
definition ip4_length :: "u8 list \<Rightarrow> u8 list" where "ip4_length h = take 2 (drop 2 h)"
definition ip4_proto :: "u8 list \<Rightarrow> u8" where "ip4_proto h = h ! 9"
definition ip4_src_ip :: "u8 list \<Rightarrow> u8 list" where "ip4_src_ip h = take 4 (drop 12 h)"
definition ip4_dest_ip :: "u8 list \<Rightarrow> u8 list" where "ip4_dest_ip h = take 4 (drop 16 h)"

definition ip4_header_len :: "u8 list \<Rightarrow> nat" where
  "ip4_header_len h = unat (ip4_version_and_ihl h AND 0x0f) * 4"

definition ipv4_header :: "u8 list \<Rightarrow> u8 \<Rightarrow> ipv4_address \<Rightarrow> ipv4_address \<Rightarrow> u8 list" where
  "ipv4_header len proto src_ip dest_ip =
     [0x45, 0] @ len @ le16 0 @ le16 0x0040 @ [64, proto] @ le16 0 @ ipv4_get_array src_ip @
     ipv4_get_array dest_ip"

definition generate_ipv4_header ::
  "u8 list \<Rightarrow> u8 list \<Rightarrow> u8 \<Rightarrow> ipv4_address \<Rightarrow> ipv4_address \<Rightarrow> u8 list res"
where
  "generate_ipv4_header buffer len proto src_ip dest_ip =
     write_at buffer 0 (ipv4_header len proto src_ip dest_ip)"

section \<open>IPv6 (src/src/net/ipv6.rs)\<close>

definition ip6_version_and_tch :: "u8 list \<Rightarrow> u8" where "ip6_version_and_tch h = h ! 0"
definition ip6_length :: "u8 list \<Rightarrow> u8 list" where "ip6_length h = take 2 (drop 4 h)"
definition ip6_nexthdr :: "u8 list \<Rightarrow> u8" where "ip6_nexthdr h = h ! 6"
definition ip6_src_ip :: "u8 list \<Rightarrow> u8 list" where "ip6_src_ip h = take 16 (drop 8 h)"
definition ip6_dest_ip :: "u8 list \<Rightarrow> u8 list" where "ip6_dest_ip h = take 16 (drop 24 h)"

definition ipv6_header :: "u8 list \<Rightarrow> u8 \<Rightarrow> ipv6_address \<Rightarrow> ipv6_address \<Rightarrow> u8 list" where
  "ipv6_header len nexthdr src_ip dest_ip =
     [0x60, 0, 0, 0] @ len @ [nexthdr, 0x80] @ ipv6_get_array src_ip @ ipv6_get_array dest_ip"

definition generate_ipv6_header ::
  "u8 list \<Rightarrow> u8 list \<Rightarrow> u8 \<Rightarrow> ipv6_address \<Rightarrow> ipv6_address \<Rightarrow> u8 list res"
where
  "generate_ipv6_header buffer len nexthdr src_ip dest_ip =
     write_at buffer 0 (ipv6_header len nexthdr src_ip dest_ip)"

section \<open>ICMP\<close>

definition icmp_type :: "u8 list \<Rightarrow> u8" where "icmp_type h = h ! 0"
definition icmp_code :: "u8 list \<Rightarrow> u8" where "icmp_code h = h ! 1"
definition icmp_identifier :: "u8 list \<Rightarrow> u8 list" where "icmp_identifier h = take 2 (drop 4 h)"
definition icmp_sequence :: "u8 list \<Rightarrow> u8 list" where "icmp_sequence h = take 2 (drop 6 h)"

text \<open>A 16-bit length field in network order as a \<^verbatim>\<open>usize\<close>.\<close>

definition len_field :: "u8 list \<Rightarrow> usize" where
  "len_field l = (push_bit 8 (ucast (l ! 0)) OR ucast (l ! 1))"

text \<open>\<^verbatim>\<open>for i in lo..hi { respslice[i] = slice[i]; }\<close>\<close>

definition copy_payload :: "u8 list \<Rightarrow> nat \<Rightarrow> nat \<Rightarrow> u8 list \<Rightarrow> u8 list res" where
  "copy_payload req lo hi respslice =
     rfor lo hi (\<lambda>i r. rbind (get_at req i) (\<lambda>b. set_at r i b)) respslice"

text \<open>
  The echo reply of \<^verbatim>\<open>Icmpv4InLocal\<close>, from the allocated \<^verbatim>\<open>respslice\<close> to the one that is sent:
  \<open>req\<close> is the slice of the request, \<open>ip\<close> and \<open>icmp\<close> its headers, \<open>mac\<close> the address of the interface.
\<close>

definition icmpv4_fill_reply ::
  "mac_address \<Rightarrow> u8 list \<Rightarrow> u8 list \<Rightarrow> u8 list \<Rightarrow> usize \<Rightarrow> u8 list \<Rightarrow> u8 list res"
where
  "icmpv4_fill_reply mac req ip icmp len respslice =
     rbind (subslice req 6 12) (\<lambda>src.
     let dest_mac = mac_new src in
     rbind (generate_ether_header respslice mac dest_mac [0x08, 0x00]) (\<lambda>r.
     rbind (with_tail r 14 (\<lambda>t. generate_ipv4_header t (ip4_length ip) 0x01
              (ipv4_from_array (ip4_dest_ip ip)) (ipv4_from_array (ip4_src_ip ip)))) (\<lambda>r.
     rbind (write_at r (14 + 20) ([0x00, 0x00] @ le16 0 @ icmp_identifier icmp @ icmp_sequence icmp)) (\<lambda>r.
     rbind (copy_payload req (14 + 20 + 8) (unat (14 + 20 + len)) r) (\<lambda>r.
     rbind (csum_loop r ((14 + 20) div 2) (unat ((14 + 20 + len) div 2)) 0) (\<lambda>csum_icmp.
     let r = splice (14 + 20 + 2) (le16 (csum_field (csum_finish csum_icmp))) r in
     rbind (csum_loop r (14 div 2) (unat ((14 + 20 + len) div 2)) 0) (\<lambda>csum_ipv4.
     let csum_ipv4 = csum_finish csum_ipv4 in
     rbind (set_at r 24 (ucast (drop_bit 8 csum_ipv4))) (\<lambda>r.
       set_at r 25 (ucast csum_ipv4)))))))))"

text \<open>The echo reply of \<^verbatim>\<open>Icmpv6InLocal\<close>, with the pseudo header in the checksum.\<close>

definition icmpv6_pseudo_sum :: "u8 list \<Rightarrow> usize \<Rightarrow> u32" where
  "icmpv6_pseudo_sum src_ip len =
     (let csum = fold (\<lambda>i csum. csum + (push_bit 8 0x2 OR 0x02)) [0..<8] 0;
          csum = fold (\<lambda>i csum. csum + (push_bit 8 (ucast (src_ip ! (i * 2))) OR ucast (src_ip ! (i * 2 + 1)))) [0..<8] csum;
          csum = csum + ucast len
      in csum + 58)"

definition icmpv6_fill_reply ::
  "mac_address \<Rightarrow> u8 list \<Rightarrow> u8 list \<Rightarrow> u8 list \<Rightarrow> usize \<Rightarrow> u8 list \<Rightarrow> u8 list res"
where
  "icmpv6_fill_reply mac req ip icmp len respslice =
     rbind (subslice req 6 12) (\<lambda>src.
     let dest_mac = mac_new src in
     rbind (generate_ether_header respslice mac dest_mac [0x86, 0xdd]) (\<lambda>r.
     rbind (with_tail r 14 (\<lambda>t. generate_ipv6_header t (ip6_length ip) 58
              (ipv6_from_array (replicate 16 0x02)) (ipv6_from_array (ip6_src_ip ip)))) (\<lambda>r.
     rbind (write_at r (14 + 40) ([0x81, icmp_code icmp] @ le16 0 @ icmp_identifier icmp @ icmp_sequence icmp)) (\<lambda>r.
     rbind (copy_payload req (14 + 40 + 8) (unat (14 + 40 + len)) r) (\<lambda>r.
     rbind (csum_loop r ((14 + 40) div 2) (unat ((14 + 40 + len) div 2)) (icmpv6_pseudo_sum (ip6_src_ip ip) len)) (\<lambda>csum_icmp.
       Inr (splice (14 + 40 + 2) (le16 (csum_field (csum_finish csum_icmp))) r)))))))"

end
