(* ===== verification/Fib_Tables.thy ===== *)
theory Fib_Tables
  imports Net_Address
begin

text \<open>
  The forwarding information base and the adjacency tables of \<^verbatim>\<open>src/src/net/fib.rs\<close>.  A B-tree
  map is a partial map; its keys are compared by the \<^verbatim>\<open>Ord\<close> instances of \<^verbatim>\<open>Net_Address\<close>, so the
  MAC table is keyed by the primitive value of the address.  A reference to a network interface
  is the index of the interface among the instances the kernel created.

  Two interfaces are stated as locales and interpreted on the code: the search from a prefix
  length downwards that IPv4 and IPv6 share, and the registration into an adjacency table that
  the three tables share.
\<close>

section \<open>Entries\<close>

type_synonym netif_ref = nat

datatype fib_type = Remote | Adjacent | AdjacentResolved | Local

record fib4 =
  fib4_nexthop_macaddress :: mac_address
  fib4_nexthop_address :: ipv4_address
  fib4_netif :: netif_ref
  fib4_fib_type :: fib_type

record fib6 =
  fib6_nexthop_macaddress :: mac_address
  fib6_nexthop_address :: ipv6_address
  fib6_netif :: netif_ref
  fib6_fib_type :: fib_type

record adjacent_information =
  adj_mac_address :: mac_address
  adj_netif :: netif_ref
  adj_is_local :: bool
  adj_expire_time :: "u64 option"

section \<open>The tables\<close>

type_synonym fib4_index = "(ipv4_address \<rightharpoonup> fib4) list"
type_synonym fib6_index = "(ipv6_address \<rightharpoonup> fib6) list"

record fib_tables =
  ipv4_fib_index :: fib4_index
  ipv6_fib_index :: fib6_index
  ipv4_adjacent :: "ipv4_address \<rightharpoonup> adjacent_information"
  ipv6_adjacent :: "ipv6_address \<rightharpoonup> adjacent_information"
  mac_addr_table :: "u64 \<rightharpoonup> adjacent_information"

definition empty_tables :: fib_tables where
  "empty_tables = \<lparr>ipv4_fib_index = replicate 33 Map.empty, ipv6_fib_index = replicate 129 Map.empty,
     ipv4_adjacent = Map.empty, ipv6_adjacent = Map.empty, mac_addr_table = Map.empty\<rparr>"

section \<open>IPv4 forwarding\<close>

definition ipv4_mask_to_prefixlen :: "u32 \<Rightarrow> nat" where
  "ipv4_mask_to_prefixlen netmask =
     (
      if netmask = 0xffffffff then 32
      else if netmask = 0xfffffffe then 31
      else if netmask = 0xfffffffc then 30
      else if netmask = 0xfffffff8 then 29
      else if netmask = 0xfffffff0 then 28
      else if netmask = 0xffffffe0 then 27
      else if netmask = 0xffffffc0 then 26
      else if netmask = 0xffffff80 then 25
      else if netmask = 0xffffff00 then 24
      else if netmask = 0xfffffe00 then 23
      else if netmask = 0xfffffc00 then 22
      else if netmask = 0xfffff800 then 21
      else if netmask = 0xfffff000 then 20
      else if netmask = 0xffffe000 then 19
      else if netmask = 0xffffc000 then 18
      else if netmask = 0xffff8000 then 17
      else if netmask = 0xffff0000 then 16
      else if netmask = 0xfffe0000 then 15
      else if netmask = 0xfffc0000 then 14
      else if netmask = 0xfff80000 then 13
      else if netmask = 0xfff00000 then 12
      else if netmask = 0xffe00000 then 11
      else if netmask = 0xffc00000 then 10
      else if netmask = 0xff800000 then 9
      else if netmask = 0xff000000 then 8
      else if netmask = 0xfe000000 then 7
      else if netmask = 0xfc000000 then 6
      else if netmask = 0xf8000000 then 5
      else if netmask = 0xf0000000 then 4
      else if netmask = 0xe0000000 then 3
      else if netmask = 0xc0000000 then 2
      else if netmask = 0x80000000 then 1
      else if netmask = 0x00000000 then 0
      else 0)"

definition register_ipv4_fib ::
  "ipv4_address \<Rightarrow> u32 \<Rightarrow> mac_address \<Rightarrow> ipv4_address \<Rightarrow> netif_ref \<Rightarrow> fib_type \<Rightarrow> fib_tables \<Rightarrow> fib_tables res"
where
  "register_ipv4_fib ip_address netmask nexthop_macaddress nexthop_address netif fib_type s =
     (let fib_index = ipv4_mask_to_prefixlen netmask
      in rbind (get_at (ipv4_fib_index s) fib_index) (\<lambda>table.
         Inr (s\<lparr>ipv4_fib_index := (ipv4_fib_index s)[fib_index := table(ip_address \<mapsto>
           \<lparr>fib4_nexthop_macaddress = nexthop_macaddress, fib4_nexthop_address = nexthop_address,
            fib4_netif = netif, fib4_fib_type = fib_type\<rparr>)]\<rparr>)))"

text \<open>The loop of \<^verbatim>\<open>find_ipv4_fib\<close> from \<^verbatim>\<open>fib_index\<close> downwards.\<close>

fun find_ipv4_fib_from :: "fib4_index \<Rightarrow> ipv4_address \<Rightarrow> nat \<Rightarrow> fib4 option res" where
  "find_ipv4_fib_from t ip_address fib_index =
     rbind (get_at t fib_index) (\<lambda>table.
       case table (ipv4_masked ip_address (of_nat fib_index)) of
         Some fib \<Rightarrow> Inr (Some fib)
       | None \<Rightarrow> if fib_index = 0 then Inr None else find_ipv4_fib_from t ip_address (fib_index - 1))"

definition find_ipv4_fib :: "fib_tables \<Rightarrow> ipv4_address \<Rightarrow> u32 \<Rightarrow> fib4 option res" where
  "find_ipv4_fib s ip_address netmask =
     find_ipv4_fib_from (ipv4_fib_index s) ip_address (ipv4_mask_to_prefixlen netmask)"

section \<open>IPv6 forwarding\<close>

definition register_ipv6_fib ::
  "ipv6_address \<Rightarrow> u32 \<Rightarrow> mac_address \<Rightarrow> ipv6_address \<Rightarrow> netif_ref \<Rightarrow> fib_type \<Rightarrow> fib_tables \<Rightarrow> fib_tables res"
where
  "register_ipv6_fib ip_address prefix nexthop_macaddress nexthop_address netif fib_type s =
     rbind (get_at (ipv6_fib_index s) (unat prefix)) (\<lambda>table.
       Inr (s\<lparr>ipv6_fib_index := (ipv6_fib_index s)[unat prefix := table(ip_address \<mapsto>
         \<lparr>fib6_nexthop_macaddress = nexthop_macaddress, fib6_nexthop_address = nexthop_address,
          fib6_netif = netif, fib6_fib_type = fib_type\<rparr>)]\<rparr>))"

text \<open>The loop of \<^verbatim>\<open>find_ipv6_fib\<close>: the index goes down, the mask stays the one of the call.\<close>

fun find_ipv6_fib_from :: "fib6_index \<Rightarrow> ipv6_address \<times> u32 \<Rightarrow> nat \<Rightarrow> fib6 option res" where
  "find_ipv6_fib_from t (ip_address, prefix) fib_index =
     rbind (get_at t fib_index) (\<lambda>table.
       case table (ipv6_masked ip_address prefix) of
         Some fib \<Rightarrow> Inr (Some fib)
       | None \<Rightarrow> if fib_index = 0 then Inr None
                 else find_ipv6_fib_from t (ip_address, prefix) (fib_index - 1))"

definition find_ipv6_fib :: "fib_tables \<Rightarrow> ipv6_address \<Rightarrow> u32 \<Rightarrow> fib6 option res" where
  "find_ipv6_fib s ip_address prefix =
     find_ipv6_fib_from (ipv6_fib_index s) (ip_address, prefix) (unat prefix)"

section \<open>Adjacency tables\<close>

definition adj_new :: "mac_address \<Rightarrow> netif_ref \<Rightarrow> bool \<Rightarrow> u64 option \<Rightarrow> adjacent_information" where
  "adj_new mac netif is_local expire_time =
     \<lparr>adj_mac_address = mac, adj_netif = netif, adj_is_local = is_local, adj_expire_time = expire_time\<rparr>"

definition register_ipv4_adjacent ::
  "ipv4_address \<Rightarrow> mac_address \<Rightarrow> netif_ref \<Rightarrow> bool \<Rightarrow> u64 option \<Rightarrow> fib_tables \<Rightarrow> fib_tables"
where
  "register_ipv4_adjacent ip_address mac netif is_local expire_time s =
     (case ipv4_adjacent s ip_address of
        Some adj \<Rightarrow>
          (case adj_expire_time adj of
             Some expire_time_of_existing \<Rightarrow>
               s\<lparr>ipv4_adjacent := (ipv4_adjacent s)(ip_address \<mapsto> adj_new mac netif is_local expire_time)\<rparr>
           | None \<Rightarrow> s)
      | None \<Rightarrow>
          s\<lparr>ipv4_adjacent := (ipv4_adjacent s)(ip_address \<mapsto> adj_new mac netif is_local expire_time)\<rparr>)"

definition register_ipv6_adjacent ::
  "ipv6_address \<Rightarrow> mac_address \<Rightarrow> netif_ref \<Rightarrow> bool \<Rightarrow> u64 option \<Rightarrow> fib_tables \<Rightarrow> fib_tables"
where
  "register_ipv6_adjacent ip_address mac netif is_local expire_time s =
     (case ipv6_adjacent s ip_address of
        Some adj \<Rightarrow>
          (case adj_expire_time adj of
             Some expire_time_of_existing \<Rightarrow>
               s\<lparr>ipv6_adjacent := (ipv6_adjacent s)(ip_address \<mapsto> adj_new mac netif is_local expire_time)\<rparr>
           | None \<Rightarrow> s)
      | None \<Rightarrow>
          s\<lparr>ipv6_adjacent := (ipv6_adjacent s)(ip_address \<mapsto> adj_new mac netif is_local expire_time)\<rparr>)"

definition register_macaddress ::
  "mac_address \<Rightarrow> netif_ref \<Rightarrow> bool \<Rightarrow> u64 option \<Rightarrow> fib_tables \<Rightarrow> fib_tables"
where
  "register_macaddress mac netif is_local expire_time s =
     (case mac_addr_table s (mac_prim mac) of
        Some adj \<Rightarrow>
          (case adj_expire_time adj of
             Some expire_time_of_existing \<Rightarrow>
               s\<lparr>mac_addr_table := (mac_addr_table s)(mac_prim mac \<mapsto> adj_new mac netif is_local expire_time)\<rparr>
           | None \<Rightarrow> s)
      | None \<Rightarrow>
          s\<lparr>mac_addr_table := (mac_addr_table s)(mac_prim mac \<mapsto> adj_new mac netif is_local expire_time)\<rparr>)"

declare find_ipv4_fib_from.simps [simp del] find_ipv6_fib_from.simps [simp del]

section \<open>The interface of the downward search\<close>

locale downward_search =
  fixes probe :: "'t \<Rightarrow> 'a \<Rightarrow> nat \<Rightarrow> 'v option"
    and levels :: "'t \<Rightarrow> nat"
    and search :: "'t \<Rightarrow> 'a \<Rightarrow> nat \<Rightarrow> 'v option res"
  assumes search_oob: "levels t \<le> n \<Longrightarrow> search t a n = Inl Index_OOB"
    and search_hit: "n < levels t \<Longrightarrow> probe t a n = Some v \<Longrightarrow> search t a n = Inr (Some v)"
    and search_miss_0: "0 < levels t \<Longrightarrow> probe t a 0 = None \<Longrightarrow> search t a 0 = Inr None"
    and search_miss_Suc: "Suc n < levels t \<Longrightarrow> probe t a (Suc n) = None \<Longrightarrow>
          search t a (Suc n) = search t a n"
begin

lemma search_total:
  assumes "n < levels t" shows "\<exists>r. search t a n = Inr r"
  using assms
proof (induction n)
  case 0
  then show ?case by (cases "probe t a 0") (auto simp: search_hit search_miss_0)
next
  case (Suc n)
  then show ?case by (cases "probe t a (Suc n)") (auto simp: search_hit search_miss_Suc)
qed

text \<open>The search depends on what the levels hold for the address, and on nothing else.\<close>

lemma search_cong:
  assumes "levels t = levels t'" "\<And>i. i \<le> n \<Longrightarrow> i < levels t \<Longrightarrow> probe t a i = probe t' a i"
  shows "search t a n = search t' a n"
proof (cases "n < levels t")
  case True
  then show ?thesis
    using assms(2)
  proof (induction n)
    case 0
    then have "probe t a 0 = probe t' a 0" by simp
    then show ?case using assms(1) 0 by (cases "probe t' a 0") (simp_all add: search_hit search_miss_0)
  next
    case (Suc n)
    then have "probe t a (Suc n) = probe t' a (Suc n)" by simp
    then show ?case using assms(1) Suc by (cases "probe t' a (Suc n)") (simp_all add: search_hit search_miss_Suc)
  qed
next
  case False
  then show ?thesis using assms(1) by (simp add: search_oob)
qed

lemma search_None_iff:
  assumes "n < levels t"
  shows "search t a n = Inr None \<longleftrightarrow> (\<forall>i\<le>n. probe t a i = None)"
  using assms
proof (induction n)
  case 0
  then show ?case by (cases "probe t a 0") (auto simp: search_hit search_miss_0)
next
  case (Suc n)
  then show ?case
    by (cases "probe t a (Suc n)") (auto simp: search_hit search_miss_Suc le_Suc_eq)
qed

lemma search_Some_iff:
  assumes "n < levels t"
  shows "search t a n = Inr (Some v) \<longleftrightarrow>
     (\<exists>i\<le>n. probe t a i = Some v \<and> (\<forall>j. i < j \<and> j \<le> n \<longrightarrow> probe t a j = None))"
  using assms
proof (induction n)
  case 0
  then show ?case by (cases "probe t a 0") (auto simp: search_hit search_miss_0)
next
  case (Suc n)
  show ?case
  proof (cases "probe t a (Suc n)")
    case None
    have "search t a (Suc n) = search t a n"
      using Suc.prems None by (rule search_miss_Suc)
    with Suc None show ?thesis by (auto simp: le_Suc_eq)
  next
    case (Some w)
    have "search t a (Suc n) = Inr (Some w)"
      using Suc.prems Some by (rule search_hit)
    with Some show ?thesis by (auto simp: le_Suc_eq)
  qed
qed

end

definition probe4 :: "fib4_index \<Rightarrow> ipv4_address \<Rightarrow> nat \<Rightarrow> fib4 option" where
  "probe4 t a i = (t ! i) (ipv4_masked a (of_nat i))"

definition probe6 :: "fib6_index \<Rightarrow> ipv6_address \<times> u32 \<Rightarrow> nat \<Rightarrow> fib6 option" where
  "probe6 t ap i = (t ! i) (ipv6_masked (fst ap) (snd ap))"

interpretation v4_search: downward_search probe4 length find_ipv4_fib_from
  by unfold_locales (simp_all add: find_ipv4_fib_from.simps probe4_def get_at_def)

interpretation v6_search: downward_search probe6 length find_ipv6_fib_from
proof (unfold_locales, goal_cases)
  case (1 t n a) then show ?case by (cases a) (simp add: find_ipv6_fib_from.simps get_at_def)
next
  case (2 n t a v) then show ?case
    by (cases a) (simp add: find_ipv6_fib_from.simps probe6_def get_at_def)
next
  case (3 t a) then show ?case
    by (cases a) (simp add: find_ipv6_fib_from.simps probe6_def get_at_def)
next
  case (4 n t a) then show ?case
    by (cases a) (simp add: find_ipv6_fib_from.simps [of t _ _ "Suc n"] probe6_def get_at_def)
qed

section \<open>The interface of the adjacency tables\<close>

locale adjacency =
  fixes find_adj :: "'s \<Rightarrow> 'k \<Rightarrow> adjacent_information option"
    and register :: "'k \<Rightarrow> adjacent_information \<Rightarrow> 's \<Rightarrow> 's"
    and entry :: "'k \<Rightarrow> adjacent_information \<Rightarrow> adjacent_information"
    and same :: "'k \<Rightarrow> 'k \<Rightarrow> bool"
  assumes register_permanent:
      "find_adj s k = Some e \<Longrightarrow> adj_expire_time e = None \<Longrightarrow> register k i s = s"
    and register_fresh: "find_adj s k = None \<Longrightarrow> same k k' \<Longrightarrow> find_adj (register k i s) k' = Some (entry k i)"
    and register_expiring:
      "find_adj s k = Some e \<Longrightarrow> adj_expire_time e = Some x \<Longrightarrow> same k k' \<Longrightarrow>
         find_adj (register k i s) k' = Some (entry k i)"
    and register_other: "\<not> same k k' \<Longrightarrow> find_adj (register k i s) k' = find_adj s k'"
    and find_same: "same k k' \<Longrightarrow> find_adj s k = find_adj s k'"
begin

lemma find_register:
  "find_adj (register k i s) k' =
     (if same k k' \<and> (\<forall>e. find_adj s k = Some e \<longrightarrow> adj_expire_time e \<noteq> None)
      then Some (entry k i) else find_adj s k')"
proof (cases "same k k'")
  case False
  then show ?thesis by (simp add: register_other)
next
  case same: True
  show ?thesis
  proof (cases "find_adj s k")
    case None
    with same show ?thesis by (simp add: register_fresh)
  next
    case (Some e)
    with same show ?thesis
      by (cases "adj_expire_time e") (auto simp: register_permanent register_expiring)
  qed
qed

text \<open>A permanent entry survives every sequence of registrations; entries never disappear.\<close>

lemma permanent_survives:
  assumes "find_adj s k = Some e" "adj_expire_time e = None"
  shows "find_adj (fold (\<lambda>(k, i). register k i) rs s) k = Some e"
  using assms
proof (induction rs arbitrary: s)
  case Nil
  then show ?case by simp
next
  case (Cons r rs)
  obtain k' i where r: "r = (k', i)" by (cases r)
  have "find_adj (register k' i s) k = Some e"
    using Cons.prems find_same [of k' k s] by (auto simp: find_register)
  with Cons.IH Cons.prems(2) show ?case by (simp add: r)
qed

lemma entry_stays:
  "find_adj s k \<noteq> None \<Longrightarrow> find_adj (fold (\<lambda>(k, i). register k i) rs s) k \<noteq> None"
  by (induction rs arbitrary: s) (auto simp: find_register)

end

text \<open>
  The three tables provide this interface.  In the MAC table the entry holds the key itself, and
  two keys are the same when the primitive values are.
\<close>

definition adj4_register :: "ipv4_address \<Rightarrow> adjacent_information \<Rightarrow> fib_tables \<Rightarrow> fib_tables" where
  "adj4_register k i = register_ipv4_adjacent k (adj_mac_address i) (adj_netif i) (adj_is_local i) (adj_expire_time i)"

definition adj6_register :: "ipv6_address \<Rightarrow> adjacent_information \<Rightarrow> fib_tables \<Rightarrow> fib_tables" where
  "adj6_register k i = register_ipv6_adjacent k (adj_mac_address i) (adj_netif i) (adj_is_local i) (adj_expire_time i)"

definition mac_register :: "mac_address \<Rightarrow> adjacent_information \<Rightarrow> fib_tables \<Rightarrow> fib_tables" where
  "mac_register k i = register_macaddress k (adj_netif i) (adj_is_local i) (adj_expire_time i)"

definition mac_find :: "fib_tables \<Rightarrow> mac_address \<Rightarrow> adjacent_information option" where
  "mac_find s k = mac_addr_table s (mac_prim k)"

interpretation adj4: adjacency ipv4_adjacent adj4_register "\<lambda>k i. i" "(=)"
  by unfold_locales
    (auto simp: adj4_register_def register_ipv4_adjacent_def adj_new_def split: option.splits)

interpretation adj6: adjacency ipv6_adjacent adj6_register "\<lambda>k i. i" "(=)"
  by unfold_locales
    (auto simp: adj6_register_def register_ipv6_adjacent_def adj_new_def split: option.splits)

interpretation macs: adjacency mac_find mac_register "\<lambda>k i. i\<lparr>adj_mac_address := k\<rparr>" mac_eq
  by unfold_locales
    (auto simp: mac_register_def mac_find_def mac_eq_def register_macaddress_def adj_new_def
       split: option.splits)

section \<open>Masks and prefix lengths\<close>

text \<open>The mask that \<^verbatim>\<open>0xffffffffu32 << (32u32 - prefix)\<close> computes for a prefix length.\<close>

definition prefix_mask :: "nat \<Rightarrow> u32" where
  "prefix_mask p = rust_shl 0xffffffff (unat (32 - of_nat p :: u32))"

lemma ipv4_mask_to_prefixlen_le: "ipv4_mask_to_prefixlen m \<le> 32"
  unfolding ipv4_mask_to_prefixlen_def by (simp split: if_split)

lemma prefix_mask_prefixlen_all:
  "\<forall>p \<in> set [1..<33]. ipv4_mask_to_prefixlen (prefix_mask p) = p"
  by (simp add: upt_conv_Cons prefix_mask_def rust_shl_def ipv4_mask_to_prefixlen_def)

lemma prefix_mask_prefixlen:
  "1 \<le> p \<Longrightarrow> p \<le> 32 \<Longrightarrow> ipv4_mask_to_prefixlen (prefix_mask p) = p"
  using prefix_mask_prefixlen_all by simp

lemma mask_prefixlen_32 [simp]: "ipv4_mask_to_prefixlen 0xffffffff = 32"
  by (simp add: ipv4_mask_to_prefixlen_def)

lemma mask_prefixlen_0 [simp]: "ipv4_mask_to_prefixlen 0 = 0"
  by (simp add: ipv4_mask_to_prefixlen_def)

section \<open>Longest prefix match\<close>

text \<open>
  The specification: a route \<open>(p, net)\<close> matches an address when the leading \<open>p\<close> bits agree,
  and the best route is one of maximal prefix length among those that match.
\<close>

definition net_matches :: "nat \<Rightarrow> ipv4_address \<Rightarrow> ipv4_address \<Rightarrow> bool" where
  "net_matches p net a \<longleftrightarrow> drop_bit (32 - p) (ipv4_prim net) = drop_bit (32 - p) (ipv4_prim a)"

definition route4 :: "fib_tables \<Rightarrow> nat \<Rightarrow> ipv4_address \<Rightarrow> fib4 \<Rightarrow> bool" where
  "route4 s p net f \<longleftrightarrow> p \<le> 32 \<and> (ipv4_fib_index s ! p) net = Some f"

definition best_route4 :: "fib_tables \<Rightarrow> ipv4_address \<Rightarrow> fib4 \<Rightarrow> bool" where
  "best_route4 s a f \<longleftrightarrow>
     (\<exists>p net. route4 s p net f \<and> net_matches p net a \<and>
        (\<forall>p' net' f'. route4 s p' net' f' \<and> net_matches p' net' a \<longrightarrow> p' \<le> p))"

text \<open>The tables are well formed when there are 33 of them and the networks have no host bits.\<close>

definition wf4 :: "fib_tables \<Rightarrow> bool" where
  "wf4 s \<longleftrightarrow> length (ipv4_fib_index s) = 33 \<and>
     (\<forall>p net f. route4 s p net f \<longrightarrow> ipv4_masked net (of_nat p) = net)"

lemma wf4_empty: "wf4 empty_tables"
  by (auto simp: wf4_def empty_tables_def route4_def)

lemma net_matches_masked:
  assumes "1 \<le> p" "p \<le> 32"
  shows "net_matches p (ipv4_masked a (of_nat p)) a"
  using ipv4_masked_eq_iff [OF assms, of "ipv4_masked a (of_nat p)" a] assms(2)
  by (simp add: net_matches_def ipv4_masked_idem)

text \<open>A level of the search finds exactly the matching route of its prefix length.\<close>

lemma probe4_iff:
  assumes "wf4 s" "1 \<le> p" "p \<le> 32"
  shows "probe4 (ipv4_fib_index s) a p = Some f \<longleftrightarrow> (\<exists>net. route4 s p net f \<and> net_matches p net a)"
proof
  assume "probe4 (ipv4_fib_index s) a p = Some f"
  then have "route4 s p (ipv4_masked a (of_nat p)) f"
    using assms(3) by (simp add: probe4_def route4_def)
  with net_matches_masked [OF assms(2,3)]
  show "\<exists>net. route4 s p net f \<and> net_matches p net a" by blast
next
  assume "\<exists>net. route4 s p net f \<and> net_matches p net a"
  then obtain net where net: "route4 s p net f" "net_matches p net a" by blast
  have "ipv4_masked net (of_nat p) = ipv4_masked a (of_nat p)"
    using net(2) ipv4_masked_eq_iff [OF assms(2,3)] by (simp add: net_matches_def)
  moreover have "ipv4_masked net (of_nat p) = net"
    using assms(1) net(1) by (auto simp: wf4_def)
  ultimately show "probe4 (ipv4_fib_index s) a p = Some f"
    using net(1) by (simp add: probe4_def route4_def)
qed

lemma probe4_None_iff:
  assumes "wf4 s" "1 \<le> p" "p \<le> 32"
  shows "probe4 (ipv4_fib_index s) a p = None \<longleftrightarrow> \<not> (\<exists>net f. route4 s p net f \<and> net_matches p net a)"
  using probe4_iff [OF assms] by (metis not_Some_eq)

lemma find_ipv4_fib_host:
  "find_ipv4_fib s a 0xffffffff = find_ipv4_fib_from (ipv4_fib_index s) a 32"
  by (simp add: find_ipv4_fib_def)

lemma levels4: "wf4 s \<Longrightarrow> 32 < length (ipv4_fib_index s)"
  by (simp add: wf4_def)

text \<open>With no route at prefix length 0, every level of the search agrees with the specification.\<close>

lemma level_hit:
  assumes "wf4 s" and "\<not> (\<exists>net f. route4 s 0 net f)" and "i \<le> 32"
  shows "probe4 (ipv4_fib_index s) a i = Some g \<longleftrightarrow> (\<exists>net. route4 s i net g \<and> net_matches i net a)"
proof (cases i)
  case 0
  have "probe4 (ipv4_fib_index s) a 0 = None"
    using assms(2) by (cases "probe4 (ipv4_fib_index s) a 0") (auto simp: probe4_def route4_def)
  with 0 assms(2) show ?thesis by auto
qed (use assms probe4_iff [OF assms(1), of i a g] in auto)

lemma level_miss:
  assumes "wf4 s" and "\<not> (\<exists>net f. route4 s 0 net f)" and "i \<le> 32"
  shows "probe4 (ipv4_fib_index s) a i = None \<longleftrightarrow> \<not> (\<exists>net g. route4 s i net g \<and> net_matches i net a)"
  using level_hit [OF assms] by (metis not_Some_eq)

lemma best_route4_level:
  assumes "wf4 s" and "\<not> (\<exists>net f. route4 s 0 net f)"
  shows "best_route4 s a f \<longleftrightarrow>
     (\<exists>i\<le>32. probe4 (ipv4_fib_index s) a i = Some f \<and>
        (\<forall>j. i < j \<and> j \<le> 32 \<longrightarrow> probe4 (ipv4_fib_index s) a j = None))"
proof
  assume "best_route4 s a f"
  then obtain p net where p: "route4 s p net f" "net_matches p net a"
    and best: "\<And>p' net' f'. route4 s p' net' f' \<Longrightarrow> net_matches p' net' a \<Longrightarrow> p' \<le> p"
    unfolding best_route4_def by blast
  have "p \<le> 32" using p(1) by (simp add: route4_def)
  moreover have "probe4 (ipv4_fib_index s) a p = Some f"
    using level_hit [OF assms \<open>p \<le> 32\<close>] p by blast
  moreover have "probe4 (ipv4_fib_index s) a j = None" if "p < j" "j \<le> 32" for j
    using level_miss [OF assms that(2)] best that(1) by (metis not_le)
  ultimately show "\<exists>i\<le>32. probe4 (ipv4_fib_index s) a i = Some f \<and>
      (\<forall>j. i < j \<and> j \<le> 32 \<longrightarrow> probe4 (ipv4_fib_index s) a j = None)" by blast
next
  assume "\<exists>i\<le>32. probe4 (ipv4_fib_index s) a i = Some f \<and>
      (\<forall>j. i < j \<and> j \<le> 32 \<longrightarrow> probe4 (ipv4_fib_index s) a j = None)"
  then obtain i where i: "i \<le> 32" "probe4 (ipv4_fib_index s) a i = Some f"
    and longer: "\<And>j. i < j \<Longrightarrow> j \<le> 32 \<Longrightarrow> probe4 (ipv4_fib_index s) a j = None" by blast
  obtain net where "route4 s i net f" "net_matches i net a"
    using level_hit [OF assms i(1)] i(2) by blast
  moreover have "p' \<le> i" if "route4 s p' net' f'" "net_matches p' net' a" for p' net' f'
  proof (rule ccontr)
    assume "\<not> p' \<le> i"
    moreover have "p' \<le> 32" using that(1) by (simp add: route4_def)
    ultimately show False using longer [of p'] level_miss [OF assms, of p'] that by auto
  qed
  ultimately show "best_route4 s a f" unfolding best_route4_def by blast
qed

text \<open>
  C2.  The IPv4 lookup is a longest prefix match.  On well-formed tables without a route of prefix
  length 0, \<open>find_ipv4_fib\<close> with the host mask returns an entry exactly when the entry belongs to
  a matching route of maximal prefix length, it returns nothing exactly when no route matches,
  and it never panics.
\<close>

theorem find_ipv4_fib_longest_match:
  assumes "wf4 s" and "\<not> (\<exists>net f. route4 s 0 net f)"
  shows "(find_ipv4_fib s a 0xffffffff = Inr (Some f) \<longleftrightarrow> best_route4 s a f) \<and>
    (find_ipv4_fib s a 0xffffffff = Inr None \<longleftrightarrow>
       \<not> (\<exists>p net g. route4 s p net g \<and> net_matches p net a)) \<and>
    (\<exists>r. find_ipv4_fib s a 0xffffffff = Inr r)"
proof (intro conjI)
  note lv = levels4 [OF assms(1)]
  show "find_ipv4_fib s a 0xffffffff = Inr (Some f) \<longleftrightarrow> best_route4 s a f"
    unfolding find_ipv4_fib_host best_route4_level [OF assms] using lv
    by (rule v4_search.search_Some_iff)
  show "\<exists>r. find_ipv4_fib s a 0xffffffff = Inr r"
    unfolding find_ipv4_fib_host using lv by (rule v4_search.search_total)
  have "find_ipv4_fib s a 0xffffffff = Inr None \<longleftrightarrow> (\<forall>i\<le>32. probe4 (ipv4_fib_index s) a i = None)"
    unfolding find_ipv4_fib_host using lv by (rule v4_search.search_None_iff)
  then show "find_ipv4_fib s a 0xffffffff = Inr None \<longleftrightarrow>
       \<not> (\<exists>p net g. route4 s p net g \<and> net_matches p net a)"
    using level_miss [OF assms] by (auto simp: route4_def)
qed

section \<open>Registering routes\<close>

definition mk_fib4 :: "mac_address \<Rightarrow> ipv4_address \<Rightarrow> netif_ref \<Rightarrow> fib_type \<Rightarrow> fib4" where
  "mk_fib4 m nh i t = \<lparr>fib4_nexthop_macaddress = m, fib4_nexthop_address = nh, fib4_netif = i, fib4_fib_type = t\<rparr>"

definition mk_fib6 :: "mac_address \<Rightarrow> ipv6_address \<Rightarrow> netif_ref \<Rightarrow> fib_type \<Rightarrow> fib6" where
  "mk_fib6 m nh i t = \<lparr>fib6_nexthop_macaddress = m, fib6_nexthop_address = nh, fib6_netif = i, fib6_fib_type = t\<rparr>"

lemma register_ipv4_fib_ok:
  assumes "length (ipv4_fib_index s) = 33"
  shows "register_ipv4_fib net m mac nh i t s =
    Inr (s\<lparr>ipv4_fib_index := (ipv4_fib_index s)[ipv4_mask_to_prefixlen m :=
      (ipv4_fib_index s ! ipv4_mask_to_prefixlen m)(net \<mapsto> mk_fib4 mac nh i t)]\<rparr>)"
  using assms ipv4_mask_to_prefixlen_le [of m]
  by (simp add: register_ipv4_fib_def get_at_def mk_fib4_def Let_def)

lemma register_ipv4_fib_route4:
  assumes "length (ipv4_fib_index s) = 33" and "register_ipv4_fib net m mac nh i t s = Inr s'"
  shows "route4 s' p net' f \<longleftrightarrow>
     (if p = ipv4_mask_to_prefixlen m \<and> net' = net then f = mk_fib4 mac nh i t else route4 s p net' f)"
  using assms ipv4_mask_to_prefixlen_le [of m]
  by (auto simp: register_ipv4_fib_ok route4_def nth_list_update split: if_splits)

lemma register_ipv4_fib_wf:
  assumes "wf4 s" and "ipv4_masked net (of_nat (ipv4_mask_to_prefixlen m)) = net"
    and "register_ipv4_fib net m mac nh i t s = Inr s'"
  shows "wf4 s'"
proof -
  have len: "length (ipv4_fib_index s) = 33" using assms(1) by (simp add: wf4_def)
  note r = register_ipv4_fib_route4 [OF len assms(3)]
  have "ipv4_masked net' (of_nat p) = net'" if "route4 s' p net' f" for p net' f
  proof (cases "p = ipv4_mask_to_prefixlen m \<and> net' = net")
    case False
    with that have "route4 s p net' f" by (simp only: r if_False)
    with assms(1) show ?thesis unfolding wf4_def by blast
  qed (use assms(2) in simp)
  moreover have "length (ipv4_fib_index s') = 33" using assms(3) len by (auto simp: register_ipv4_fib_ok)
  ultimately show ?thesis by (simp add: wf4_def)
qed

text \<open>
  Registering a route for a network without host bits keeps the tables well formed, adds that
  route and changes no other; the function does not panic, whatever the mask.
\<close>

theorem register_ipv4_fib_adds_route:
  assumes "wf4 s" and "ipv4_masked net (of_nat (ipv4_mask_to_prefixlen m)) = net"
  shows "\<exists>s'. register_ipv4_fib net m mac nh i t s = Inr s' \<and> wf4 s' \<and>
    (\<forall>p net' f. route4 s' p net' f \<longleftrightarrow>
       (if p = ipv4_mask_to_prefixlen m \<and> net' = net then f = mk_fib4 mac nh i t
        else route4 s p net' f))"
proof -
  have len: "length (ipv4_fib_index s) = 33" using assms(1) by (simp add: wf4_def)
  then obtain s' where s': "register_ipv4_fib net m mac nh i t s = Inr s'"
    by (simp add: register_ipv4_fib_ok)
  show ?thesis using s' register_ipv4_fib_wf [OF assms s'] register_ipv4_fib_route4 [OF len s'] by blast
qed

theorem register_ipv4_fib_adds_route_witness:
  "\<exists>s'. register_ipv4_fib (Ipv4Address 0x0A000000) 0xff000000 (mac_new [2,0,0,0,0,1]) (Ipv4Address 0x0A000001)
       0 Adjacent empty_tables = Inr s' \<and> wf4 s' \<and>
     route4 s' 8 (Ipv4Address 0x0A000000) (mk_fib4 (mac_new [2,0,0,0,0,1]) (Ipv4Address 0x0A000001) 0 Adjacent)"
proof -
  have plen: "ipv4_mask_to_prefixlen 0xff000000 = 8" by (simp add: ipv4_mask_to_prefixlen_def)
  have "ipv4_masked (Ipv4Address 0x0A000000) (of_nat (ipv4_mask_to_prefixlen 0xff000000)) = Ipv4Address 0x0A000000"
    unfolding plen by code_simp
  from register_ipv4_fib_adds_route [OF wf4_empty this, of "mac_new [2,0,0,0,0,1]" "Ipv4Address 0x0A000001" 0 Adjacent]
  show ?thesis by (elim exE conjE, intro exI conjI) (assumption, assumption, simp only: plen simp_thms if_True)
qed

text \<open>A table with the two nested networks \<^verbatim>\<open>10.0.0.0/8\<close> and \<^verbatim>\<open>10.1.0.0/16\<close>.\<close>

definition sample_tables :: fib_tables where
  "sample_tables = empty_tables\<lparr>ipv4_fib_index := (replicate 33 Map.empty)
     [8 := [Ipv4Address 0x0A000000 \<mapsto> mk_fib4 (mac_new [2,0,0,0,0,1]) (Ipv4Address 0x0A000001) 0 Remote],
      16 := [Ipv4Address 0x0A010000 \<mapsto> mk_fib4 (mac_new [2,0,0,0,0,2]) (Ipv4Address 0x0A010001) 1 Remote]]\<rparr>"

lemma sample_route4:
  "route4 sample_tables p net f \<longleftrightarrow>
     p = 8 \<and> net = Ipv4Address 0x0A000000 \<and> f = mk_fib4 (mac_new [2,0,0,0,0,1]) (Ipv4Address 0x0A000001) 0 Remote \<or>
     p = 16 \<and> net = Ipv4Address 0x0A010000 \<and> f = mk_fib4 (mac_new [2,0,0,0,0,2]) (Ipv4Address 0x0A010001) 1 Remote"
  by (auto simp: route4_def sample_tables_def empty_tables_def nth_list_update split: if_splits)

lemma sample_wf4: "wf4 sample_tables"
proof -
  have m: "ipv4_masked (Ipv4Address 0x0A000000) 8 = Ipv4Address 0x0A000000"
    "ipv4_masked (Ipv4Address 0x0A010000) 16 = Ipv4Address 0x0A010000" by code_simp+
  have "length (ipv4_fib_index sample_tables) = 33" by (simp add: sample_tables_def)
  with m show ?thesis by (auto simp: wf4_def sample_route4)
qed

theorem find_ipv4_fib_longest_match_witness:
  "wf4 sample_tables \<and> \<not> (\<exists>net f. route4 sample_tables 0 net f) \<and>
   find_ipv4_fib sample_tables (Ipv4Address 0x0A010203) 0xffffffff =
     Inr (Some (mk_fib4 (mac_new [2,0,0,0,0,2]) (Ipv4Address 0x0A010001) 1 Remote))"
proof -
  have n0: "\<not> (\<exists>net f. route4 sample_tables 0 net f)" by (simp add: sample_route4)
  have "net_matches 16 (Ipv4Address 0x0A010000) (Ipv4Address 0x0A010203)" by (simp add: net_matches_def)
  then have "best_route4 sample_tables (Ipv4Address 0x0A010203)
      (mk_fib4 (mac_new [2,0,0,0,0,2]) (Ipv4Address 0x0A010001) 1 Remote)"
    by (fastforce simp: best_route4_def sample_route4)
  with find_ipv4_fib_longest_match [OF sample_wf4 n0] sample_wf4 n0 show ?thesis by blast
qed

text \<open>
  C26.  A default route is never used.  The registration of \<^verbatim>\<open>0.0.0.0/0\<close> in any well-formed tables succeeds, and
  the route matches every address; but for every address other than 0.0.0.0, and whatever the mask of the
  lookup, the lookup afterwards gives exactly what it gave before: the mask for the prefix length 0 is a shift by the full width,
  which the release profile turns into a mask that keeps the whole address.
\<close>

theorem default_route_unreachable:
  assumes "wf4 s" and "a \<noteq> Ipv4Address 0"
  shows "\<exists>s'. register_ipv4_fib (Ipv4Address 0) 0 mac nh i t s = Inr s' \<and>
    route4 s' 0 (Ipv4Address 0) (mk_fib4 mac nh i t) \<and> net_matches 0 (Ipv4Address 0) a \<and>
    find_ipv4_fib s' a netmask = find_ipv4_fib s a netmask"
proof -
  have e: "length (ipv4_fib_index s) = 33" using assms(1) by (simp add: wf4_def)
  define s' where "s' = s\<lparr>ipv4_fib_index := (ipv4_fib_index s)[0 := (ipv4_fib_index s ! 0)(Ipv4Address 0 \<mapsto> mk_fib4 mac nh i t)]\<rparr>"
  have "register_ipv4_fib (Ipv4Address 0) 0 mac nh i t s = Inr s'" by (simp add: register_ipv4_fib_ok [OF e] s'_def)
  moreover have "probe4 (ipv4_fib_index s') a j = probe4 (ipv4_fib_index s) a j" for j
    using assms(2) e by (cases j) (simp_all add: probe4_def s'_def)
  then have "find_ipv4_fib s' a netmask = find_ipv4_fib s a netmask"
    unfolding find_ipv4_fib_def by (intro v4_search.search_cong) (simp_all add: s'_def)
  moreover have "net_matches 0 (Ipv4Address 0) a" by (simp add: net_matches_def drop_bit_word_beyond)
  moreover have "route4 s' 0 (Ipv4Address 0) (mk_fib4 mac nh i t)" using e by (simp add: route4_def s'_def)
  ultimately show ?thesis by blast
qed

text \<open>On the tables of the sample an address without a route stays without one.\<close>

theorem default_route_unreachable_witness:
  "\<exists>s. register_ipv4_fib (Ipv4Address 0) 0 (mac_new [0,0,0,0,0,0]) (Ipv4Address 1) 0 Remote sample_tables = Inr s \<and>
     find_ipv4_fib s (Ipv4Address 0x0B000005) 0xffffffff = Inr None"
proof -
  have "find_ipv4_fib sample_tables (Ipv4Address 0x0B000005) 0xffffffff = Inr None"
    unfolding find_ipv4_fib_def sample_tables_def by code_simp
  with default_route_unreachable [OF sample_wf4, of "Ipv4Address 0x0B000005" "mac_new [0,0,0,0,0,0]" "Ipv4Address 1" 0 Remote "0xffffffff"]
  show ?thesis by auto
qed

section \<open>IPv6 forwarding\<close>

definition wf6 :: "fib_tables \<Rightarrow> bool" where
  "wf6 s \<longleftrightarrow> length (ipv6_fib_index s) = 129"

lemma wf6_empty: "wf6 empty_tables"
  by (simp add: wf6_def empty_tables_def)

lemma register_ipv6_fib_ok:
  assumes "wf6 s" "unat prefix \<le> 128"
  shows "register_ipv6_fib a prefix mac nh i t s =
    Inr (s\<lparr>ipv6_fib_index := (ipv6_fib_index s)[unat prefix :=
      (ipv6_fib_index s ! unat prefix)(a \<mapsto> mk_fib6 mac nh i t)]\<rparr>)"
  using assms by (simp add: register_ipv6_fib_def get_at_def mk_fib6_def wf6_def)

lemma register_ipv6_fib_oob:
  "wf6 s \<Longrightarrow> 128 < unat prefix \<Longrightarrow> register_ipv6_fib a prefix mac nh i t s = Inl Index_OOB"
  by (simp add: register_ipv6_fib_def get_at_def wf6_def)

text \<open>
  The IPv6 lookup with prefix length 128 is an exact match: the entry it returns is registered
  for the address itself, at the longest prefix length where there is one; a route for a network
  of the address is never found.
\<close>

theorem find_ipv6_fib_exact:
  assumes "wf6 s"
  shows "(find_ipv6_fib s a 128 = Inr (Some f) \<longleftrightarrow>
      (\<exists>p\<le>128. (ipv6_fib_index s ! p) a = Some f \<and>
         (\<forall>q. p < q \<and> q \<le> 128 \<longrightarrow> (ipv6_fib_index s ! q) a = None))) \<and>
    (find_ipv6_fib s a 128 = Inr None \<longleftrightarrow> (\<forall>p\<le>128. (ipv6_fib_index s ! p) a = None))"
  using assms v6_search.search_Some_iff [of 128 "ipv6_fib_index s" "(a, 128)" f]
    v6_search.search_None_iff [of 128 "ipv6_fib_index s" "(a, 128)"]
  by (simp add: find_ipv6_fib_def wf6_def probe6_def)

theorem find_ipv6_fib_exact_witness:
  "wf6 empty_tables \<and> find_ipv6_fib empty_tables (Ipv6Address 1) 128 = Inr None"
  using find_ipv6_fib_exact [OF wf6_empty, of "Ipv6Address 1"] wf6_empty by (simp add: empty_tables_def)

end
