(* ===== verification/Packet_Buffer.thy ===== *)
theory Packet_Buffer
  imports Rust_Prelude
begin

text \<open>
  The packet buffers of \<^verbatim>\<open>src/src/devices/buffer.rs\<close>.  A buffer is its address, the size that was
  asked for, the current position and the bytes of its allocation; the length of the byte list is
  the size of the layout.  The global allocator is not part of the sources: it is a parameter that
  gives, for the n-th allocation, an address and the bytes that happen to be there.  Allocations
  are taken to succeed.
\<close>

section \<open>Allocation\<close>

type_synonym heap_source = "nat \<Rightarrow> u64 \<times> (nat \<Rightarrow> u8)"

datatype buffer_error = LayoutError

record buffer =
  buf_ptr :: u64
  buf_size :: usize
  buf_position :: usize
  buf_mem :: "u8 list"

text \<open>
  \<^verbatim>\<open>Layout::from_size_align\<close> accepts a power of two as the alignment and a size that does not
  overflow \<^verbatim>\<open>usize\<close> when it is rounded up to the alignment.
\<close>

definition is_power_of_two :: "usize \<Rightarrow> bool" where
  "is_power_of_two a \<longleftrightarrow> a \<noteq> 0 \<and> a AND (a - 1) = 0"

definition layout_ok :: "usize \<Rightarrow> usize \<Rightarrow> bool" where
  "layout_ok sz align \<longleftrightarrow> is_power_of_two align \<and> sz \<le> - 1 - (align - 1)"

definition align_up :: "usize \<Rightarrow> usize \<Rightarrow> usize" where
  "align_up sz align = ((sz - 1) div align + 1) * align"

definition buffer_new ::
  "heap_source \<Rightarrow> usize \<Rightarrow> usize \<Rightarrow> nat \<Rightarrow> (buffer_error + buffer \<times> nat) res"
where
  "buffer_new heap sz align n =
     (if align = 0 then Inl Divide_by_zero
      else
        let actual_size = align_up sz align
        in if layout_ok actual_size align
           then Inr (Inr
             (\<lparr>buf_ptr = fst (heap n), buf_size = sz, buf_position = 0,
               buf_mem = map (snd (heap n)) [0..<unat actual_size]\<rparr>, Suc n))
           else Inr (Inl LayoutError))"

section \<open>Operations\<close>

definition buffer_slide_position :: "usize \<Rightarrow> buffer \<Rightarrow> buffer" where
  "buffer_slide_position delta b = b\<lparr>buf_position := buf_position b + delta\<rparr>"

definition buffer_get_address :: "buffer \<Rightarrow> u64" where
  "buffer_get_address b = buf_ptr b"

definition buffer_get_size :: "buffer \<Rightarrow> usize" where
  "buffer_get_size b = buf_size b"

text \<open>
  \<^verbatim>\<open>slice\<close> and \<^verbatim>\<open>slice_mut\<close> hand out the bytes from the position to the end of the layout; a
  position behind the end leaves the allocation.  A write through \<^verbatim>\<open>slice_mut\<close> is the second
  operation: it puts the changed bytes back.
\<close>

definition buffer_slice :: "buffer \<Rightarrow> u8 list res" where
  "buffer_slice b =
     (if unat (buf_position b) \<le> length (buf_mem b)
      then Inr (drop (unat (buf_position b)) (buf_mem b)) else Inl Unsafe_OOB)"

definition buffer_put_slice :: "u8 list \<Rightarrow> buffer \<Rightarrow> buffer" where
  "buffer_put_slice sl b = b\<lparr>buf_mem := take (unat (buf_position b)) (buf_mem b) @ sl\<rparr>"

section \<open>Lemmas\<close>

lemma layout_ok_page: "unat sz \<le> 2 ^ 64 - 4096 \<Longrightarrow> layout_ok sz 4096"
  by (simp add: layout_ok_def is_power_of_two_def word_le_nat_alt)

text \<open>Rounding a size up to pages of 4096 bytes, as long as it does not overflow.\<close>

lemma unat_align_up:
  assumes "0 < unat sz" "unat sz \<le> 2 ^ 63"
  shows "unat (align_up sz 4096) = ((unat sz - 1) div 4096 + 1) * 4096"
proof -
  have "sz \<noteq> 0" using assms(1) by auto
  then have "unat (sz - 1) = unat sz - 1" by (simp add: unat_minus_one)
  then have "unat ((sz - 1) div 4096) = (unat sz - 1) div 4096" by (simp add: unat_div)
  then have "(sz - 1) div 4096 = of_nat ((unat sz - 1) div 4096)"
    by (metis of_nat_unat ucast_id)
  then have eq: "align_up sz 4096 = of_nat (((unat sz - 1) div 4096 + 1) * 4096)"
    by (simp add: align_up_def)
  show ?thesis unfolding eq using assms(2) by (intro unat_of_nat_small) simp
qed

lemma buffer_new_pages:
  assumes "0 < unat sz" "unat sz \<le> 2 ^ 63"
  shows "\<exists>b. buffer_new heap sz 4096 n = Inr (Inr (b, Suc n)) \<and> buf_size b = sz \<and>
     buf_position b = 0 \<and> buf_ptr b = fst (heap n) \<and>
     length (buf_mem b) = ((unat sz - 1) div 4096 + 1) * 4096"
proof -
  have "unat (align_up sz 4096) \<le> 2 ^ 64 - 4096"
    unfolding unat_align_up [OF assms] using assms(2) by simp
  then show ?thesis
    using unat_align_up [OF assms] by (simp add: buffer_new_def Let_def layout_ok_page)
qed

text \<open>A size of zero wraps around to a layout without any byte.\<close>

lemma buffer_new_zero:
  "\<exists>b. buffer_new heap 0 4096 n = Inr (Inr (b, Suc n)) \<and> buf_mem b = []"
  by (simp add: buffer_new_def Let_def layout_ok_page align_up_def)

lemma buffer_slice_put:
  assumes "buffer_slice b = Inr sl" "length sl' = length sl"
  shows "buffer_slice (buffer_put_slice sl' b) = Inr sl'"
  using assms by (auto simp: buffer_slice_def buffer_put_slice_def split: if_splits)

end
