(* ===== verification/Virt_Queue.thy ===== *)
theory Virt_Queue
  imports Packet_Buffer
begin

text \<open>
  The split virtqueue of \<^verbatim>\<open>src/src/devices/virtio.rs\<close>: the descriptor table, the available ring and
  the used ring in memory shared with the device, and the driver's own bookkeeping.  The driver's
  operations are \<^verbatim>\<open>new\<close>, \<^verbatim>\<open>push\<close>, \<^verbatim>\<open>pop\<close> and \<^verbatim>\<open>get_avail_free_size\<close>; the device completes
  descriptors by writing the used ring and its index, which is a step of the environment.

  The lemmas show the layout of the shared memory, the invariant of the ring under wrap-around of
  its 16-bit indices, and that for a device that completes descriptors in order the queue refines
  a list of buffers: \<open>push\<close> appends, \<open>pop\<close> takes the completed prefix.
\<close>

section \<open>State\<close>

record vq_descriptor =
  desc_addr :: u64
  desc_len :: u32
  desc_flags :: u16
  desc_next :: u16

record vq_used_element =
  used_id :: u32
  used_len :: u32

record virtqueue =
  vq_base_addr :: u64
  vq_size :: u16
  vq_descriptor :: "vq_descriptor list"
  vq_avail_flags :: u16
  vq_avail_idx :: u16
  vq_avail_ring :: "u16 list"
  vq_used_flags :: u16
  vq_used_idx :: u16
  vq_used_ring :: "vq_used_element list"
  vq_buffers :: "buffer option list"
  vq_free_head :: u16
  vq_last_used_idx :: u16
  vq_is_indirect :: bool

section \<open>Layout of the shared memory\<close>

text \<open>The size of the first part, the descriptor table and the available ring, in whole pages.\<close>

definition vq_used_offset :: "u16 \<Rightarrow> usize" where
  "vq_used_offset sz =
     ((16 * ucast sz + 3 * 2 + 2 * ucast sz - 1) div 4096 + 1) * 4096"

definition vq_alloc_size :: "u16 \<Rightarrow> usize" where
  "vq_alloc_size sz =
     ((16 * ucast sz + 3 * 2 + 2 * ucast sz - 1) div 4096 + 1) * 4096 +
     ((3 * 2 + 8 * ucast sz - 1) div 4096 + 1) * 4096"

definition vq_get_descriptor_addr :: "virtqueue \<Rightarrow> u64" where
  "vq_get_descriptor_addr q = vq_base_addr q"

definition vq_get_avail_addr :: "virtqueue \<Rightarrow> u64" where
  "vq_get_avail_addr q = vq_base_addr q + 16 * ucast (vq_size q)"

definition vq_get_used_addr :: "virtqueue \<Rightarrow> u64" where
  "vq_get_used_addr q =
     vq_base_addr q + ((16 * ucast (vq_size q) + 3 * 2 + 2 * ucast (vq_size q) - 1) div 4096 + 1) * 4096"

definition of_le32 :: "u8 list \<Rightarrow> u32" where
  "of_le32 bs = (ucast (bs ! 0) OR push_bit 8 (ucast (bs ! 1)) OR push_bit 16 (ucast (bs ! 2)) OR
                 push_bit 24 (ucast (bs ! 3)))"

text \<open>
  \<^verbatim>\<open>Virtqueue::new\<close>: the flags, the indices and the descriptors are initialised, the two rings
  keep whatever the allocated memory holds.
\<close>

definition vq_new :: "heap_source \<Rightarrow> u16 \<Rightarrow> bool \<Rightarrow> bool \<Rightarrow> nat \<Rightarrow> (virtqueue \<times> nat) res" where
  "vq_new heap sz is_indirect used_interrupt n =
     (if layout_ok (vq_alloc_size sz) 4096 then
        let junk = snd (heap n); avail = 16 * unat sz + 4; used = unat (vq_used_offset sz) + 4 in
        Inr
         (\<lparr>vq_base_addr = fst (heap n),
           vq_size = sz,
           vq_descriptor = replicate (unat sz) \<lparr>desc_addr = 0, desc_len = 0, desc_flags = 0, desc_next = 0\<rparr>,
           vq_avail_flags = (if used_interrupt then 0 else 1),
           vq_avail_idx = 0,
           vq_avail_ring = map (\<lambda>i. of_le16 [junk (avail + 2 * i), junk (avail + 2 * i + 1)]) [0..<unat sz],
           vq_used_flags = 0,
           vq_used_idx = 0,
           vq_used_ring = map (\<lambda>i.
             \<lparr>used_id = of_le32 (map (\<lambda>j. junk (used + 8 * i + j)) [0..<4]),
              used_len = of_le32 (map (\<lambda>j. junk (used + 8 * i + 4 + j)) [0..<4])\<rparr>) [0..<unat sz],
           vq_buffers = replicate (unat sz) None,
           vq_free_head = 0,
           vq_last_used_idx = 0,
           vq_is_indirect = is_indirect\<rparr>, Suc n)
      else Inl Explicit_panic)"

section \<open>Operations of the driver\<close>

definition vq_get_avail_free_size :: "virtqueue \<Rightarrow> u16" where
  "vq_get_avail_free_size q =
     (if vq_used_idx q \<le> vq_avail_idx q
      then vq_size q - (vq_avail_idx q - vq_used_idx q)
      else vq_used_idx q - vq_avail_idx q)"

definition vq_push :: "buffer \<Rightarrow> bool \<Rightarrow> virtqueue \<Rightarrow> virtqueue res" where
  "vq_push b is_guest q =
     (let desc_idx = unat (vq_free_head q) in
      rbind (set_at (vq_avail_ring q) (unat (vq_avail_idx q AND (vq_size q - 1))) (of_nat desc_idx)) (\<lambda>ring.
      rbind (get_at (vq_descriptor q) desc_idx) (\<lambda>d.
      rbind (set_at (vq_buffers q) desc_idx (Some b)) (\<lambda>bufs.
        let desc = d\<lparr>desc_addr := buffer_get_address b, desc_len := ucast (buffer_get_size b),
                     desc_flags := (if is_guest then 0 else 2),
                     desc_next := (of_nat desc_idx + 1) AND (vq_size q - 1)\<rparr>
        in Inr (q\<lparr>vq_avail_ring := ring, vq_avail_idx := vq_avail_idx q + 1,
                  vq_descriptor := (vq_descriptor q)[desc_idx := desc], vq_buffers := bufs,
                  vq_free_head := (of_nat desc_idx + 1) AND (vq_size q - 1)\<rparr>)))))"

text \<open>One iteration of the loop of \<^verbatim>\<open>pop\<close>.\<close>

definition vq_pop_one :: "virtqueue \<Rightarrow> (buffer list \<times> virtqueue) res" where
  "vq_pop_one q =
     rbind (get_at (vq_used_ring q) (unat (vq_last_used_idx q AND (vq_size q - 1)))) (\<lambda>e.
     let desc_idx = unat (used_id e) in
     rbind (get_at (vq_descriptor q) desc_idx) (\<lambda>_.
     rbind (get_at (vq_buffers q) desc_idx) (\<lambda>slot.
     Inr (case slot of Some buff \<Rightarrow> [buff] | None \<Rightarrow> [],
          q\<lparr>vq_buffers := (vq_buffers q)[desc_idx := None],
            vq_last_used_idx := vq_last_used_idx q + 1\<rparr>))))"

lemma vq_pop_one_idx:
  assumes "vq_pop_one q = Inr (bs, q')"
  shows "vq_last_used_idx q' = vq_last_used_idx q + 1 \<and> vq_used_idx q' = vq_used_idx q"
  using assms by (auto simp: vq_pop_one_def Let_def rbind_eq_Inr)

function vq_pop_loop :: "virtqueue \<Rightarrow> buffer list \<Rightarrow> (buffer list \<times> virtqueue) res" where
  "vq_pop_loop q ret =
     (if vq_last_used_idx q = vq_used_idx q then Inr (ret, q)
      else case vq_pop_one q of
             Inl e \<Rightarrow> Inl e
           | Inr (bs, q') \<Rightarrow> vq_pop_loop q' (ret @ bs))"
  by pat_completeness auto
termination
proof (relation "measure (\<lambda>(q, ret). unat (vq_used_idx q - vq_last_used_idx q))")
  fix q ret r bs q'
  assume ne: "vq_last_used_idx q \<noteq> vq_used_idx q" and one: "vq_pop_one q = Inr r" "(bs, q') = r"
  have "vq_used_idx q' - vq_last_used_idx q' = vq_used_idx q - vq_last_used_idx q - 1"
    using vq_pop_one_idx [of q bs q'] one by simp
  moreover have "vq_used_idx q - vq_last_used_idx q \<noteq> 0" using ne by simp
  ultimately show "((q', ret @ bs), q, ret) \<in> measure (\<lambda>(q, ret). unat (vq_used_idx q - vq_last_used_idx q))"
    using unat_decr_less [of "vq_used_idx q - vq_last_used_idx q"] by simp
qed simp

definition vq_pop :: "virtqueue \<Rightarrow> (buffer list \<times> virtqueue) res" where
  "vq_pop q = vq_pop_loop q []"

declare vq_pop_loop.simps [simp del]

section \<open>The device\<close>

text \<open>
  A completion by the device: the used ring gets the descriptor and the number of bytes written,
  the used index advances, and the buffer behind the descriptor holds the bytes the device wrote.
\<close>

definition dev_complete :: "u32 \<Rightarrow> u8 list \<Rightarrow> virtqueue \<Rightarrow> virtqueue" where
  "dev_complete d bytes q =
     q\<lparr>vq_used_ring := (vq_used_ring q)[unat (vq_used_idx q AND (vq_size q - 1)) :=
         \<lparr>used_id = d, used_len = of_nat (length bytes)\<rparr>],
       vq_used_idx := vq_used_idx q + 1,
       vq_buffers := (case vq_buffers q ! unat d of
          Some b \<Rightarrow> (vq_buffers q)[unat d := Some (b\<lparr>buf_mem := bytes @ drop (length bytes) (buf_mem b)\<rparr>)]
        | None \<Rightarrow> vq_buffers q)\<rparr>"

section \<open>The invariant of the ring\<close>

text \<open>
  The size of a split virtqueue is a power of two, at most 32768.  The buffers between the last
  popped and the last pushed index are pending; the device has completed a prefix of them.
\<close>

definition vq_wf :: "virtqueue \<Rightarrow> bool" where
  "vq_wf q \<longleftrightarrow> (\<exists>k\<le>15. vq_size q = 2 ^ k) \<and>
     length (vq_descriptor q) = unat (vq_size q) \<and> length (vq_avail_ring q) = unat (vq_size q) \<and>
     length (vq_used_ring q) = unat (vq_size q) \<and> length (vq_buffers q) = unat (vq_size q) \<and>
     unat (vq_free_head q) = unat (vq_avail_idx q) mod unat (vq_size q)"

definition vq_pending :: "virtqueue \<Rightarrow> nat" where
  "vq_pending q = unat (vq_avail_idx q - vq_last_used_idx q)"

definition vq_completed :: "virtqueue \<Rightarrow> nat" where
  "vq_completed q = unat (vq_used_idx q - vq_last_used_idx q)"

definition vq_slot :: "virtqueue \<Rightarrow> nat \<Rightarrow> nat" where
  "vq_slot q i = (unat (vq_last_used_idx q) + i) mod unat (vq_size q)"

definition vq_posted :: "virtqueue \<Rightarrow> nat \<Rightarrow> bool" where
  "vq_posted q j \<longleftrightarrow> (case vq_buffers q ! j of None \<Rightarrow> False | Some b \<Rightarrow>
     desc_addr (vq_descriptor q ! j) = buf_ptr b \<and>
     desc_len (vq_descriptor q ! j) = ucast (buf_size b) \<and>
     vq_avail_ring q ! j = of_nat j)"

definition vq_inv :: "virtqueue \<Rightarrow> bool" where
  "vq_inv q \<longleftrightarrow> vq_wf q \<and> vq_completed q \<le> vq_pending q \<and> vq_pending q \<le> unat (vq_size q) \<and>
     (\<forall>i<vq_pending q. vq_posted q (vq_slot q i)) \<and>
     (\<forall>i<vq_completed q. unat (used_id (vq_used_ring q ! vq_slot q i)) = vq_slot q i)"

definition vq_items :: "virtqueue \<Rightarrow> buffer list" where
  "vq_items q = map (\<lambda>i. the (vq_buffers q ! vq_slot q i)) [0..<vq_pending q]"

lemma length_vq_items [simp]: "length (vq_items q) = vq_pending q"
  by (simp add: vq_items_def)

lemma vq_wf_lengths:
  assumes "vq_wf q"
  shows "length (vq_descriptor q) = unat (vq_size q)" "length (vq_avail_ring q) = unat (vq_size q)"
    "length (vq_used_ring q) = unat (vq_size q)" "length (vq_buffers q) = unat (vq_size q)"
  using assms by (simp_all add: vq_wf_def)

lemma vq_wf_size:
  assumes "vq_wf q"
  obtains k where "k \<le> 15" "vq_size q = 2 ^ k" "unat (vq_size q) = 2 ^ k"
proof -
  obtain k where k: "k \<le> 15" "vq_size q = 2 ^ k" using assms by (auto simp: vq_wf_def)
  have "(2::nat) ^ k < 2 ^ 16" using k(1) by (intro power_strict_increasing) simp_all
  then have "unat (vq_size q) = 2 ^ k" using k(2) unat_of_nat_small [of "2 ^ k", where 'a = 16] by simp
  with k that show ?thesis by blast
qed

lemma vq_size_bounds:
  assumes "vq_wf q" shows "0 < unat (vq_size q)" "unat (vq_size q) \<le> 32768"
proof -
  obtain k where k: "k \<le> 15" "unat (vq_size q) = 2 ^ k" using assms by (rule vq_wf_size)
  show "0 < unat (vq_size q)" by (simp add: k(2))
  have "(2::nat) ^ k \<le> 2 ^ 15" using k(1) by (rule power_increasing) simp
  then show "unat (vq_size q) \<le> 32768" by (simp add: k(2))
qed

text \<open>The mask of the code is a remainder, also when the 16-bit index wraps around.\<close>

lemma vq_mask_index:
  assumes "vq_wf q" shows "unat (x AND (vq_size q - 1)) = unat x mod unat (vq_size q)"
proof -
  obtain k where "vq_size q = 2 ^ k" "unat (vq_size q) = 2 ^ k" using assms by (rule vq_wf_size)
  then show ?thesis using unat_and_pow_minus_1 [of x k] by simp
qed

lemma vq_index_add:
  assumes "vq_wf q"
  shows "unat (x + y :: u16) mod unat (vq_size q) = (unat x + unat y) mod unat (vq_size q)"
proof -
  obtain k where "k \<le> 15" "unat (vq_size q) = 2 ^ k" using assms by (rule vq_wf_size)
  then show ?thesis using unat_add_mod_pow [of k x y] by simp
qed

lemma vq_slot_less: "vq_wf q \<Longrightarrow> vq_slot q i < unat (vq_size q)"
  using vq_size_bounds(1) by (simp add: vq_slot_def)

lemma vq_slot_inj:
  assumes "vq_slot q i = vq_slot q j" "i < unat (vq_size q)" "j < unat (vq_size q)"
  shows "i = j"
proof -
  have "j \<le> i" if "vq_slot q i = vq_slot q j" "i < unat (vq_size q)" "j < unat (vq_size q)" for i j
  proof (rule ccontr)
    assume "\<not> j \<le> i"
    then have "unat (vq_size q) dvd j - i"
      using that(1) [symmetric]
        mod_eq_dvd_iff_nat [of "unat (vq_last_used_idx q) + i" "unat (vq_last_used_idx q) + j"]
      by (simp add: vq_slot_def)
    with \<open>\<not> j \<le> i\<close> that(3) show False by (auto dest: dvd_imp_le)
  qed
  from this [OF assms] this [OF assms(1) [symmetric] assms(3,2)] show ?thesis by simp
qed

section \<open>Refinement of a list of buffers\<close>

text \<open>The next free descriptor is the slot behind the pending ones.\<close>

lemma vq_free_head_slot:
  assumes "vq_wf q" shows "unat (vq_free_head q) = vq_slot q (vq_pending q)"
proof -
  have "unat (vq_avail_idx q) mod unat (vq_size q) =
      unat (vq_last_used_idx q + (vq_avail_idx q - vq_last_used_idx q)) mod unat (vq_size q)" by simp
  also have "\<dots> = vq_slot q (vq_pending q)"
    unfolding vq_index_add [OF assms] by (simp add: vq_slot_def vq_pending_def)
  finally show ?thesis using assms by (simp add: vq_wf_def)
qed

lemma vq_used_slot:
  assumes "vq_wf q"
  shows "unat (vq_used_idx q AND (vq_size q - 1)) = vq_slot q (vq_completed q)"
proof -
  have "unat (vq_used_idx q) mod unat (vq_size q) =
      unat (vq_last_used_idx q + (vq_used_idx q - vq_last_used_idx q)) mod unat (vq_size q)" by simp
  also have "\<dots> = vq_slot q (vq_completed q)"
    unfolding vq_index_add [OF assms] by (simp add: vq_slot_def vq_completed_def)
  finally show ?thesis by (simp add: vq_mask_index [OF assms])
qed

lemma vq_last_used_slot:
  "vq_wf q \<Longrightarrow> unat (vq_last_used_idx q AND (vq_size q - 1)) = vq_slot q 0"
  by (simp add: vq_mask_index vq_slot_def)

text \<open>The state after a push into a well-formed queue: no index is out of range.\<close>

definition vq_after_push :: "buffer \<Rightarrow> bool \<Rightarrow> virtqueue \<Rightarrow> virtqueue" where
  "vq_after_push b is_guest q =
     (let j = unat (vq_free_head q); nxt = (vq_free_head q + 1) AND (vq_size q - 1) in
      q\<lparr>vq_avail_ring := (vq_avail_ring q)[j := of_nat j], vq_avail_idx := vq_avail_idx q + 1,
        vq_descriptor := (vq_descriptor q)[j := (vq_descriptor q ! j)
           \<lparr>desc_addr := buf_ptr b, desc_len := ucast (buf_size b),
            desc_flags := (if is_guest then 0 else 2), desc_next := nxt\<rparr>],
        vq_buffers := (vq_buffers q)[j := Some b], vq_free_head := nxt\<rparr>)"

lemma vq_push_ok:
  assumes "vq_wf q" shows "vq_push b g q = Inr (vq_after_push b g q)"
proof -
  have "unat (vq_avail_idx q AND (vq_size q - 1)) = unat (vq_free_head q)"
    using assms by (simp add: vq_mask_index vq_wf_def)
  moreover have "unat (vq_free_head q) < unat (vq_size q)"
    using vq_slot_less [OF assms] vq_free_head_slot [OF assms] by simp
  ultimately show ?thesis using vq_wf_lengths [OF assms]
    by (simp add: vq_push_def vq_after_push_def Let_def slice_simps
        buffer_get_address_def buffer_get_size_def)
qed

lemma vq_after_push_wf:
  assumes "vq_wf q" shows "vq_wf (vq_after_push b g q)"
proof -
  have "unat ((vq_free_head q + 1) AND (vq_size q - 1)) = (unat (vq_free_head q) + 1) mod unat (vq_size q)"
    using vq_index_add [OF assms, of "vq_free_head q" 1] by (simp add: vq_mask_index [OF assms])
  also have "\<dots> = (unat (vq_avail_idx q) + 1) mod unat (vq_size q)"
    using assms by (simp add: vq_wf_def mod_Suc_eq)
  also have "\<dots> = unat (vq_avail_idx q + 1) mod unat (vq_size q)"
    using vq_index_add [OF assms, of "vq_avail_idx q" 1] by simp
  finally show ?thesis using assms by (auto simp: vq_wf_def vq_after_push_def Let_def)
qed

lemma vq_after_push_fields [simp]:
  "vq_size (vq_after_push b g q) = vq_size q"
  "vq_last_used_idx (vq_after_push b g q) = vq_last_used_idx q"
  "vq_used_idx (vq_after_push b g q) = vq_used_idx q"
  "vq_used_ring (vq_after_push b g q) = vq_used_ring q"
  "vq_avail_idx (vq_after_push b g q) = vq_avail_idx q + 1"
  "vq_slot (vq_after_push b g q) = vq_slot q"
  "vq_completed (vq_after_push b g q) = vq_completed q"
  by (simp_all add: vq_after_push_def Let_def vq_slot_def fun_eq_iff vq_completed_def)

lemma vq_pending_after_push:
  assumes "vq_pending q < 65535" shows "vq_pending (vq_after_push b g q) = Suc (vq_pending q)"
proof -
  have eq: "vq_avail_idx q + 1 - vq_last_used_idx q = (vq_avail_idx q - vq_last_used_idx q) + 1" by simp
  show ?thesis using assms unat_word_ariths(1) [of "vq_avail_idx q - vq_last_used_idx q" 1]
    by (simp add: vq_pending_def eq del: diff_add_eq)
qed

lemma vq_posted_after_push:
  assumes "vq_wf q" "j < unat (vq_size q)"
  shows "vq_posted (vq_after_push b g q) j \<longleftrightarrow> j = unat (vq_free_head q) \<or> vq_posted q j"
proof (cases "j = unat (vq_free_head q)")
  case True
  then show ?thesis using assms vq_wf_lengths [OF assms(1)]
    by (simp add: vq_posted_def vq_after_push_def Let_def)
next
  case False
  then show ?thesis by (simp add: vq_posted_def vq_after_push_def Let_def split: option.split)
qed

lemma vq_buffers_after_push:
  assumes "vq_wf q" "i < vq_pending q" "vq_pending q < unat (vq_size q)"
  shows "vq_buffers (vq_after_push b g q) ! vq_slot q i = vq_buffers q ! vq_slot q i"
proof -
  have "vq_slot q i \<noteq> vq_slot q (vq_pending q)"
    using assms vq_slot_inj [of q i "vq_pending q"] by auto
  then show ?thesis using vq_free_head_slot [OF assms(1)] by (simp add: vq_after_push_def Let_def)
qed

lemma vq_push_refines:
  assumes "vq_inv q" "vq_pending q < unat (vq_size q)"
  shows "vq_inv (vq_after_push b g q) \<and> vq_items (vq_after_push b g q) = vq_items q @ [b]"
proof -
  let ?q = "vq_after_push b g q"
  have wf: "vq_wf q" using assms(1) by (simp add: vq_inv_def)
  have sz: "unat (vq_size q) \<le> 32768" by (rule vq_size_bounds [OF wf])
  have pend: "vq_pending ?q = Suc (vq_pending q)"
    using assms(2) sz by (intro vq_pending_after_push) simp
  have head: "unat (vq_free_head q) = vq_slot q (vq_pending q)" by (rule vq_free_head_slot [OF wf])
  have new: "vq_buffers ?q ! vq_slot q (vq_pending q) = Some b"
    using vq_wf_lengths [OF wf] vq_slot_less [OF wf] by (simp add: vq_after_push_def Let_def head)
  have "vq_posted ?q (vq_slot q i)" if "i < Suc (vq_pending q)" for i
    using that assms(1) head
    by (auto simp: vq_posted_after_push [OF wf vq_slot_less [OF wf]] less_Suc_eq vq_inv_def)
  then have "vq_inv ?q"
    using assms vq_after_push_wf [OF wf] by (simp add: vq_inv_def pend)
  moreover have "vq_items ?q = vq_items q @ [b]"
    using vq_buffers_after_push [OF wf _ assms(2)] by (simp add: vq_items_def pend new)
  ultimately show ?thesis by simp
qed

text \<open>A completion in order: the device completes the oldest buffer that is not completed yet.\<close>

definition dev_complete_next :: "u8 list \<Rightarrow> virtqueue \<Rightarrow> virtqueue" where
  "dev_complete_next bytes q = dev_complete (of_nat (vq_slot q (vq_completed q))) bytes q"

lemma dev_complete_fields [simp]:
  "vq_size (dev_complete d bs q) = vq_size q"
  "vq_last_used_idx (dev_complete d bs q) = vq_last_used_idx q"
  "vq_avail_idx (dev_complete d bs q) = vq_avail_idx q"
  "vq_avail_ring (dev_complete d bs q) = vq_avail_ring q"
  "vq_descriptor (dev_complete d bs q) = vq_descriptor q"
  "vq_free_head (dev_complete d bs q) = vq_free_head q"
  "vq_used_idx (dev_complete d bs q) = vq_used_idx q + 1"
  "length (vq_used_ring (dev_complete d bs q)) = length (vq_used_ring q)"
  "length (vq_buffers (dev_complete d bs q)) = length (vq_buffers q)"
  "vq_slot (dev_complete d bs q) = vq_slot q"
  "vq_pending (dev_complete d bs q) = vq_pending q"
  by (simp_all add: dev_complete_def vq_slot_def fun_eq_iff vq_pending_def split: option.split)

lemma dev_complete_wf [simp]: "vq_wf (dev_complete d bs q) \<longleftrightarrow> vq_wf q"
  by (simp add: vq_wf_def)

lemma dev_complete_buffers:
  assumes "unat d < length (vq_buffers q)"
  shows "map_option buf_ptr (vq_buffers (dev_complete d bs q) ! j) = map_option buf_ptr (vq_buffers q ! j)"
    and "map_option buf_size (vq_buffers (dev_complete d bs q) ! j) = map_option buf_size (vq_buffers q ! j)"
  using assms by (cases "j = unat d"; auto simp: dev_complete_def split: option.split)+

lemma dev_complete_posted:
  assumes "unat d < length (vq_buffers q)"
  shows "vq_posted (dev_complete d bs q) j \<longleftrightarrow> vq_posted q j"
  using dev_complete_buffers [OF assms, of bs j]
  by (auto simp: vq_posted_def split: option.splits)

lemma vq_completed_Suc:
  assumes "vq_completed q < 65535"
  shows "unat (vq_used_idx q + 1 - vq_last_used_idx q) = Suc (vq_completed q)"
proof -
  have eq: "vq_used_idx q + 1 - vq_last_used_idx q = (vq_used_idx q - vq_last_used_idx q) + 1" by simp
  show ?thesis using assms unat_word_ariths(1) [of "vq_used_idx q - vq_last_used_idx q" 1]
    by (simp add: vq_completed_def eq del: diff_add_eq)
qed

lemma dev_complete_next_refines:
  assumes "vq_inv q" "vq_completed q < vq_pending q"
  shows "vq_inv (dev_complete_next bs q) \<and>
    map buf_ptr (vq_items (dev_complete_next bs q)) = map buf_ptr (vq_items q) \<and>
    vq_completed (dev_complete_next bs q) = Suc (vq_completed q) \<and>
    vq_pending (dev_complete_next bs q) = vq_pending q"
proof -
  let ?d = "of_nat (vq_slot q (vq_completed q)) :: u32"
  let ?q = "dev_complete ?d bs q"
  have wf: "vq_wf q" and pend: "vq_pending q \<le> unat (vq_size q)" using assms(1) by (simp_all add: vq_inv_def)
  note sz = vq_size_bounds(2) [OF wf] and sl = vq_slot_less [OF wf]
  have d: "unat ?d = vq_slot q (vq_completed q)"
    using sz sl [of "vq_completed q"] by (intro unat_of_nat_small) simp
  have dl: "unat ?d < length (vq_buffers q)" using d sl vq_wf_lengths(4) [OF wf] by simp
  have comp: "vq_completed ?q = Suc (vq_completed q)"
    using vq_completed_Suc [of q] assms(2) pend sz by (simp add: vq_completed_def)
  have ids: "unat (used_id (vq_used_ring ?q ! vq_slot q i)) = vq_slot q i" if "i < Suc (vq_completed q)" for i
  proof (cases "i = vq_completed q")
    case True
    then show ?thesis using d sl vq_wf_lengths(3) [OF wf]
      by (simp add: dev_complete_def vq_used_slot [OF wf])
  next
    case False
    with that have i: "i < vq_completed q" by simp
    then have "vq_slot q (vq_completed q) \<noteq> vq_slot q i"
      using vq_slot_inj [of q i "vq_completed q"] assms(2) pend by auto
    with assms(1) i show ?thesis by (simp add: dev_complete_def vq_used_slot [OF wf] vq_inv_def)
  qed
  have "vq_inv ?q" using assms wf ids by (simp add: vq_inv_def comp dev_complete_posted [OF dl])
  moreover have "map buf_ptr (vq_items ?q) = map buf_ptr (vq_items q)"
  proof (simp add: vq_items_def, intro ballI)
    fix i assume "i \<in> {0..<vq_pending q}"
    then have "vq_posted q (vq_slot q i)" using assms(1) by (simp add: vq_inv_def)
    then show "buf_ptr (the (vq_buffers ?q ! vq_slot q i)) = buf_ptr (the (vq_buffers q ! vq_slot q i))"
      using dev_complete_buffers(1) [OF dl, of bs "vq_slot q i"]
      by (auto simp: vq_posted_def split: option.splits)
  qed
  ultimately show ?thesis using comp by (simp add: dev_complete_next_def)
qed

definition vq_after_pop :: "virtqueue \<Rightarrow> virtqueue" where
  "vq_after_pop q = q\<lparr>vq_buffers := (vq_buffers q)[vq_slot q 0 := None],
     vq_last_used_idx := vq_last_used_idx q + 1\<rparr>"

lemma vq_after_pop_fields [simp]:
  "vq_size (vq_after_pop q) = vq_size q" "vq_avail_idx (vq_after_pop q) = vq_avail_idx q"
  "vq_last_used_idx (vq_after_pop q) = vq_last_used_idx q + 1"
  "vq_used_idx (vq_after_pop q) = vq_used_idx q" "vq_used_ring (vq_after_pop q) = vq_used_ring q"
  "vq_descriptor (vq_after_pop q) = vq_descriptor q" "vq_avail_ring (vq_after_pop q) = vq_avail_ring q"
  "vq_wf (vq_after_pop q) \<longleftrightarrow> vq_wf q"
  by (simp_all add: vq_after_pop_def vq_wf_def)

lemma vq_pop_one_ok:
  assumes "vq_inv q" "0 < vq_completed q"
  shows "vq_pop_one q = Inr ([the (vq_buffers q ! vq_slot q 0)], vq_after_pop q)"
proof -
  have wf: "vq_wf q" using assms(1) by (simp add: vq_inv_def)
  have id0: "unat (used_id (vq_used_ring q ! vq_slot q 0)) = vq_slot q 0"
    and "vq_posted q (vq_slot q 0)" using assms by (auto simp: vq_inv_def)
  then obtain b where "vq_buffers q ! vq_slot q 0 = Some b" by (auto simp: vq_posted_def split: option.splits)
  then show ?thesis using vq_slot_less [OF wf, of 0] vq_wf_lengths [OF wf]
    by (simp add: vq_pop_one_def vq_last_used_slot [OF wf] slice_simps id0 vq_after_pop_def Let_def)
qed

lemma vq_after_pop_refines:
  assumes "vq_inv q" "0 < vq_completed q"
  shows "vq_inv (vq_after_pop q) \<and> vq_items (vq_after_pop q) = tl (vq_items q) \<and>
     vq_completed (vq_after_pop q) = vq_completed q - 1"
proof -
  let ?q = "vq_after_pop q"
  have wf: "vq_wf q" and pend: "vq_pending q \<le> unat (vq_size q)" and cp: "vq_completed q \<le> vq_pending q"
    using assms(1) by (simp_all add: vq_inv_def)
  have dec: "unat (x - (y + 1)) = unat (x - y) - 1" if "0 < unat (x - y)" for x y :: u16
  proof -
    have "x - y \<noteq> 0" using that by auto
    then have "unat (x - y - 1) = unat (x - y) - 1" by (simp add: unat_minus_one)
    then show ?thesis by (simp add: diff_diff_eq)
  qed
  have comp: "vq_completed ?q = vq_completed q - 1" and pnd: "vq_pending ?q = vq_pending q - 1"
    using dec assms(2) cp by (simp_all add: vq_completed_def vq_pending_def)
  have slot: "vq_slot ?q i = vq_slot q (Suc i)" for i
    using vq_index_add [OF wf, of "vq_last_used_idx q" 1] by (simp add: vq_slot_def) (metis add_Suc mod_add_left_eq)
  have keep: "vq_buffers ?q ! vq_slot q (Suc i) = vq_buffers q ! vq_slot q (Suc i)"
    if "i < vq_pending q - 1" for i
  proof -
    have "vq_slot q 0 \<noteq> vq_slot q (Suc i)" using vq_slot_inj [of q 0 "Suc i"] that pend by force
    then show ?thesis by (simp add: vq_after_pop_def)
  qed
  have posted: "vq_posted ?q (vq_slot q (Suc i))" if "i < vq_pending q - 1" for i
  proof -
    have "vq_posted q (vq_slot q (Suc i))" using that assms(1) by (simp add: vq_inv_def)
    with keep [OF that] show ?thesis by (simp add: vq_posted_def split: option.splits)
  qed
  have "vq_inv ?q" using assms wf cp pend posted by (auto simp: vq_inv_def comp pnd slot)
  moreover have "vq_items ?q = tl (vq_items q)"
    using keep by (intro nth_equalityI) (simp_all add: vq_items_def pnd slot nth_tl)
  ultimately show ?thesis using comp by simp
qed

lemma vq_items_hd:
  "0 < vq_pending q \<Longrightarrow> vq_items q = the (vq_buffers q ! vq_slot q 0) # tl (vq_items q)"
  by (simp add: vq_items_def upt_conv_Cons)

lemma vq_pop_loop_refines:
  assumes "vq_inv q"
  shows "\<exists>q'. vq_pop_loop q ret = Inr (ret @ take (vq_completed q) (vq_items q), q') \<and> vq_inv q' \<and>
     vq_items q' = drop (vq_completed q) (vq_items q) \<and> vq_completed q' = 0"
  using assms
proof (induction "vq_completed q" arbitrary: q ret)
  case 0
  then have "vq_used_idx q - vq_last_used_idx q = 0" by (metis vq_completed_def unat_eq_zero)
  then have "vq_last_used_idx q = vq_used_idx q" by simp
  with 0 show ?case by (simp add: vq_pop_loop.simps [of q])
next
  case (Suc n)
  let ?q = "vq_after_pop q" and ?b = "the (vq_buffers q ! vq_slot q 0)"
  have pos: "0 < vq_completed q" using Suc.hyps(2) by simp
  have ne: "vq_last_used_idx q \<noteq> vq_used_idx q" using pos by (auto simp: vq_completed_def)
  have items: "vq_items q = ?b # tl (vq_items q)"
    using pos Suc.prems by (intro vq_items_hd) (simp add: vq_inv_def)
  note pop = vq_after_pop_refines [OF Suc.prems pos]
  have n: "n = vq_completed ?q" using pop Suc.hyps(2) by simp
  obtain q' where q': "vq_pop_loop ?q (ret @ [?b]) = Inr ((ret @ [?b]) @ take n (tl (vq_items q)), q')"
    "vq_inv q'" "vq_items q' = drop n (tl (vq_items q))" "vq_completed q' = 0"
    using Suc.hyps(1) [OF n, of "ret @ [?b]"] pop n by auto
  have "vq_pop_loop q ret = vq_pop_loop ?q (ret @ [?b])"
    using ne vq_pop_one_ok [OF Suc.prems pos] by (simp add: vq_pop_loop.simps [of q])
  with q' show ?case unfolding Suc.hyps(2) [symmetric] by (subst (1 2) items) simp
qed

section \<open>The interface of a transfer ring\<close>

text \<open>
  What a client of the queue relies on, for any operations on it: a queue stands for a list of
  items, of which a prefix is ready; putting appends, completing makes one more item ready, taking
  returns the ready prefix.  A run of such operations neither loses, nor duplicates, nor reorders
  an item, and it never panics.
\<close>

datatype ('a, 'd) ring_op = Put 'a | Complete 'd | Take

text \<open>
  A run with its guards: a \<open>Put\<close> needs room, a \<open>Complete\<close> needs an item that is not ready yet.
  The first component is \<open>None\<close> when a guard is violated.
\<close>

fun ring_run ::
  "('q \<Rightarrow> bool) \<Rightarrow> ('q \<Rightarrow> bool) \<Rightarrow> ('a \<Rightarrow> 'q \<Rightarrow> 'q res) \<Rightarrow> ('d \<Rightarrow> 'q \<Rightarrow> 'q) \<Rightarrow> ('q \<Rightarrow> ('a list \<times> 'q) res) \<Rightarrow>
   ('a, 'd) ring_op list \<Rightarrow> 'q \<Rightarrow> ('a list \<times> 'q) res option"
where
  "ring_run room busy put complete take_ready [] q = Some (Inr ([], q))"
| "ring_run room busy put complete take_ready (Put a # ops) q =
     (if room q then
        (case put a q of Inl e \<Rightarrow> Some (Inl e) | Inr q' \<Rightarrow> ring_run room busy put complete take_ready ops q')
      else None)"
| "ring_run room busy put complete take_ready (Complete d # ops) q =
     (if busy q then ring_run room busy put complete take_ready ops (complete d q) else None)"
| "ring_run room busy put complete take_ready (Take # ops) q =
     (case take_ready q of Inl e \<Rightarrow> Some (Inl e)
      | Inr (out, q') \<Rightarrow>
          map_option (\<lambda>r. rbind r (\<lambda>(outs, q''). Inr (out @ outs, q'')))
            (ring_run room busy put complete take_ready ops q'))"

fun ring_puts :: "('a, 'd) ring_op list \<Rightarrow> 'a list" where
  "ring_puts [] = []"
| "ring_puts (Put a # ops) = a # ring_puts ops"
| "ring_puts (Complete d # ops) = ring_puts ops"
| "ring_puts (Take # ops) = ring_puts ops"

locale transfer_ring =
  fixes inv :: "'q \<Rightarrow> bool"
    and items :: "'q \<Rightarrow> 'a list"
    and ready :: "'q \<Rightarrow> nat"
    and room :: "'q \<Rightarrow> bool"
    and put :: "'a \<Rightarrow> 'q \<Rightarrow> 'q res"
    and complete :: "'d \<Rightarrow> 'q \<Rightarrow> 'q"
    and take_ready :: "'q \<Rightarrow> ('a list \<times> 'q) res"
    and key :: "'a \<Rightarrow> 'k"
  assumes put_law: "inv q \<Longrightarrow> room q \<Longrightarrow> \<exists>q'. put a q = Inr q' \<and> inv q' \<and> items q' = items q @ [a]"
    and complete_law: "inv q \<Longrightarrow> ready q < length (items q) \<Longrightarrow>
      inv (complete d q) \<and> map key (items (complete d q)) = map key (items q)"
    and take_law: "inv q \<Longrightarrow> \<exists>q'. take_ready q = Inr (take (ready q) (items q), q') \<and> inv q' \<and>
      items q' = drop (ready q) (items q)"
begin

lemma run_conserves:
  assumes "inv q"
    and "ring_run room (\<lambda>q. ready q < length (items q)) put complete take_ready ops q = Some r"
  shows "\<exists>outs q'. r = Inr (outs, q') \<and> inv q' \<and>
     map key (outs @ items q') = map key (items q @ ring_puts ops)"
  using assms
proof (induction ops arbitrary: q r)
  case Nil
  then show ?case by auto
next
  case (Cons p ops)
  show ?case
  proof (cases p)
    case (Put a)
    then obtain q1 where q1: "put a q = Inr q1" "inv q1" "items q1 = items q @ [a]"
      using Cons.prems put_law [of q a] by (auto split: if_splits)
    with Cons.prems Put show ?thesis using Cons.IH [of q1 r] by (auto split: if_splits)
  next
    case (Complete d)
    then have q1: "inv (complete d q)" "map key (items (complete d q)) = map key (items q)"
      using Cons.prems complete_law [of q d] by (auto split: if_splits)
    with Cons.prems Complete show ?thesis
      using Cons.IH [of "complete d q" r] by (auto split: if_splits)
  next
    case Take
    obtain q1 where q1: "take_ready q = Inr (take (ready q) (items q), q1)" "inv q1"
        "items q1 = drop (ready q) (items q)"
      using take_law [OF Cons.prems(1)] by blast
    obtain r' where r': "ring_run room (\<lambda>q. ready q < length (items q)) put complete take_ready ops q1 = Some r'"
        "r = rbind r' (\<lambda>(outs, q''). Inr (take (ready q) (items q) @ outs, q''))"
      using Cons.prems(2) Take q1(1) by auto
    obtain outs q' where "r' = Inr (outs, q')" "inv q'" "map key (outs @ items q') = map key (items q1 @ ring_puts ops)"
      using Cons.IH [OF q1(2) r'(1)] by blast
    with r'(2) Take q1(3) show ?thesis
      by (simp flip: map_append) (metis append_assoc append_take_drop_id map_append)
  qed
qed

end

interpretation vring: transfer_ring vq_inv vq_items vq_completed
    "\<lambda>q. vq_pending q < unat (vq_size q)" "\<lambda>b. vq_push b g" dev_complete_next vq_pop buf_ptr for g
proof (unfold_locales, goal_cases)
  case (1 q b)
  then have "vq_wf q" by (simp add: vq_inv_def)
  with 1 show ?case using vq_push_refines [of q b g] by (simp add: vq_push_ok)
next
  case (2 q d)
  then show ?case using dev_complete_next_refines [of q d] by simp
next
  case (3 q)
  then show ?case using vq_pop_loop_refines [of q "[]"] by (auto simp: vq_pop_def)
qed

section \<open>The layout of a queue\<close>

lemma page_count_word:
  assumes "(w :: u64) = of_nat a" "a < 2 ^ 32"
  shows "(w div 4096 + 1) * 4096 = of_nat ((a div 4096 + 1) * 4096)"
  using assms of_nat_div_word [of a 4096, where 'a = 64] by simp

lemma vq_used_offset_nat: "vq_used_offset sz = of_nat (((18 * unat sz + 5) div 4096 + 1) * 4096)"
proof -
  have "18 * unat sz + 5 < 2 ^ 32" using unat_less_width [of sz] by simp
  moreover have "(16 * ucast sz + 3 * 2 + 2 * ucast sz - 1 :: u64) = of_nat (18 * unat sz + 5)" by simp
  ultimately show ?thesis unfolding vq_used_offset_def by (intro page_count_word)
qed

lemma vq_alloc_size_nat:
  "vq_alloc_size sz =
     of_nat (((18 * unat sz + 5) div 4096 + 1) * 4096 + ((8 * unat sz + 5) div 4096 + 1) * 4096)"
proof -
  have "8 * unat sz + 5 < 2 ^ 32" using unat_less_width [of sz] by simp
  moreover have "(3 * 2 + 8 * ucast sz - 1 :: u64) = of_nat (8 * unat sz + 5)" by simp
  ultimately have "((3 * 2 + 8 * ucast sz - 1) div 4096 + 1) * 4096 =
      (of_nat (((8 * unat sz + 5) div 4096 + 1) * 4096) :: u64)"
    by (intro page_count_word)
  then show ?thesis using vq_used_offset_nat [of sz] unfolding vq_alloc_size_def vq_used_offset_def
    by (simp only: of_nat_add)
qed

lemma unat_vq_used_offset: "unat (vq_used_offset sz) = ((18 * unat sz + 5) div 4096 + 1) * 4096"
  unfolding vq_used_offset_nat using unat_less_width [of sz] by (intro unat_of_nat_small) simp

lemma unat_vq_alloc_size:
  "unat (vq_alloc_size sz) =
     ((18 * unat sz + 5) div 4096 + 1) * 4096 + ((8 * unat sz + 5) div 4096 + 1) * 4096"
  unfolding vq_alloc_size_nat using unat_less_width [of sz] by (intro unat_of_nat_small) simp

section \<open>A fresh queue\<close>

lemma vq_layout_ok: "layout_ok (vq_alloc_size sz) 4096"
  using unat_less_width [of sz] by (intro layout_ok_page) (simp add: unat_vq_alloc_size)

lemma vq_new_ok:
  assumes "sz = 2 ^ k" "k \<le> 15"
  shows "\<exists>q. vq_new heap sz ind intr n = Inr (q, Suc n) \<and> vq_inv q \<and> vq_items q = [] \<and>
     vq_size q = sz \<and> vq_base_addr q = fst (heap n)"
proof -
  have "\<exists>k\<le>15. sz = 2 ^ k" using assms by blast
  then show ?thesis using vq_layout_ok [of sz]
    by (simp add: vq_new_def Let_def vq_inv_def vq_wf_def vq_pending_def vq_completed_def vq_items_def)
qed

section \<open>A concrete queue\<close>

text \<open>A heap that hands out one 64 KiB region after the other, and a queue of two entries on it.\<close>

definition sample_heap :: heap_source where
  "sample_heap n = (of_nat (n + 1) * 0x10000, \<lambda>i. 0)"

definition sample_buffer :: "u64 \<Rightarrow> buffer" where
  "sample_buffer p = \<lparr>buf_ptr = p, buf_size = 4, buf_position = 0, buf_mem = [0,0,0,0]\<rparr>"

definition sample_queue :: virtqueue where
  "sample_queue = (case vq_new sample_heap 2 False True 0 of Inr (q, _) \<Rightarrow> q)"

definition sample_full_queue :: virtqueue where
  "sample_full_queue = (case vq_push (sample_buffer 256) False sample_queue of Inr q \<Rightarrow>
     (case vq_push (sample_buffer 512) False q of Inr q' \<Rightarrow> q'))"

lemma sample_queue_inv:
  "vq_inv sample_queue" "vq_pending sample_queue = 0" "vq_size sample_queue = 2" "vq_slot sample_queue 0 = 0"
  by code_simp+

lemma sample_full_queue_inv:
  "vq_inv sample_full_queue \<and> vq_pending sample_full_queue = 2 \<and> vq_size sample_full_queue = 2 \<and>
   vq_slot sample_full_queue 0 = 0"
proof -
  note s = sample_queue_inv
  let ?q1 = "vq_after_push (sample_buffer 256) False sample_queue"
  have wf: "vq_wf sample_queue" using s(1) by (simp add: vq_inv_def)
  have q1: "vq_inv ?q1" "vq_pending ?q1 = 1"
    using vq_push_refines [OF s(1)] vq_pending_after_push [of sample_queue] s by auto
  then have wf1: "vq_wf ?q1" by (simp add: vq_inv_def)
  have full: "sample_full_queue = vq_after_push (sample_buffer 512) False ?q1"
    by (simp add: sample_full_queue_def vq_push_ok [OF wf] vq_push_ok [OF wf1])
  show ?thesis unfolding full
    using vq_push_refines [OF q1(1)] vq_pending_after_push [of ?q1] q1 s by simp
qed

section \<open>Properties\<close>

text \<open>
  C3.  The virtqueue is a first-in first-out transfer ring.  In every run of pushes into a queue
  that is not full, in-order completions by the device and pops, starting in a state of the
  invariant, no operation panics, the invariant holds at the end, and the buffers handed out
  followed by the ones still pending are exactly the ones pending at the start followed by the
  ones pushed, in this order, across any wrap-around of the 16-bit indices.
\<close>

theorem virtqueue_fifo:
  assumes "vq_inv q"
    and "ring_run (\<lambda>q. vq_pending q < unat (vq_size q)) (\<lambda>q. vq_completed q < length (vq_items q))
           (\<lambda>b. vq_push b g) dev_complete_next vq_pop ops q = Some r"
  shows "\<exists>outs q'. r = Inr (outs, q') \<and> vq_inv q' \<and>
     map buf_ptr (outs @ vq_items q') = map buf_ptr (vq_items q @ ring_puts ops)"
  using assms by (rule vring.run_conserves)

theorem virtqueue_fifo_witness:
  "vq_inv sample_queue \<and>
   (\<exists>outs q'. ring_run (\<lambda>q. vq_pending q < unat (vq_size q)) (\<lambda>q. vq_completed q < length (vq_items q))
       (\<lambda>b. vq_push b False) dev_complete_next vq_pop
       [Put (sample_buffer 256), Complete [7], Put (sample_buffer 512), Take] sample_queue = Some (Inr (outs, q')) \<and>
     map buf_ptr (outs @ vq_items q') = [256, 512])"
proof -
  let ?ops = "[Put (sample_buffer 256), Complete [7], Put (sample_buffer 512), Take] :: (buffer, u8 list) ring_op list"
  note i = sample_queue_inv(1)
  have e: "vq_items sample_queue = []" by code_simp
  have "ring_run (\<lambda>q. vq_pending q < unat (vq_size q)) (\<lambda>q. vq_completed q < length (vq_items q))
       (\<lambda>b. vq_push b False) dev_complete_next vq_pop ?ops sample_queue \<noteq> None" by code_simp
  then obtain r where r: "ring_run (\<lambda>q. vq_pending q < unat (vq_size q)) (\<lambda>q. vq_completed q < length (vq_items q))
       (\<lambda>b. vq_push b False) dev_complete_next vq_pop ?ops sample_queue = Some r" by blast
  obtain outs q' where "r = Inr (outs, q')"
    "map buf_ptr (outs @ vq_items q') = map buf_ptr (vq_items sample_queue @ ring_puts ?ops)"
    using virtqueue_fifo [OF i r] by blast
  with i r show ?thesis by (simp add: e sample_buffer_def)
qed

text \<open>
  C20.  The three areas of a new queue lie in its allocation one behind the other: the descriptor
  table of 16 bytes per entry, the available ring with its two header fields and the trailing
  event field, and, on a page boundary relative to the base, the used ring; the addresses are the
  ones that are announced to the device.
\<close>

theorem virtqueue_layout:
  assumes "vq_new heap sz ind intr n = Inr (q, n')"
    and "unat (fst (heap n)) + unat (vq_alloc_size sz) < 2 ^ 64"
  shows "unat (vq_get_avail_addr q) = unat (vq_get_descriptor_addr q) + 16 * unat sz \<and>
    unat (vq_get_avail_addr q) + 4 + 2 * unat sz + 2 \<le> unat (vq_get_used_addr q) \<and>
    unat (vq_get_used_addr q) + 4 + 8 * unat sz + 2 \<le> unat (vq_get_descriptor_addr q) + unat (vq_alloc_size sz) \<and>
    (unat (vq_get_used_addr q) - unat (vq_get_descriptor_addr q)) mod 4096 = 0"
proof -
  let ?b = "fst (heap n)"
  have q: "vq_base_addr q = ?b" "vq_size q = sz"
    using assms(1) vq_layout_ok [of sz] by (auto simp: vq_new_def Let_def)
  have al: "unat ?b + ((18 * unat sz + 5) div 4096 + 1) * 4096 + ((8 * unat sz + 5) div 4096 + 1) * 4096 < 2 ^ 64"
    using assms(2) by (simp add: unat_vq_alloc_size)
  have "unat (?b + vq_used_offset sz) = unat ?b + unat (vq_used_offset sz)"
    using al by (subst unat_word_ariths) (simp add: unat_vq_used_offset)
  then have u: "unat (vq_get_used_addr q) = unat ?b + ((18 * unat sz + 5) div 4096 + 1) * 4096"
    by (simp only: vq_get_used_addr_def q vq_used_offset_def [symmetric] unat_vq_used_offset)
  have off: "(16 * ucast sz :: u64) = of_nat (16 * unat sz)" by simp
  have o16: "unat (16 * ucast sz :: u64) = 16 * unat sz"
    unfolding off using unat_less_width [of sz] by (intro unat_of_nat_small) simp
  have "unat (?b + 16 * ucast sz) = unat ?b + 16 * unat sz"
    using al o16 by (subst unat_word_ariths) simp
  then have a: "unat (vq_get_avail_addr q) = unat ?b + 16 * unat sz"
    by (simp add: vq_get_avail_addr_def q)
  have d: "unat (vq_get_descriptor_addr q) = unat ?b" by (simp add: vq_get_descriptor_addr_def q)
  show ?thesis unfolding u a d unat_vq_alloc_size by (intro conjI; (simp; fail | presburger))
qed

theorem virtqueue_layout_witness:
  "\<exists>q n'. vq_new sample_heap 256 False True 0 = Inr (q, n') \<and>
     unat (vq_get_avail_addr q) = unat (vq_get_descriptor_addr q) + 16 * 256"
proof -
  obtain q n' where q: "vq_new sample_heap 256 False True 0 = Inr (q, n')"
    using vq_new_ok [of 256 8 sample_heap False True 0] by auto
  have "unat (fst (sample_heap 0)) + unat (vq_alloc_size 256) < 2 ^ 64"
    by (simp add: sample_heap_def unat_vq_alloc_size)
  from virtqueue_layout [OF q this] q show ?thesis by auto
qed

text \<open>
  The number of free entries.  While the available index has not wrapped around past the used
  index, \<open>get_avail_free_size\<close> is the size minus the number of entries the device still owns;
  after the wrap-around it is 65536 minus that number, far more than the queue can hold.
\<close>

theorem avail_free_size_value:
  assumes "unat (vq_avail_idx q - vq_used_idx q) \<le> unat (vq_size q)"
  shows "unat (vq_get_avail_free_size q) =
    (if vq_used_idx q \<le> vq_avail_idx q
     then unat (vq_size q) - unat (vq_avail_idx q - vq_used_idx q)
     else 65536 - unat (vq_avail_idx q - vq_used_idx q))"
proof (cases "vq_used_idx q \<le> vq_avail_idx q")
  case True
  have "vq_avail_idx q - vq_used_idx q \<le> vq_size q" using assms by (simp add: word_le_nat_alt)
  with True show ?thesis by (simp add: vq_get_avail_free_size_def unat_sub)
next
  case False
  then have "unat (vq_avail_idx q) < unat (vq_used_idx q)" by (simp add: word_le_nat_alt)
  with False show ?thesis using unat_less_width [of "vq_used_idx q"]
    by (simp add: vq_get_avail_free_size_def unat_sub_if' word_size)
qed

theorem avail_free_size_value_witness:
  "unat (vq_avail_idx (sample_queue\<lparr>vq_avail_idx := 1, vq_used_idx := 65535\<rparr>) -
        vq_used_idx (sample_queue\<lparr>vq_avail_idx := 1, vq_used_idx := 65535\<rparr>)) \<le> unat (vq_size sample_queue) \<and>
   unat (vq_get_avail_free_size (sample_queue\<lparr>vq_avail_idx := 1, vq_used_idx := 65535\<rparr>)) = 65534"
proof -
  note sz = sample_queue_inv(3)
  have u: "unat (1 - 65535 :: u16) = 2" and le: "\<not> (65535 :: u16) \<le> 1" by code_simp+
  show ?thesis using avail_free_size_value [of "sample_queue\<lparr>vq_avail_idx := 1, vq_used_idx := 65535\<rparr>"]
    by (simp add: sz u le)
qed

text \<open>
  C27.  \<open>push\<close> never reports a full queue: on a queue whose entries are all pending it succeeds and
  replaces the oldest pending buffer.
\<close>

theorem push_overwrites_full_queue:
  assumes "vq_inv q" and "vq_pending q = unat (vq_size q)"
  shows "\<exists>q'. vq_push b g q = Inr q' \<and> vq_buffers q' ! vq_slot q 0 = Some b \<and>
     vq_pending q' = Suc (unat (vq_size q))"
proof -
  have wf: "vq_wf q" using assms(1) by (simp add: vq_inv_def)
  have head: "unat (vq_free_head q) = vq_slot q 0"
    using vq_free_head_slot [OF wf] assms(2) by (simp add: vq_slot_def)
  have "vq_buffers (vq_after_push b g q) ! vq_slot q 0 = Some b"
    using vq_wf_lengths [OF wf] vq_slot_less [OF wf] by (simp add: vq_after_push_def Let_def head)
  moreover have "vq_pending (vq_after_push b g q) = Suc (unat (vq_size q))"
    using vq_size_bounds [OF wf] assms(2) vq_pending_after_push [of q b g] by simp
  ultimately show ?thesis using vq_push_ok [OF wf] by blast
qed

theorem push_overwrites_full_queue_witness:
  "vq_inv sample_full_queue \<and> vq_pending sample_full_queue = unat (vq_size sample_full_queue) \<and>
   (\<exists>q'. vq_push (sample_buffer 768) False sample_full_queue = Inr q' \<and>
      vq_buffers q' ! 0 = Some (sample_buffer 768))"
proof -
  have i: "vq_inv sample_full_queue" and f: "vq_pending sample_full_queue = unat (vq_size sample_full_queue)"
    and l: "vq_slot sample_full_queue 0 = 0" using sample_full_queue_inv by simp_all
  from l push_overwrites_full_queue [OF i f, of "sample_buffer 768" False]
  have "\<exists>q'. vq_push (sample_buffer 768) False sample_full_queue = Inr q' \<and>
      vq_buffers q' ! 0 = Some (sample_buffer 768)" by metis
  with i f show ?thesis by blast
qed

end
