(* ===== verification/Virtio_Mmio.thy ===== *)
theory Virtio_Mmio
  imports Virt_Queue
begin

text \<open>
  The MMIO transport of \<^verbatim>\<open>src/src/devices/virtio/mmio.rs\<close>: finding a device on the kernel command
  line, and the register accesses behind each operation of the \<^verbatim>\<open>VirtioDevice\<close> trait.

  The device behind the registers is not part of the sources.  It is a parameter: what a volatile
  read returns, as a function of the accesses made so far and of the address.  The accesses
  themselves are recorded in the order of the program.  A kernel command line is a list of bytes;
  the patterns the parser looks for are ASCII, so that byte positions are character boundaries.
\<close>

section \<open>Registers\<close>

datatype mmio_access = MRead u64 | MWrite u64 u32

type_synonym mmio_device = "mmio_access list \<Rightarrow> u64 \<Rightarrow> u32"

record virtio_mmio =
  mm_addr :: u64
  mm_size :: usize
  mm_irq :: u8
  mm_indirect_buf_cap :: bool
  mm_event_idx_cap :: bool
  mm_log :: "mmio_access list"

definition mmio_read :: "mmio_device \<Rightarrow> u64 \<Rightarrow> virtio_mmio \<Rightarrow> u32 \<times> virtio_mmio" where
  "mmio_read D off m =
     (D (mm_log m) (mm_addr m + off), m\<lparr>mm_log := mm_log m @ [MRead (mm_addr m + off)]\<rparr>)"

definition mmio_write :: "u64 \<Rightarrow> u32 \<Rightarrow> virtio_mmio \<Rightarrow> virtio_mmio" where
  "mmio_write off v m = m\<lparr>mm_log := mm_log m @ [MWrite (mm_addr m + off) v]\<rparr>"

section \<open>The kernel command line\<close>

text \<open>\<^verbatim>\<open>str::find\<close>: the first position at which the pattern occurs.\<close>

fun str_prefix :: "string \<Rightarrow> string \<Rightarrow> bool" where
  "str_prefix [] s = True"
| "str_prefix (p # ps) [] = False"
| "str_prefix (p # ps) (c # cs) = (p = c \<and> str_prefix ps cs)"

fun str_find :: "string \<Rightarrow> string \<Rightarrow> nat option" where
  "str_find pat [] = (if pat = [] then Some 0 else None)"
| "str_find pat (c # cs) = (if str_prefix pat (c # cs) then Some 0 else map_option Suc (str_find pat cs))"

definition keyphrase :: string where
  "keyphrase = ''virtio_mmio.device=''"

text \<open>The loop \<^verbatim>\<open>for i in 0..(idx+1)\<close> with the running position \<^verbatim>\<open>keyidx\<close>.\<close>

fun locate_device :: "string \<Rightarrow> nat \<Rightarrow> nat \<Rightarrow> nat option" where
  "locate_device cmdline 0 keyidx = Some keyidx"
| "locate_device cmdline (Suc n) keyidx =
     (case str_find keyphrase (drop keyidx cmdline) of
        Some j \<Rightarrow> locate_device cmdline n (keyidx + (j + length keyphrase))
      | None \<Rightarrow> None)"

definition size_char :: "usize \<Rightarrow> char \<Rightarrow> usize" where
  "size_char size_val c =
     (if c = CHR ''0'' then size_val * 10 + 0
      else if c = CHR ''1'' then size_val * 10 + 1
      else if c = CHR ''2'' then size_val * 10 + 2
      else if c = CHR ''3'' then size_val * 10 + 3
      else if c = CHR ''4'' then size_val * 10 + 4
      else if c = CHR ''5'' then size_val * 10 + 5
      else if c = CHR ''6'' then size_val * 10 + 6
      else if c = CHR ''7'' then size_val * 10 + 7
      else if c = CHR ''8'' then size_val * 10 + 8
      else if c = CHR ''9'' then size_val * 10 + 9
      else if c = CHR ''k'' \<or> c = CHR ''K'' then size_val * 1024
      else if c = CHR ''m'' \<or> c = CHR ''M'' then size_val * 1024 * 1024
      else size_val)"

definition addr_char :: "u64 \<Rightarrow> char \<Rightarrow> u64" where
  "addr_char addr_val c =
     (if c = CHR ''0'' then addr_val * 16 + 0
      else if c = CHR ''1'' then addr_val * 16 + 1
      else if c = CHR ''2'' then addr_val * 16 + 2
      else if c = CHR ''3'' then addr_val * 16 + 3
      else if c = CHR ''4'' then addr_val * 16 + 4
      else if c = CHR ''5'' then addr_val * 16 + 5
      else if c = CHR ''6'' then addr_val * 16 + 6
      else if c = CHR ''7'' then addr_val * 16 + 7
      else if c = CHR ''8'' then addr_val * 16 + 8
      else if c = CHR ''9'' then addr_val * 16 + 9
      else if c = CHR ''a'' \<or> c = CHR ''A'' then addr_val * 16 + 10
      else if c = CHR ''b'' \<or> c = CHR ''B'' then addr_val * 16 + 11
      else if c = CHR ''c'' \<or> c = CHR ''C'' then addr_val * 16 + 12
      else if c = CHR ''d'' \<or> c = CHR ''D'' then addr_val * 16 + 13
      else if c = CHR ''e'' \<or> c = CHR ''E'' then addr_val * 16 + 14
      else if c = CHR ''f'' \<or> c = CHR ''F'' then addr_val * 16 + 15
      else addr_val)"

definition irq_char :: "u8 \<Rightarrow> char \<Rightarrow> u8" where
  "irq_char irq_val c =
     (if c = CHR ''0'' then irq_val * 10 + 0
      else if c = CHR ''1'' then irq_val * 10 + 1
      else if c = CHR ''2'' then irq_val * 10 + 2
      else if c = CHR ''3'' then irq_val * 10 + 3
      else if c = CHR ''4'' then irq_val * 10 + 4
      else if c = CHR ''5'' then irq_val * 10 + 5
      else if c = CHR ''6'' then irq_val * 10 + 6
      else if c = CHR ''7'' then irq_val * 10 + 7
      else if c = CHR ''8'' then irq_val * 10 + 8
      else if c = CHR ''9'' then irq_val * 10 + 9
      else irq_val)"

text \<open>The part of \<^verbatim>\<open>VirtioMMIO::new\<close> that reads the command line: address, size and interrupt.\<close>

definition parse_device :: "string \<Rightarrow> nat \<Rightarrow> string + (u64 \<times> usize \<times> u8)" where
  "parse_device cmdline idx =
     (case locate_device cmdline (idx + 1) 0 of
        None \<Rightarrow> Inl ''virtio-mmio is not found''
      | Some size_idx \<Rightarrow>
          (case str_find ''@0x'' (drop size_idx cmdline) of
             None \<Rightarrow> Inl ''virtio-mmio is not found''
           | Some i \<Rightarrow>
               let addr_idx = size_idx + i + 3 in
               (case str_find '':'' (drop addr_idx cmdline) of
                  None \<Rightarrow> Inl ''virtio-mmio is not found''
                | Some j \<Rightarrow>
                    let irq_idx = addr_idx + j + 1;
                        tail_idx = (case str_find '' '' (drop irq_idx cmdline) of
                                      Some k \<Rightarrow> irq_idx + k | None \<Rightarrow> length cmdline)
                    in Inr (foldl addr_char 0 (take (irq_idx - 1 - addr_idx) (drop addr_idx cmdline)),
                            foldl size_char 0 (take (addr_idx - 3 - size_idx) (drop size_idx cmdline)),
                            foldl irq_char 0 (take (tail_idx - irq_idx) (drop irq_idx cmdline))))))"

text \<open>\<^verbatim>\<open>VirtioMMIO::new\<close>: the parsed device must carry the magic value and be of version 2.\<close>

definition mmio_new :: "mmio_device \<Rightarrow> string \<Rightarrow> nat \<Rightarrow> string + virtio_mmio" where
  "mmio_new D cmdline idx =
     (case parse_device cmdline idx of
        Inl e \<Rightarrow> Inl e
      | Inr (addr_val, size_val, irq_val) \<Rightarrow>
          let m0 = \<lparr>mm_addr = addr_val, mm_size = size_val, mm_irq = irq_val,
                    mm_indirect_buf_cap = False, mm_event_idx_cap = False, mm_log = []\<rparr>;
              (magic, m1) = mmio_read D 0 m0
          in if magic \<noteq> 0x74726976 then Inl ''Invalid virtio-mmio device''
             else let (version, m2) = mmio_read D 0x004 m1
                  in if version \<noteq> 0x2 then Inl ''Invalid virtio-mmio device'' else Inr m2)"

section \<open>The operations of the transport\<close>

definition mmio_get_type :: "mmio_device \<Rightarrow> virtio_mmio \<Rightarrow> u32 \<times> virtio_mmio" where
  "mmio_get_type D m = mmio_read D 0x008 m"

definition mmio_get_irq :: "virtio_mmio \<Rightarrow> u8" where
  "mmio_get_irq m = mm_irq m"

definition mmio_get_shm :: "u8 \<Rightarrow> u64 \<Rightarrow> usize \<Rightarrow> virtio_mmio \<Rightarrow> bool" where
  "mmio_get_shm i addr len m = False"

definition mmio_read_and_ack_isr :: "mmio_device \<Rightarrow> virtio_mmio \<Rightarrow> u8 \<times> virtio_mmio" where
  "mmio_read_and_ack_isr D m =
     (let (intr_status, m1) = mmio_read D 0x060 m; m2 = mmio_write 0x064 intr_status m1
      in (ucast (intr_status AND 0x01), m2))"

definition mmio_select_queue :: "mmio_device \<Rightarrow> u32 \<Rightarrow> virtio_mmio \<Rightarrow> virtio_mmio res" where
  "mmio_select_queue D queue m =
     (let m1 = mmio_write 0x030 queue m; (ready, m2) = mmio_read D 0x044 m1
      in if ready = 0 then Inr m2 else Inl Assert_failed)"

definition mmio_get_queue_size :: "mmio_device \<Rightarrow> virtio_mmio \<Rightarrow> u16 \<times> virtio_mmio" where
  "mmio_get_queue_size D m = (let (v, m1) = mmio_read D 0x034 m in (ucast v, m1))"

definition mmio_setup_queue :: "virtqueue \<Rightarrow> virtio_mmio \<Rightarrow> virtio_mmio" where
  "mmio_setup_queue q m =
     (let m = mmio_write 0x038 (ucast (vq_size q)) m;
          m = mmio_write 0x080 (ucast (vq_get_descriptor_addr q AND 0xffffffff)) m;
          m = mmio_write 0x084 (ucast (drop_bit 32 (vq_get_descriptor_addr q))) m;
          m = mmio_write 0x090 (ucast (vq_get_avail_addr q AND 0xffffffff)) m;
          m = mmio_write 0x094 (ucast (drop_bit 32 (vq_get_avail_addr q))) m;
          m = mmio_write 0x0a0 (ucast (vq_get_used_addr q AND 0xffffffff)) m
      in mmio_write 0x0a4 (ucast (drop_bit 32 (vq_get_used_addr q))) m)"

definition mmio_activate_queue :: "u32 \<Rightarrow> virtio_mmio \<Rightarrow> virtio_mmio" where
  "mmio_activate_queue queue m = mmio_write 0x044 1 m"

definition mmio_kick_queue :: "u32 \<Rightarrow> virtio_mmio \<Rightarrow> virtio_mmio" where
  "mmio_kick_queue queue m = mmio_write 0x050 queue m"

definition mmio_get_available_features :: "mmio_device \<Rightarrow> virtio_mmio \<Rightarrow> u64 \<times> virtio_mmio" where
  "mmio_get_available_features D m =
     (let m = mmio_write 0x014 1 m;
          (hi, m) = mmio_read D 0x010 m;
          m = mmio_write 0x014 0 m;
          (lo, m) = mmio_read D 0x010 m
      in (push_bit 32 (ucast hi) OR ucast lo, m))"

definition mmio_set_enabled_features :: "u64 \<Rightarrow> virtio_mmio \<Rightarrow> virtio_mmio" where
  "mmio_set_enabled_features features m =
     (let m = mmio_write 0x024 1 m;
          m = mmio_write 0x020 (ucast (drop_bit 32 features)) m;
          m = mmio_write 0x024 0 m
      in mmio_write 0x020 (ucast (features AND 0xffffffff)) m)"

definition mmio_get_status :: "mmio_device \<Rightarrow> virtio_mmio \<Rightarrow> u8 \<times> virtio_mmio" where
  "mmio_get_status D m = (let (v, m1) = mmio_read D 0x070 m in (ucast v, m1))"

definition mmio_set_status :: "u8 \<Rightarrow> virtio_mmio \<Rightarrow> virtio_mmio" where
  "mmio_set_status status m = mmio_write 0x070 (ucast status) m"

definition mmio_read_config :: "mmio_device \<Rightarrow> u64 \<Rightarrow> virtio_mmio \<Rightarrow> u8 \<times> virtio_mmio" where
  "mmio_read_config D offset m = (let (v, m1) = mmio_read D (0x100 + offset) m in (ucast v, m1))"

definition mmio_is_legacy :: "virtio_mmio \<Rightarrow> bool" where
  "mmio_is_legacy m = False"

definition mmio_set_indirect_buf_cap :: "bool \<Rightarrow> virtio_mmio \<Rightarrow> virtio_mmio" where
  "mmio_set_indirect_buf_cap flag m = m\<lparr>mm_indirect_buf_cap := flag\<rparr>"

definition mmio_set_event_idx_cap :: "bool \<Rightarrow> virtio_mmio \<Rightarrow> virtio_mmio" where
  "mmio_set_event_idx_cap flag m = m\<lparr>mm_event_idx_cap := flag\<rparr>"

section \<open>Command lines as the virtual machine monitor prints them\<close>

text \<open>A device with its base address, its size in units of 1024 bytes and its interrupt line.\<close>

fun dec_digits :: "nat \<Rightarrow> string" where
  "dec_digits n = (if n < 10 then [''0123456789'' ! n] else dec_digits (n div 10) @ [''0123456789'' ! (n mod 10)])"

fun hex_digits :: "nat \<Rightarrow> string" where
  "hex_digits n =
     (if n < 16 then [''0123456789abcdef'' ! n] else hex_digits (n div 16) @ [''0123456789abcdef'' ! (n mod 16)])"

declare dec_digits.simps [simp del] hex_digits.simps [simp del]

definition print_device :: "nat \<times> nat \<times> nat \<Rightarrow> string" where
  "print_device d = (case d of (addr, kb, irq) \<Rightarrow>
     dec_digits kb @ ''K'' @ ''@0x'' @ hex_digits addr @ '':'' @ dec_digits irq)"

definition print_devices :: "(nat \<times> nat \<times> nat) list \<Rightarrow> string" where
  "print_devices ds = concat (map (\<lambda>d. keyphrase @ print_device d @ '' '') ds)"

lemma less_10_cases: "(d::nat) < 10 \<longleftrightarrow> d = 0 \<or> d = 1 \<or> d = 2 \<or> d = 3 \<or> d = 4 \<or> d = 5 \<or> d = 6 \<or> d = 7 \<or> d = 8 \<or> d = 9"
  by presburger

lemma less_16_cases':
  "(k::nat) < 16 \<longleftrightarrow> k = 0 \<or> k = 1 \<or> k = 2 \<or> k = 3 \<or> k = 4 \<or> k = 5 \<or> k = 6 \<or> k = 7 \<or>
     k = 8 \<or> k = 9 \<or> k = 10 \<or> k = 11 \<or> k = 12 \<or> k = 13 \<or> k = 14 \<or> k = 15"
  by presburger

lemma size_char_digit: "d < 10 \<Longrightarrow> size_char v (''0123456789'' ! d) = v * 10 + of_nat d"
  unfolding less_10_cases by (elim disjE; simp add: size_char_def)

lemma irq_char_digit: "d < 10 \<Longrightarrow> irq_char v (''0123456789'' ! d) = v * 10 + of_nat d"
  unfolding less_10_cases by (elim disjE; simp add: irq_char_def)

lemma addr_char_digit: "d < 16 \<Longrightarrow> addr_char v (''0123456789abcdef'' ! d) = v * 16 + of_nat d"
  unfolding less_16_cases' by (elim disjE; simp add: addr_char_def)

lemma of_nat_divmod: "of_nat (n div k) * of_nat k + of_nat (n mod k) = (of_nat n :: 'a::len word)"
  by (metis div_mult_mod_eq of_nat_add of_nat_mult)

lemma foldl_addr_hex: "foldl addr_char 0 (hex_digits n) = of_nat n"
proof (induction n rule: hex_digits.induct)
  case (1 n)
  then show ?case using of_nat_divmod [of n 16, where 'a = 64]
    by (subst hex_digits.simps) (simp add: addr_char_digit del: nth_Cons_numeral)
qed

lemma foldl_size_dec: "foldl size_char 0 (dec_digits n) = of_nat n"
proof (induction n rule: dec_digits.induct)
  case (1 n)
  then show ?case using of_nat_divmod [of n 10, where 'a = 64]
    by (subst dec_digits.simps) (simp add: size_char_digit)
qed

lemma foldl_irq_dec: "foldl irq_char 0 (dec_digits n) = of_nat n"
proof (induction n rule: dec_digits.induct)
  case (1 n)
  then show ?case using of_nat_divmod [of n 10, where 'a = 8]
    by (subst dec_digits.simps) (simp add: irq_char_digit)
qed

lemma set_dec_digits: "set (dec_digits n) \<subseteq> set ''0123456789''"
proof (induction n rule: dec_digits.induct)
  case (1 n)
  have "''0123456789'' ! d \<in> set ''0123456789''" if "d < 10" for d
    using that by (intro nth_mem) simp
  with 1 show ?case by (subst dec_digits.simps) auto
qed

lemma set_hex_digits: "set (hex_digits n) \<subseteq> set ''0123456789abcdef''"
proof (induction n rule: hex_digits.induct)
  case (1 n)
  have "''0123456789abcdef'' ! d \<in> set ''0123456789abcdef''" if "d < 16" for d
    using that by (intro nth_mem) simp
  with 1 show ?case by (subst hex_digits.simps) auto
qed

lemma str_prefix_append [simp]: "str_prefix p (p @ r)"
  by (induction p) auto

lemma str_find_first:
  "p \<notin> set xs \<Longrightarrow> str_find (p # ps) (xs @ (p # ps) @ r) = Some (length xs)"
proof (induction xs)
  case Nil
  then show ?case using str_prefix_append [of "p # ps" r] by simp
qed auto

lemma str_prefix_extend: "length p \<le> length s \<Longrightarrow> str_prefix p (s @ r) = str_prefix p s"
  by (induction p s rule: str_prefix.induct) auto

lemma str_prefix_length: "str_prefix p s \<Longrightarrow> length p \<le> length s"
  by (induction p s rule: str_prefix.induct) auto

lemma str_find_length: "str_find p s = Some i \<Longrightarrow> i + length p \<le> length s"
  by (induction s arbitrary: i) (auto split: if_splits dest: str_prefix_length)

lemma str_find_extend: "str_find p s = Some i \<Longrightarrow> str_find p (s @ r) = Some i"
proof (induction s arbitrary: i)
  case Nil
  then show ?case by (cases r) (auto split: if_splits)
next
  case (Cons c s)
  have "length p \<le> length (c # s)" using str_find_length [OF Cons.prems] by simp
  from str_prefix_extend [OF this, of r] Cons show ?case by (auto split: if_splits)
qed


lemma notin_dec_digits: "c \<notin> set ''0123456789'' \<Longrightarrow> c \<notin> set (dec_digits n)"
  by (meson set_dec_digits subsetD)

lemma notin_hex_digits: "c \<notin> set ''0123456789abcdef'' \<Longrightarrow> c \<notin> set (hex_digits n)"
  by (meson set_hex_digits subsetD)

lemma v_notin_device: "CHR ''v'' \<notin> set (print_device d @ '' '')"
  by (cases d) (simp add: print_device_def notin_dec_digits notin_hex_digits)

lemma find_keyphrase:
  "CHR ''v'' \<notin> set xs \<Longrightarrow> str_find keyphrase (xs @ keyphrase) = Some (length xs)"
  using str_find_first [of "CHR ''v''" xs "''irtio_mmio.device=''" "[]"] by (simp add: keyphrase_def)

text \<open>The \<open>n\<close>-th occurrence of the key phrase is the \<open>n\<close>-th device.\<close>

lemma locate_printed:
  assumes "n < length ds" "drop k c = pre @ print_devices ds @ post"
    and "str_find keyphrase (pre @ keyphrase) = Some (length pre)"
  shows "\<exists>k'. locate_device c (Suc n) k = Some k' \<and>
           drop k' c = print_device (ds ! n) @ '' '' @ print_devices (drop (Suc n) ds) @ post"
  using assms
proof (induction n arbitrary: ds k pre)
  case (0 ds k pre)
  then obtain d ds' where ds: "ds = d # ds'" by (cases ds) auto
  let ?r = "print_device d @ '' '' @ print_devices ds' @ post"
  have split: "drop k c = (pre @ keyphrase) @ ?r" using 0(2) by (simp add: ds print_devices_def)
  have found: "str_find keyphrase (drop k c) = Some (length pre)"
    unfolding split by (rule str_find_extend [OF 0(3)])
  have "drop (k + (length pre + length keyphrase)) c = ?r"
    using arg_cong [OF split, of "drop (length (pre @ keyphrase))"] by (simp add: add.commute)
  then show ?case using found by (simp add: ds)
next
  case (Suc n ds k pre)
  then obtain d ds' where ds: "ds = d # ds'" by (cases ds) auto
  let ?r = "(print_device d @ '' '') @ print_devices ds' @ post"
  have split: "drop k c = (pre @ keyphrase) @ ?r" using Suc.prems(2) by (simp add: ds print_devices_def)
  have found: "str_find keyphrase (drop k c) = Some (length pre)"
    unfolding split by (rule str_find_extend [OF Suc.prems(3)])
  have rest: "drop (k + (length pre + length keyphrase)) c = ?r"
    using arg_cong [OF split, of "drop (length (pre @ keyphrase))"] by (simp add: add.commute)
  have "n < length ds'" using Suc.prems(1) ds by simp
  from Suc.IH [OF this rest find_keyphrase [OF v_notin_device]] found
  show ?case by (simp add: ds)
qed

text \<open>The three fields of a device, read off from the position behind the key phrase.\<close>

lemma parse_located:
  assumes "locate_device c (idx + 1) 0 = Some k"
    and "drop k c = print_device (addr, kb, irq) @ '' '' @ r"
  shows "parse_device c idx = Inr (of_nat addr, of_nat kb * 1024, of_nat irq)"
proof -
  let ?s = "dec_digits kb @ ''K''" and ?a = "hex_digits addr" and ?i = "dec_digits irq"
  have c: "drop k c = ?s @ ''@0x'' @ ?a @ '':'' @ ?i @ '' '' @ r"
    using assms(2) by (simp add: print_device_def)
  have dig: "CHR ''@'' \<notin> set ?s" "CHR '':'' \<notin> set ?a" "CHR '' '' \<notin> set ?i"
    by (simp_all add: notin_dec_digits notin_hex_digits)
  have f1: "str_find ''@0x'' (drop k c) = Some (length ?s)"
    using str_find_first [OF dig(1), of "''0x''"] by (simp add: c)
  let ?ka = "k + length ?s + 3"
  have c2: "drop ?ka c = ?a @ '':'' @ ?i @ '' '' @ r"
    using arg_cong [OF c, of "drop (length ?s + 3)"] by (simp add: ac_simps)
  have f2: "str_find '':'' (drop ?ka c) = Some (length ?a)"
    using str_find_first [OF dig(2), of "[]"] by (simp only: c2)
  let ?ki = "?ka + length ?a + 1"
  have c3: "drop ?ki c = ?i @ '' '' @ r"
    using arg_cong [OF c2, of "drop (length ?a + 1)"] by (simp add: ac_simps)
  have f3: "str_find '' '' (drop ?ki c) = Some (length ?i)"
    using str_find_first [OF dig(3), of "[]"] by (simp only: c3)
  have vals: "foldl size_char 0 ?s = of_nat kb * 1024"
    by (simp add: foldl_size_dec size_char_def)
  have "parse_device c idx = Inr (foldl addr_char 0 (take (length ?a) (drop ?ka c)),
      foldl size_char 0 (take (length ?s) (drop k c)), foldl irq_char 0 (take (length ?i) (drop ?ki c)))"
    unfolding parse_device_def assms(1) option.case Let_def f1 f2 f3 by simp
  also have "\<dots> = Inr (of_nat addr, of_nat kb * 1024, of_nat irq)"
    unfolding c c2 c3 using vals by (simp add: foldl_addr_hex foldl_irq_dec)
  finally show ?thesis .
qed

text \<open>
  C7. Parsing a kernel command line recovers what the virtual machine monitor printed.  Behind any
  text that does not contain the key phrase, and before any text, the device with index \<open>n\<close> is
  found and its address, size and interrupt line are read back (modulo the width of the fields).
\<close>

theorem parse_device_roundtrip:
  assumes "n < length ds" and "ds ! n = (addr, kb, irq)"
    and "str_find keyphrase (pre @ keyphrase) = Some (length pre)"
  shows "parse_device (pre @ print_devices ds @ post) n = Inr (of_nat addr, of_nat (kb * 1024), of_nat irq)"
proof -
  obtain k where k: "locate_device (pre @ print_devices ds @ post) (n + 1) 0 = Some k"
    "drop k (pre @ print_devices ds @ post) =
       print_device (ds ! n) @ '' '' @ print_devices (drop (Suc n) ds) @ post"
    using locate_printed [OF assms(1) _ assms(3), of 0 "pre @ print_devices ds @ post"] by auto
  then show ?thesis using parse_located [OF k(1) k(2) [unfolded assms(2)]] by simp
qed

theorem parse_device_roundtrip_witness:
  "parse_device (''panic=1 '' @ print_devices [(0xd0000000, 4, 5), (0xd0001000, 4, 6)] @ ''quiet'') 1 =
     Inr (of_nat 0xd0001000, of_nat (4 * 1024), of_nat 6)"
  using parse_device_roundtrip [of 1 "[(0xd0000000, 4, 5), (0xd0001000, 4, 6)]" "0xd0001000" 4 6 "''panic=1 ''" "''quiet''"]
  by (simp add: keyphrase_def)

end
