(* ===== verification/Virtio_Device.thy ===== *)
theory Virtio_Device
  imports Virtio_Mmio
begin

text \<open>
  The device behind the registers of the MMIO transport, as far as the driver relies on it.  It is not part of
  the sources: what it answers is a parameter of the model.  Here is what the virtio specification says about a
  network device of version 2 (MMIO device register layout, device status field), as a
  state that follows the writes in the log of accesses, and the predicate that a parameter answers like that.
\<close>

section \<open>The state of the device\<close>

text \<open>
  The status, the selected words of the features of the device and of the driver, the features that the driver
  accepted, the selected queue, and which queues are ready.
\<close>

record vdev =
  vd_status :: u8
  vd_features_sel :: u32
  vd_driver_sel :: u32
  vd_driver_features :: u64
  vd_queue_sel :: u32
  vd_queue_ready :: "u32 \<Rightarrow> u32"

definition vdev_new :: vdev where
  "vdev_new = \<lparr>vd_status = 0, vd_features_sel = 0, vd_driver_sel = 0, vd_driver_features = 0, vd_queue_sel = 0,
     vd_queue_ready = (\<lambda>_. 0)\<rparr>"

definition vdev_reset :: "vdev \<Rightarrow> vdev" where
  "vdev_reset d = d\<lparr>vd_status := 0, vd_driver_features := 0, vd_queue_ready := (\<lambda>_. 0)\<rparr>"

text \<open>The words of a set of features, by the value of a selector.\<close>

definition feature_word :: "u32 \<Rightarrow> u64 \<Rightarrow> u32" where
  "feature_word sel F = (if sel = 0 then ucast F else if sel = 1 then ucast (drop_bit 32 F) else 0)"

definition set_feature_word :: "u32 \<Rightarrow> u32 \<Rightarrow> u64 \<Rightarrow> u64" where
  "set_feature_word sel v F =
     (if sel = 0 then push_bit 32 (drop_bit 32 F) OR ucast v
      else if sel = 1 then push_bit 32 (ucast v) OR take_bit 32 F else F)"

text \<open>
  A write, for a device that offers the features \<open>feats\<close>.  Writing 0 to the status resets the device; the bit
  \<^verbatim>\<open>FEATURES_OK\<close> does not stay set unless the device offers everything that the driver accepted.
\<close>

definition vdev_write :: "u64 \<Rightarrow> u64 \<Rightarrow> u32 \<Rightarrow> vdev \<Rightarrow> vdev" where
  "vdev_write feats off v d =
     (if off = 0x014 then d\<lparr>vd_features_sel := v\<rparr>
      else if off = 0x020 then d\<lparr>vd_driver_features := set_feature_word (vd_driver_sel d) v (vd_driver_features d)\<rparr>
      else if off = 0x024 then d\<lparr>vd_driver_sel := v\<rparr>
      else if off = 0x030 then d\<lparr>vd_queue_sel := v\<rparr>
      else if off = 0x044 then d\<lparr>vd_queue_ready := (vd_queue_ready d)(vd_queue_sel d := v)\<rparr>
      else if off = 0x070 then
        (if v = 0 then vdev_reset d
         else if vd_driver_features d AND NOT feats = 0 then d\<lparr>vd_status := ucast v\<rparr>
         else d\<lparr>vd_status := ucast v AND NOT 0x08\<rparr>)
      else d)"

text \<open>The state after the accesses of a log, for a device at the address \<open>a\<close>.\<close>

fun vdev_access :: "u64 \<Rightarrow> u64 \<Rightarrow> mmio_access \<Rightarrow> vdev \<Rightarrow> vdev" where
  "vdev_access feats a (MRead x) d = d"
| "vdev_access feats a (MWrite x v) d = vdev_write feats (x - a) v d"

definition vdev_after :: "u64 \<Rightarrow> u64 \<Rightarrow> mmio_access list \<Rightarrow> vdev" where
  "vdev_after feats a l = fold (vdev_access feats a) l vdev_new"

section \<open>What the device answers\<close>

text \<open>
  The identification, the features word that is selected, the status, and whether the selected queue, one of
  the three that the driver uses, is ready.
\<close>

definition virtio_registers :: "mmio_device \<Rightarrow> u64 \<Rightarrow> u64 \<Rightarrow> bool" where
  "virtio_registers D a feats \<longleftrightarrow>
     (\<forall>l. let d = vdev_after feats a l in
        D l a = 0x74726976 \<and> D l (a + 0x004) = 2 \<and> D l (a + 0x008) = 1 \<and>
        D l (a + 0x010) = feature_word (vd_features_sel d) feats \<and> D l (a + 0x070) = ucast (vd_status d) \<and>
        (vd_queue_sel d < 3 \<longrightarrow> D l (a + 0x044) = vd_queue_ready d (vd_queue_sel d)))"

text \<open>Each of the three queues may have up to \<open>2 ^ k\<close> entries.\<close>

definition virtio_net_device :: "mmio_device \<Rightarrow> u64 \<Rightarrow> u64 \<Rightarrow> nat \<Rightarrow> bool" where
  "virtio_net_device D a feats k \<longleftrightarrow> virtio_registers D a feats \<and>
     (\<forall>l. vd_queue_sel (vdev_after feats a l) < 3 \<longrightarrow> D l (a + 0x034) = of_nat (2 ^ k))"

text \<open>A device as such: it answers from its state.  It always signals a used buffer, and its configuration is all zero.\<close>

definition emulated_device :: "u64 \<Rightarrow> u64 \<Rightarrow> nat \<Rightarrow> mmio_device" where
  "emulated_device a feats k l x =
     (let d = vdev_after feats a l; off = x - a in
      if off = 0 then 0x74726976 else if off = 0x004 then 2 else if off = 0x008 then 1
      else if off = 0x010 then feature_word (vd_features_sel d) feats
      else if off = 0x034 then of_nat (2 ^ k)
      else if off = 0x044 then vd_queue_ready d (vd_queue_sel d)
      else if off = 0x060 then 1
      else if off = 0x070 then ucast (vd_status d)
      else 0)"

lemma emulated_device_complies: "virtio_net_device (emulated_device a feats k) a feats k"
  by (simp add: virtio_net_device_def virtio_registers_def emulated_device_def Let_def)

section \<open>The device under the operations of the transport\<close>

definition mmio_touch :: "u64 \<Rightarrow> virtio_mmio \<Rightarrow> virtio_mmio" where
  "mmio_touch off m = m\<lparr>mm_log := mm_log m @ [MRead (mm_addr m + off)]\<rparr>"

definition mmio_val :: "mmio_device \<Rightarrow> u64 \<Rightarrow> virtio_mmio \<Rightarrow> u32" where
  "mmio_val D off m = D (mm_log m) (mm_addr m + off)"

lemma mmio_read_split: "mmio_read D off m = (mmio_val D off m, mmio_touch off m)"
  by (simp add: mmio_read_def mmio_val_def mmio_touch_def)

lemma mm_addr_ops [simp]:
  "mm_addr (mmio_touch off m) = mm_addr m"
  "mm_addr (mmio_write off w m) = mm_addr m"
  "mm_addr (mmio_set_indirect_buf_cap f m) = mm_addr m"
  "mm_addr (mmio_set_event_idx_cap f m) = mm_addr m"
  by (simp_all add: mmio_touch_def mmio_write_def mmio_set_indirect_buf_cap_def mmio_set_event_idx_cap_def)

text \<open>The state of the device that the driver's record points to.\<close>

definition device_of :: "u64 \<Rightarrow> virtio_mmio \<Rightarrow> vdev" where
  "device_of feats m = vdev_after feats (mm_addr m) (mm_log m)"

lemma device_of_ops [simp]:
  "device_of feats (mmio_touch off m) = device_of feats m"
  "device_of feats (mmio_write off w m) = vdev_write feats off w (device_of feats m)"
  "device_of feats (mmio_set_indirect_buf_cap f m) = device_of feats m"
  "device_of feats (mmio_set_event_idx_cap f m) = device_of feats m"
  by (simp_all add: device_of_def vdev_after_def mmio_touch_def mmio_write_def mmio_set_indirect_buf_cap_def
      mmio_set_event_idx_cap_def)

lemma device_answers:
  assumes "virtio_registers D (mm_addr m) feats"
  shows "mmio_val D 0x008 m = 1"
    "mmio_val D 0x010 m = feature_word (vd_features_sel (device_of feats m)) feats"
    "mmio_val D 0x070 m = ucast (vd_status (device_of feats m))"
    "vd_queue_sel (device_of feats m) < 3 \<Longrightarrow>
      mmio_val D 0x044 m = vd_queue_ready (device_of feats m) (vd_queue_sel (device_of feats m))"
  using assms by (auto simp: virtio_registers_def mmio_val_def device_of_def Let_def)

text \<open>All writes to the registers of the device, as offsets and values in their order.\<close>

fun register_writes :: "u64 \<Rightarrow> mmio_access list \<Rightarrow> (u64 \<times> u32) list" where
  "register_writes a [] = []"
| "register_writes a (MRead x # l) = register_writes a l"
| "register_writes a (MWrite x v # l) = (x - a, v) # register_writes a l"

lemma register_writes_append: "register_writes a (l @ l') = register_writes a l @ register_writes a l'"
  by (induction a l rule: register_writes.induct) simp_all

definition mmio_writes :: "virtio_mmio \<Rightarrow> (u64 \<times> u32) list" where
  "mmio_writes m = register_writes (mm_addr m) (mm_log m)"

lemma mmio_writes_ops [simp]:
  "mmio_writes (mmio_touch off m) = mmio_writes m"
  "mmio_writes (mmio_write off w m) = mmio_writes m @ [(off, w)]"
  "mmio_writes (mmio_set_indirect_buf_cap f m) = mmio_writes m"
  "mmio_writes (mmio_set_event_idx_cap f m) = mmio_writes m"
  by (simp_all add: mmio_writes_def mmio_touch_def mmio_write_def register_writes_append
      mmio_set_indirect_buf_cap_def mmio_set_event_idx_cap_def)

section \<open>Words of features\<close>

lemma mask_32: "(0xffffffff :: u64) = mask 32"
  by (simp add: mask_eq_exp_minus_1)

text \<open>The two words that the driver reads are the offered features, and the two that it writes the accepted ones.\<close>

lemma feature_words_read: "push_bit 32 (ucast (feature_word 1 F)) OR ucast (feature_word 0 F) = F"
  unfolding feature_word_def by (rule bit_word_eqI) (auto simp: bit_simps)

lemma feature_words_written:
  "set_feature_word 0 (ucast (F AND 0xffffffff)) (set_feature_word 1 (ucast (drop_bit 32 F)) G) = F"
  unfolding set_feature_word_def mask_32 by (rule bit_word_eqI) (auto simp: bit_simps)

lemma accepted_offered: "(feats AND drv) AND NOT feats = (0 :: u64)"
  by (rule bit_word_eqI) (auto simp: bit_simps)

end
