(* ===== verification/Virtio_Net.thy ===== *)
theory Virtio_Net
  imports Virtio_Device Net_Address
begin

text \<open>
  The network driver of \<^verbatim>\<open>src/src/devices/virtio/net.rs\<close>: negotiation and initialisation in
  \<^verbatim>\<open>VirtioNet::new\<close>, refilling of the receive queue, the receive part of the interrupt handler
  (the hand-over to the network stack is in \<^verbatim>\<open>Net_Stack\<close>), and the two operations of the
  \<^verbatim>\<open>Netif\<close> trait that send.  The time stamp counter, the heap and the device are parameters.
\<close>

section \<open>State\<close>

record virtio_net =
  vn_id :: nat
  vn_virtio :: virtio_mmio
  vn_rxq :: virtqueue
  vn_txq :: virtqueue
  vn_cxq :: virtqueue
  vn_macaddr :: mac_address
  vn_flag_csum :: bool
  vn_flag_guest_csum :: bool
  vn_flag_mac :: bool
  vn_flag_guest_tso4 :: bool
  vn_flag_guest_ecn :: bool
  vn_flag_guest_ufo :: bool
  vn_flag_host_tso4 :: bool
  vn_flag_host_ecn :: bool
  vn_flag_mergeable_rxbufs :: bool
  vn_flag_status :: bool

section \<open>Initialisation\<close>

text \<open>\<^verbatim>\<open>dev.set_status(dev.get_status() | bits)\<close>.\<close>

definition vnet_add_status :: "mmio_device \<Rightarrow> u8 \<Rightarrow> virtio_mmio \<Rightarrow> virtio_mmio" where
  "vnet_add_status D bits dev = (let (s, dev) = mmio_get_status D dev in mmio_set_status (s OR bits) dev)"

definition drv_features :: u64 where
  "drv_features = 0x30000000 OR 0x1AEA3"

definition vnet_generate_mac :: "u64 \<Rightarrow> mac_address" where
  "vnet_generate_mac tscnum = mac_new
     [0x00, 0x16, 0x3e,
      ucast ((drop_bit 0 tscnum AND 0xff) XOR (drop_bit 40 tscnum AND 0xff) XOR (drop_bit 16 tscnum AND 0xff)),
      ucast ((drop_bit 56 tscnum AND 0xff) XOR (drop_bit 32 tscnum AND 0xff) XOR (drop_bit 8 tscnum AND 0xff)),
      ucast ((drop_bit 48 tscnum AND 0xff) XOR (drop_bit 24 tscnum AND 0xff) XOR (drop_bit 0 tscnum AND 0xff))]"

definition vnet_read_mac :: "mmio_device \<Rightarrow> virtio_mmio \<Rightarrow> mac_address \<times> virtio_mmio" where
  "vnet_read_mac D dev =
     (let (b0, dev) = mmio_read_config D 0 dev;
          (b1, dev) = mmio_read_config D 1 dev;
          (b2, dev) = mmio_read_config D 2 dev;
          (b3, dev) = mmio_read_config D 3 dev;
          (b4, dev) = mmio_read_config D 4 dev;
          (b5, dev) = mmio_read_config D 5 dev
      in (mac_new [b0, b1, b2, b3, b4, b5], dev))"

definition vnet_setup_queue ::
  "heap_source \<Rightarrow> mmio_device \<Rightarrow> u32 \<Rightarrow> bool \<Rightarrow> virtio_mmio \<Rightarrow> nat \<Rightarrow> (virtqueue \<times> virtio_mmio \<times> nat) res"
where
  "vnet_setup_queue heap D idx need_interrupt dev n =
     rbind (mmio_select_queue D idx dev) (\<lambda>dev.
       let (sz, dev) = mmio_get_queue_size D dev in
       rbind (vq_new heap sz (mm_indirect_buf_cap dev) need_interrupt n) (\<lambda>(queue, n).
         Inr (queue, mmio_activate_queue idx (mmio_setup_queue queue dev), n)))"

definition rx_buffer_size :: "bool \<Rightarrow> bool \<Rightarrow> bool \<Rightarrow> usize" where
  "rx_buffer_size mergeable tso4 ufo = (if mergeable \<and> (tso4 \<or> ufo) then 17 * 4096 else 1 * 4096)"

text \<open>The loop that allocates buffers and pushes them to the receive queue.\<close>

fun rx_fill :: "heap_source \<Rightarrow> usize \<Rightarrow> nat \<Rightarrow> virtqueue \<Rightarrow> nat \<Rightarrow> (virtqueue \<times> nat) res" where
  "rx_fill heap sz 0 q n = Inr (q, n)"
| "rx_fill heap sz (Suc k) q n =
     rbind (buffer_new heap sz 4096 n) (\<lambda>r. case r of
       Inr (b, n') \<Rightarrow> rbind (vq_push b False q) (\<lambda>q'. rx_fill heap sz k q' n')
     | Inl _ \<Rightarrow> rx_fill heap sz k q n)"

definition vnet_new ::
  "heap_source \<Rightarrow> mmio_device \<Rightarrow> u64 \<Rightarrow> nat \<Rightarrow> virtio_mmio \<Rightarrow> nat \<Rightarrow> (virtio_net option \<times> nat) res"
where
  "vnet_new heap D tsc idn dev n =
     (let (ty, dev) = mmio_get_type D dev in
      if ty = 0x01 then
        let dev = mmio_set_status 0 dev;
            dev = vnet_add_status D 0x01 dev;
            dev = vnet_add_status D 0x02 dev;
            (dev_features, dev) = mmio_get_available_features D dev;
            subset_features = dev_features AND drv_features;
            dev = mmio_set_indirect_buf_cap (subset_features AND 0x10000000 \<noteq> 0) dev;
            dev = mmio_set_event_idx_cap (subset_features AND 0x20000000 \<noteq> 0) dev;
            flag_mac = (subset_features AND 0x000020 \<noteq> 0);
            flag_guest_tso4 = (subset_features AND 0x000080 \<noteq> 0);
            flag_guest_ufo = (subset_features AND 0x000400 \<noteq> 0);
            flag_mergeable_rxbufs = (subset_features AND 0x008000 \<noteq> 0);
            dev = mmio_set_enabled_features subset_features dev
        in
        rbind (if \<not> mmio_is_legacy dev then
                 let dev = vnet_add_status D 0x08 dev; (s, dev) = mmio_get_status D dev
                 in if s AND 0x08 = 0x08 then Inr dev else Inl Assert_failed
               else Inr dev) (\<lambda>dev.
        let (macaddr, dev) = (if \<not> flag_mac then (vnet_generate_mac tsc, dev) else vnet_read_mac D dev) in
        rbind (vnet_setup_queue heap D 0 True dev n) (\<lambda>(rxqueue, dev, n).
        rbind (vnet_setup_queue heap D 1 False dev n) (\<lambda>(txqueue, dev, n).
        rbind (vnet_setup_queue heap D 2 True dev n) (\<lambda>(cxqueue, dev, n).
        rbind (rx_fill heap (rx_buffer_size flag_mergeable_rxbufs flag_guest_tso4 flag_guest_ufo)
                 (unat (vq_get_avail_free_size rxqueue div 3)) rxqueue n) (\<lambda>(rxqueue, n).
        let dev = mmio_kick_queue 0 dev;
            dev = vnet_add_status D 0x04 dev
        in Inr (Some
          \<lparr>vn_id = idn, vn_virtio = dev, vn_rxq = rxqueue, vn_txq = txqueue, vn_cxq = cxqueue,
           vn_macaddr = macaddr,
           vn_flag_csum = (subset_features AND 0x000001 \<noteq> 0),
           vn_flag_guest_csum = (subset_features AND 0x000002 \<noteq> 0),
           vn_flag_mac = flag_mac,
           vn_flag_guest_tso4 = flag_guest_tso4,
           vn_flag_guest_ecn = (subset_features AND 0x000200 \<noteq> 0),
           vn_flag_guest_ufo = flag_guest_ufo,
           vn_flag_host_tso4 = (subset_features AND 0x000800 \<noteq> 0),
           vn_flag_host_ecn = (subset_features AND 0x002000 \<noteq> 0),
           vn_flag_mergeable_rxbufs = flag_mergeable_rxbufs,
           vn_flag_status = (subset_features AND 0x010000 \<noteq> 0)\<rparr>, n))))))
      else Inr (None, n))"

section \<open>Receiving\<close>

definition fill_rx_queue :: "heap_source \<Rightarrow> virtio_net \<Rightarrow> nat \<Rightarrow> (virtio_net \<times> nat) res" where
  "fill_rx_queue heap v n =
     (let sz = vq_get_avail_free_size (vn_rxq v) - 1 in
      if sz > 32 then
        rbind (rx_fill heap
                 (rx_buffer_size (vn_flag_mergeable_rxbufs v) (vn_flag_guest_tso4 v) (vn_flag_guest_ufo v))
                 (unat sz) (vn_rxq v) n) (\<lambda>(rxq, n).
          Inr (v\<lparr>vn_rxq := rxq, vn_virtio := mmio_kick_queue 0 (vn_virtio v)\<rparr>, n))
      else Inr (v, n))"

text \<open>
  The interrupt handler up to the packets it hands over: acknowledge, refill, pop, and move every
  packet behind the 12 bytes of the virtio header.  \<open>None\<close>: the interrupt was not for this queue.
\<close>

definition vnet_interrupt_rx ::
  "heap_source \<Rightarrow> mmio_device \<Rightarrow> virtio_net \<Rightarrow> nat \<Rightarrow> (buffer list option \<times> virtio_net \<times> nat) res"
where
  "vnet_interrupt_rx heap D v n =
     (let (isr, dev) = mmio_read_and_ack_isr D (vn_virtio v); v = v\<lparr>vn_virtio := dev\<rparr> in
      if isr > 0 then
        rbind (fill_rx_queue heap v n) (\<lambda>(v, n).
        rbind (vq_pop (vn_rxq v)) (\<lambda>(rxdata, rxq).
          Inr (Some (map (buffer_slide_position 12) rxdata), v\<lparr>vn_rxq := rxq\<rparr>, n)))
      else Inr (None, v, n))"

section \<open>Sending\<close>

definition vnet_pre_xmit :: "heap_source \<Rightarrow> usize \<Rightarrow> nat \<Rightarrow> (buffer \<times> nat) res" where
  "vnet_pre_xmit heap sz n =
     (let actual_size = sz + 12 in
      rbind (buffer_new heap actual_size 4096 n) (\<lambda>r. case r of
        Inr (b, n') \<Rightarrow>
          rbind (buffer_slice b) (\<lambda>sl.
          rbind (rfold (\<lambda>i sl. set_at sl i 0x00) [0..<12] sl) (\<lambda>sl.
            Inr (buffer_slide_position 12 (buffer_put_slice sl b), n')))
      | Inl _ \<Rightarrow> Inl Explicit_panic))"

definition vnet_xmit :: "buffer \<Rightarrow> virtio_net \<Rightarrow> virtio_net res" where
  "vnet_xmit b v =
     rbind (vq_push b True (vn_txq v)) (\<lambda>txq.
       Inr (v\<lparr>vn_txq := txq, vn_virtio := mmio_kick_queue 1 (vn_virtio v)\<rparr>))"

section \<open>The methods that only report\<close>

definition vnet_get_irq :: "virtio_net \<Rightarrow> u8" where
  "vnet_get_irq v = mmio_get_irq (vn_virtio v)"

definition vnet_recv :: "virtio_net \<Rightarrow> virtio_net" where
  "vnet_recv v = v"

definition vnet_get_id :: "virtio_net \<Rightarrow> nat" where
  "vnet_get_id v = vn_id v"

definition vnet_get_macaddress :: "virtio_net \<Rightarrow> mac_address" where
  "vnet_get_macaddress v = vn_macaddr v"

definition vnet_get_drivername :: "virtio_net \<Rightarrow> string" where
  "vnet_get_drivername v = ''virtio-net''"

section \<open>Pushing many buffers\<close>

definition vq_push_all :: "buffer list \<Rightarrow> virtqueue \<Rightarrow> virtqueue" where
  "vq_push_all bs q = fold (\<lambda>b. vq_after_push b False) bs q"

lemma vq_push_all_simps [simp]:
  "vq_push_all [] q = q" "vq_push_all (b # bs) q = vq_push_all bs (vq_after_push b False q)"
  by (simp_all add: vq_push_all_def)

lemma vq_push_all_wf: "vq_wf q \<Longrightarrow> vq_wf (vq_push_all bs q)"
  by (induction bs arbitrary: q) (simp_all add: vq_after_push_wf)

lemma vq_push_all_fields [simp]:
  "vq_size (vq_push_all bs q) = vq_size q"
  "vq_last_used_idx (vq_push_all bs q) = vq_last_used_idx q"
  "vq_used_idx (vq_push_all bs q) = vq_used_idx q"
  "vq_used_ring (vq_push_all bs q) = vq_used_ring q"
  "vq_avail_idx (vq_push_all bs q) = vq_avail_idx q + of_nat (length bs)"
  "vq_slot (vq_push_all bs q) = vq_slot q"
  "vq_completed (vq_push_all bs q) = vq_completed q"
  by (induction bs arbitrary: q) (simp_all add: ac_simps)

lemma vq_after_push_buffers:
  assumes "vq_wf q"
  shows "vq_buffers (vq_after_push b g q) =
     (vq_buffers q)[unat (vq_avail_idx q) mod unat (vq_size q) := Some b]"
  using assms by (simp add: vq_after_push_def Let_def vq_wf_def)

text \<open>
  As long as no more buffers are pushed than the queue has entries, the j-th of them ends up
  j entries behind the available index, and the other entries keep their buffers.
\<close>

lemma mod_shift_neq:
  assumes "0 < j" "j < (n::nat)" shows "(a + j) mod n \<noteq> a mod n"
proof
  assume "(a + j) mod n = a mod n"
  then have "n dvd j" using mod_eq_dvd_iff_nat [of a "a + j" n] by simp
  with assms show False by (auto dest: dvd_imp_le)
qed

lemma vq_push_all_buffers:
  assumes "vq_wf q" "length bs \<le> unat (vq_size q)"
  shows "(\<forall>j<length bs. vq_buffers (vq_push_all bs q) ! ((unat (vq_avail_idx q) + j) mod unat (vq_size q)) = Some (bs ! j)) \<and>
    (\<forall>i. (\<forall>j<length bs. i \<noteq> (unat (vq_avail_idx q) + j) mod unat (vq_size q)) \<longrightarrow>
       vq_buffers (vq_push_all bs q) ! i = vq_buffers q ! i)"
  using assms
proof (induction bs arbitrary: q)
  case Nil
  then show ?case by simp
next
  case (Cons b bs)
  let ?q = "vq_after_push b False q" and ?n = "unat (vq_size q)" and ?a = "unat (vq_avail_idx q)"
  have wf: "vq_wf q" by (rule Cons.prems)
  have shift: "(unat (vq_avail_idx q + 1) + j) mod ?n = (?a + Suc j) mod ?n" for j
  proof -
    have "(unat (vq_avail_idx q + 1) + j) mod ?n = (unat (vq_avail_idx q + 1) mod ?n + j) mod ?n"
      by (simp only: mod_add_left_eq)
    also have "\<dots> = ((?a + 1) mod ?n + j) mod ?n" by (simp only: vq_index_add [OF wf] unat_1)
    also have "\<dots> = (?a + 1 + j) mod ?n" by (simp only: mod_add_left_eq)
    finally show ?thesis by simp
  qed
  have len: "length bs \<le> unat (vq_size ?q)" using Cons.prems(2) by simp
  note IH = Cons.IH [OF vq_after_push_wf [OF wf, of b False] len, simplified shift vq_after_push_fields]
  have here: "vq_buffers ?q ! (?a mod ?n) = Some b"
    using vq_wf_lengths(4) [OF wf] vq_size_bounds(1) [OF wf] by (simp add: vq_after_push_buffers [OF wf])
  have first: "vq_buffers (vq_push_all bs ?q) ! (?a mod ?n) = Some b"
  proof -
    have "?a mod ?n \<noteq> (?a + Suc j) mod ?n" if "j < length bs" for j
      using that Cons.prems(2) mod_shift_neq [of "Suc j" ?n ?a] by auto
    with IH here show ?thesis by metis
  qed
  show ?case
  proof (intro conjI allI impI)
    fix j assume "j < length (b # bs)"
    with IH first show "vq_buffers (vq_push_all (b # bs) q) ! ((?a + j) mod ?n) = Some ((b # bs) ! j)"
      by (cases j) auto
  next
    fix i assume i: "\<forall>j<length (b # bs). i \<noteq> (?a + j) mod ?n"
    then have "i \<noteq> ?a mod ?n" by force
    moreover have "i \<noteq> (?a + Suc j) mod ?n" if "j < length bs" for j using i that by auto
    ultimately show "vq_buffers (vq_push_all (b # bs) q) ! i = vq_buffers q ! i"
      using IH by (simp add: vq_after_push_buffers [OF wf])
  qed
qed

text \<open>
  Popping needs less than the invariant: the completed entries name their own slots and hold a
  buffer.
\<close>

lemma vq_pop_loop_slots:
  assumes "vq_wf q" "vq_completed q \<le> unat (vq_size q)"
    and "\<And>i. i < vq_completed q \<Longrightarrow> unat (used_id (vq_used_ring q ! vq_slot q i)) = vq_slot q i"
    and "\<And>i. i < vq_completed q \<Longrightarrow> vq_buffers q ! vq_slot q i \<noteq> None"
  shows "\<exists>q'. vq_pop_loop q ret = Inr (ret @ map (\<lambda>i. the (vq_buffers q ! vq_slot q i)) [0..<vq_completed q], q')"
  using assms
proof (induction "vq_completed q" arbitrary: q ret)
  case 0
  then have "vq_used_idx q - vq_last_used_idx q = 0" by (metis vq_completed_def unat_eq_zero)
  then have "vq_last_used_idx q = vq_used_idx q" by simp
  with 0 show ?case by (simp add: vq_pop_loop.simps [of q])
next
  case (Suc n)
  let ?q = "vq_after_pop q" and ?b = "the (vq_buffers q ! vq_slot q 0)"
  note wf = Suc.prems(1)
  have pos: "0 < vq_completed q" using Suc.hyps(2) by simp
  have ne: "vq_last_used_idx q \<noteq> vq_used_idx q" using pos by (auto simp: vq_completed_def)
  obtain b where b: "vq_buffers q ! vq_slot q 0 = Some b" using Suc.prems(4) [OF pos] by blast
  have one: "vq_pop_one q = Inr ([b], ?q)"
    using vq_slot_less [OF wf, of 0] vq_wf_lengths [OF wf] Suc.prems(3) [OF pos] b
    by (simp add: vq_pop_one_def vq_last_used_slot [OF wf] slice_simps vq_after_pop_def Let_def)
  have "vq_used_idx q - vq_last_used_idx q \<noteq> 0" using ne by simp
  then have "unat (vq_used_idx q - vq_last_used_idx q - 1) = vq_completed q - 1"
    by (simp add: vq_completed_def unat_minus_one)
  then have n: "n = vq_completed ?q" using Suc.hyps(2) by (simp add: vq_completed_def diff_diff_eq)
  have slot: "vq_slot ?q i = vq_slot q (Suc i)" for i
    using vq_index_add [OF wf, of "vq_last_used_idx q" 1] by (simp add: vq_slot_def) (metis add_Suc mod_add_left_eq)
  have keep: "vq_buffers ?q ! vq_slot q (Suc i) = vq_buffers q ! vq_slot q (Suc i)" if "i < n" for i
  proof -
    have "vq_slot q 0 \<noteq> vq_slot q (Suc i)"
      using vq_slot_inj [of q 0 "Suc i"] that Suc.hyps(2) Suc.prems(2) by force
    then show ?thesis by (simp add: vq_after_pop_def)
  qed
  have "\<exists>q'. vq_pop_loop ?q (ret @ [b]) =
      Inr ((ret @ [b]) @ map (\<lambda>i. the (vq_buffers ?q ! vq_slot ?q i)) [0..<vq_completed ?q], q')"
    using n keep Suc.hyps(2) Suc.prems by (intro Suc.hyps(1)) (auto simp: slot)
  moreover have "map (\<lambda>i. the (vq_buffers ?q ! vq_slot ?q i)) [0..<vq_completed ?q] =
      map (\<lambda>i. the (vq_buffers q ! vq_slot q (Suc i))) [0..<n]"
    using keep n by (simp add: slot)
  moreover have "map (\<lambda>i. the (vq_buffers q ! vq_slot q i)) [0..<vq_completed q] =
      b # map (\<lambda>i. the (vq_buffers q ! vq_slot q (Suc i))) [0..<n]"
    unfolding Suc.hyps(2) [symmetric] by (simp add: b upt_conv_Cons map_Suc_upt [symmetric] del: upt_Suc)
  ultimately show ?case using ne one by (simp add: vq_pop_loop.simps [of q])
qed

text \<open>
  Refilling a queue of \<open>N\<close> entries to \<open>N - 1\<close> outstanding ones before it is popped: the popped
  list ends with the newest completed buffer, and in front of it are the last of the new ones.
\<close>

lemma refilled_buffers:
  assumes "vq_inv q" "0 < vq_completed q"
    and "length bs = unat (vq_size q) - (vq_pending q - vq_completed q) - 1"
  defines "c \<equiv> vq_completed q" and "Q \<equiv> vq_push_all bs q"
  shows "i < c - 1 \<Longrightarrow> vq_buffers Q ! vq_slot q i = Some (bs ! (unat (vq_size q) - vq_pending q + i))"
    "vq_buffers Q ! vq_slot q (c - 1) = vq_buffers q ! vq_slot q (c - 1)"
proof -
  let ?n = "unat (vq_size q)" and ?p = "vq_pending q"
  have wf: "vq_wf q" and cp: "c \<le> ?p" and pn: "?p \<le> ?n" using assms(1) by (simp_all add: vq_inv_def c_def)
  have avail: "(unat (vq_avail_idx q) + j) mod ?n = vq_slot q (?p + j)" for j
    using vq_free_head_slot [OF wf] wf unfolding vq_wf_def vq_slot_def by (metis add.assoc mod_add_left_eq)
  have len: "length bs \<le> ?n" using assms(3) by simp
  note B = vq_push_all_buffers [OF wf len, unfolded avail]
  show "vq_buffers Q ! vq_slot q i = Some (bs ! (?n - ?p + i))" if "i < c - 1"
  proof -
    have j: "?n - ?p + i < length bs" using that assms(3) cp pn by (simp add: c_def)
    have e: "?p + (?n - ?p + i) = ?n + i" using pn by simp
    have "vq_slot q (?p + (?n - ?p + i)) = vq_slot q i"
      unfolding e vq_slot_def by (metis add.left_commute mod_add_self1)
    with B j show ?thesis unfolding Q_def by metis
  qed
  have "vq_slot q (c - 1) \<noteq> vq_slot q (?p + j)" if "j < length bs" for j
  proof -
    have d: "0 < ?p + j - (c - 1)" "?p + j - (c - 1) < ?n" using that assms(2,3) cp pn by (simp_all add: c_def)
    have "?p + j = (c - 1) + (?p + j - (c - 1))" using cp by simp
    then have "vq_slot q (?p + j) = (unat (vq_last_used_idx q) + (c - 1) + (?p + j - (c - 1))) mod ?n"
      unfolding vq_slot_def by (metis add.assoc)
    with mod_shift_neq [OF d, of "unat (vq_last_used_idx q) + (c - 1)"] show ?thesis unfolding vq_slot_def by metis
  qed
  with B show "vq_buffers Q ! vq_slot q (c - 1) = vq_buffers q ! vq_slot q (c - 1)" unfolding Q_def by blast
qed

lemma pop_after_refill:
  assumes "vq_inv q" "0 < vq_completed q"
    and "length bs = unat (vq_size q) - (vq_pending q - vq_completed q) - 1"
  shows "\<exists>q'. vq_pop (vq_push_all bs q) =
     Inr (drop (unat (vq_size q) - vq_pending q) bs @ [vq_items q ! (vq_completed q - 1)], q')"
proof -
  let ?n = "unat (vq_size q)" and ?p = "vq_pending q" and ?c = "vq_completed q" and ?Q = "vq_push_all bs q"
  have wf: "vq_wf q" and cp: "?c \<le> ?p" and pn: "?p \<le> ?n"
    and ids: "\<And>i. i < ?c \<Longrightarrow> unat (used_id (vq_used_ring q ! vq_slot q i)) = vq_slot q i"
    using assms(1) by (auto simp: vq_inv_def)
  note B = refilled_buffers [OF assms]
  have "vq_posted q (vq_slot q (?c - 1))" using assms(1,2) cp by (simp add: vq_inv_def)
  then have some: "vq_buffers q ! vq_slot q (?c - 1) \<noteq> None" by (auto simp: vq_posted_def split: option.splits)
  have all: "vq_buffers ?Q ! vq_slot q i \<noteq> None" if "i < ?c" for i
    using that B some by (cases "i = ?c - 1") auto
  have "\<exists>q'. vq_pop_loop ?Q [] = Inr ([] @ map (\<lambda>i. the (vq_buffers ?Q ! vq_slot ?Q i)) [0..<vq_completed ?Q], q')"
    using vq_push_all_wf [OF wf] cp pn ids all by (intro vq_pop_loop_slots) simp_all
  moreover have "map (\<lambda>i. the (vq_buffers ?Q ! vq_slot q i)) [0..<?c] = drop (?n - ?p) bs @ [vq_items q ! (?c - 1)]"
    (is "?l = ?r")
  proof (rule nth_equalityI)
    show "length ?l = length ?r" using assms(2,3) cp pn by simp
    show "?l ! i = ?r ! i" if "i < length ?l" for i
    proof (cases "i = ?c - 1")
      case True
      then show ?thesis using that assms(2,3) cp pn B(2) by (simp add: nth_append vq_items_def)
    next
      case False
      then have "i < ?c - 1" using that by simp
      then show ?thesis using B(1) [of i] assms(3) cp pn that by (simp add: nth_append)
    qed
  qed
  ultimately show ?thesis by (simp add: vq_pop_def)
qed

section \<open>Refilling and receiving\<close>

text \<open>The buffer that the n-th allocation of the heap gives.\<close>

definition fresh_buffer :: "heap_source \<Rightarrow> usize \<Rightarrow> nat \<Rightarrow> buffer" where
  "fresh_buffer heap sz n = \<lparr>buf_ptr = fst (heap n), buf_size = sz, buf_position = 0,
     buf_mem = map (snd (heap n)) [0..<unat (align_up sz 4096)]\<rparr>"

lemma buffer_new_fresh:
  assumes "0 < unat sz" "unat sz \<le> 2 ^ 63"
  shows "buffer_new heap sz 4096 n = Inr (Inr (fresh_buffer heap sz n, Suc n))"
proof -
  have "unat (align_up sz 4096) \<le> 2 ^ 64 - 4096"
    unfolding unat_align_up [OF assms] using assms(2) by simp
  then show ?thesis by (simp add: buffer_new_def Let_def layout_ok_page fresh_buffer_def)
qed

lemma rx_fill_ok:
  assumes "vq_wf q" "0 < unat sz" "unat sz \<le> 2 ^ 63"
  shows "rx_fill heap sz k q n = Inr (vq_push_all (map (fresh_buffer heap sz) [n..<n + k]) q, n + k)"
  using assms(1)
proof (induction k arbitrary: q n)
  case 0
  then show ?case by simp
next
  case (Suc k)
  have "[n..<n + Suc k] = n # [Suc n..<Suc n + k]" by (simp add: upt_conv_Cons)
  with Suc show ?case
    by (simp add: buffer_new_fresh [OF assms(2,3)] vq_push_ok vq_after_push_wf del: upt_Suc)
qed

abbreviation vn_buffer_size :: "virtio_net \<Rightarrow> usize" where
  "vn_buffer_size v \<equiv>
     rx_buffer_size (vn_flag_mergeable_rxbufs v) (vn_flag_guest_tso4 v) (vn_flag_guest_ufo v)"

lemma rx_buffer_size_bounds:
  "0 < unat (rx_buffer_size a b c)" "unat (rx_buffer_size a b c) \<le> 2 ^ 63"
  by (simp_all add: rx_buffer_size_def)

text \<open>The entries the device owns, and the free size the driver computes from the indices.\<close>

lemma outstanding_entries:
  assumes "vq_inv q" shows "unat (vq_avail_idx q - vq_used_idx q) = vq_pending q - vq_completed q"
proof -
  have "vq_used_idx q - vq_last_used_idx q \<le> vq_avail_idx q - vq_last_used_idx q"
    using assms by (simp add: vq_inv_def vq_completed_def vq_pending_def word_le_nat_alt)
  from unat_sub [OF this] show ?thesis by (simp add: vq_pending_def vq_completed_def)
qed

lemma avail_free_size_unwrapped:
  assumes "vq_inv q" "vq_used_idx q \<le> vq_avail_idx q"
  shows "unat (vq_get_avail_free_size q) = unat (vq_size q) - (vq_pending q - vq_completed q)"
proof -
  have le: "vq_pending q \<le> unat (vq_size q)" using assms(1) by (simp add: vq_inv_def)
  have "vq_avail_idx q - vq_used_idx q \<le> vq_size q"
    using le outstanding_entries [OF assms(1)] by (simp add: word_le_nat_alt)
  from unat_sub [OF this] show ?thesis
    using assms(2) by (simp add: vq_get_avail_free_size_def outstanding_entries [OF assms(1)])
qed

text \<open>What \<open>fill_rx_queue\<close> does, by the number \<open>f\<close> of free entries.\<close>

lemma fill_rx_queue_ok:
  assumes "vq_inv (vn_rxq v)" "vq_used_idx (vn_rxq v) \<le> vq_avail_idx (vn_rxq v)"
    and "f = unat (vq_size (vn_rxq v)) - (vq_pending (vn_rxq v) - vq_completed (vn_rxq v))" "0 < f"
  shows "fill_rx_queue heap v n =
    (if 33 < f then
       Inr (v\<lparr>vn_rxq := vq_push_all (map (fresh_buffer heap (vn_buffer_size v)) [n..<n + (f - 1)]) (vn_rxq v),
              vn_virtio := mmio_kick_queue 0 (vn_virtio v)\<rparr>, n + (f - 1))
     else Inr (v, n))"
proof -
  let ?free = "vq_get_avail_free_size (vn_rxq v)"
  have f: "unat ?free = f" using avail_free_size_unwrapped [OF assms(1,2)] assms(3) by simp
  have "?free \<noteq> 0" using f assms(4) by auto
  then have sz: "unat (?free - 1) = f - 1" by (simp add: unat_minus_one f)
  have "vq_wf (vn_rxq v)" using assms(1) by (simp add: vq_inv_def)
  then show ?thesis
    by (auto simp: fill_rx_queue_def Let_def word_less_nat_alt sz
        rx_fill_ok [OF _ rx_buffer_size_bounds])
qed

text \<open>The device signals a used buffer: bit 0 of its interrupt status.\<close>

definition used_signalled :: "mmio_device \<Rightarrow> virtio_net \<Rightarrow> bool" where
  "used_signalled D v \<longleftrightarrow> D (mm_log (vn_virtio v)) (mm_addr (vn_virtio v) + 0x060) AND 1 \<noteq> 0"

lemma vnet_interrupt_rx_used:
  assumes "used_signalled D v"
  shows "\<exists>dev. vnet_interrupt_rx heap D v n =
     rbind (fill_rx_queue heap (v\<lparr>vn_virtio := dev\<rparr>) n) (\<lambda>(v, n).
       rbind (vq_pop (vn_rxq v)) (\<lambda>(rxdata, rxq).
         Inr (Some (map (buffer_slide_position 12) rxdata), v\<lparr>vn_rxq := rxq\<rparr>, n)))"
proof -
  let ?s = "D (mm_log (vn_virtio v)) (mm_addr (vn_virtio v) + 0x060)"
  have "(ucast (?s AND 1) :: u8) \<noteq> 0"
  proof
    assume z: "(ucast (?s AND 1) :: u8) = 0"
    have "?s AND 1 = 0"
    proof (rule bit_word_eqI)
      fix k assume "k < LENGTH(32)"
      have "\<not> bit (ucast (?s AND 1) :: u8) 0" by (simp add: z)
      then show "bit (?s AND 1) k \<longleftrightarrow> bit (0 :: u32) k" by (cases k) (simp_all add: bit_simps)
    qed
    with assms show False by (simp add: used_signalled_def)
  qed
  then have "(0 :: u8) < ucast (?s AND 1)" by (simp add: word_gt_0)
  then show ?thesis
    by (auto simp: vnet_interrupt_rx_def mmio_read_and_ack_isr_def mmio_read_def Let_def)
qed

lemma vq_pop_completed:
  assumes "vq_inv q" "vq_completed q = 0"
  shows "\<exists>q'. vq_pop (vq_push_all bs q) = Inr ([], q')"
proof -
  have "vq_used_idx q - vq_last_used_idx q = 0" using assms(2) by (metis vq_completed_def unat_eq_zero)
  then have "vq_last_used_idx (vq_push_all bs q) = vq_used_idx (vq_push_all bs q)" by simp
  then show ?thesis by (simp add: vq_pop_def vq_pop_loop.simps [of "vq_push_all bs q"])
qed

lemma interrupt_rx_delivers:
  assumes "vq_inv (vn_rxq v)" and "vq_used_idx (vn_rxq v) \<le> vq_avail_idx (vn_rxq v)"
    and "used_signalled D v"
    and "f = unat (vq_size (vn_rxq v)) - (vq_pending (vn_rxq v) - vq_completed (vn_rxq v))" and "0 < f"
    and "vq_completed (vn_rxq v) \<le> 1 \<or> f \<le> 33"
  shows "\<exists>dev q n'. vnet_interrupt_rx heap D v n =
    Inr (Some (map (buffer_slide_position 12) (take (vq_completed (vn_rxq v)) (vq_items (vn_rxq v)))),
      v\<lparr>vn_virtio := dev, vn_rxq := q\<rparr>, n')"
proof -
  let ?q = "vn_rxq v" and ?c = "vq_completed (vn_rxq v)"
  let ?bs = "map (fresh_buffer heap (vn_buffer_size v)) [n..<n + (f - 1)]"
  note fill = fill_rx_queue_ok [of "v\<lparr>vn_virtio := dev\<rparr>" for dev, simplified, OF assms(1,2,4,5)]
  obtain dev where irq: "vnet_interrupt_rx heap D v n =
     rbind (fill_rx_queue heap (v\<lparr>vn_virtio := dev\<rparr>) n) (\<lambda>(v, n).
       rbind (vq_pop (vn_rxq v)) (\<lambda>(rxdata, rxq).
         Inr (Some (map (buffer_slide_position 12) rxdata), v\<lparr>vn_rxq := rxq\<rparr>, n)))"
    using vnet_interrupt_rx_used [OF assms(3)] by blast
  show ?thesis
  proof (cases "33 < f")
    case False
    obtain q' where "vq_pop ?q = Inr (take ?c (vq_items ?q), q')"
      using vq_pop_loop_refines [OF assms(1), of "[]"] by (auto simp: vq_pop_def)
    with False show ?thesis by (auto simp: irq fill)
  next
    case True
    then have c: "?c \<le> 1" using assms(6) by simp
    have "\<exists>q'. vq_pop (vq_push_all ?bs ?q) = Inr (take ?c (vq_items ?q), q')"
    proof (cases "?c = 0")
      case True
      then show ?thesis using vq_pop_completed [OF assms(1) True, of ?bs] by simp
    next
      case False
      with c have c1: "?c = 1" by simp
      have "0 < length (vq_items ?q)" using assms(1) c1 by (simp add: vq_inv_def)
      then have items: "take 1 (vq_items ?q) = [vq_items ?q ! 0]" by (simp add: take_Suc_conv_app_nth)
      have "drop (unat (vq_size ?q) - vq_pending ?q) ?bs = []"
        using c1 assms(1,4) by (auto simp: vq_inv_def)
      then show ?thesis using pop_after_refill [OF assms(1), of ?bs] c1 assms(4) items by auto
    qed
    with True show ?thesis by (force simp: irq fill)
  qed
qed

text \<open>
  C14.  Received packets.  When the device signals used buffers, the available index has not wrapped
  around past the used index and an entry is free, the interrupt handler hands over exactly the
  completed buffers, in order and moved behind the 12-byte virtio header, provided that at most
  one buffer is completed or the queue is not refilled in this interrupt (at most 33 free entries).
\<close>

theorem interrupt_delivers_completed:
  assumes "vq_inv (vn_rxq v)" and "vq_used_idx (vn_rxq v) \<le> vq_avail_idx (vn_rxq v)"
    and "used_signalled D v"
    and "f = unat (vq_size (vn_rxq v)) - (vq_pending (vn_rxq v) - vq_completed (vn_rxq v))" and "0 < f"
    and "vq_completed (vn_rxq v) \<le> 1 \<or> f \<le> 33"
  shows "\<exists>v' n'. vnet_interrupt_rx heap D v n =
    Inr (Some (map (buffer_slide_position 12) (take (vq_completed (vn_rxq v)) (vq_items (vn_rxq v)))), v', n')"
  using interrupt_rx_delivers [OF assms] by blast

text \<open>
  C25.  Lost packets.  When the queue is refilled in an interrupt (more than 33 free entries) with
  \<open>c\<close> completed buffers, only the last completed one is handed over; in place of the \<open>c - 1\<close>
  others the handler hands over the last \<open>c - 1\<close> of the buffers it has just given to the device,
  because refilling reuses the entries of completed buffers that are not popped yet.
\<close>

theorem interrupt_refill_loses_packets:
  assumes "vq_inv (vn_rxq v)" and "vq_used_idx (vn_rxq v) \<le> vq_avail_idx (vn_rxq v)"
    and "used_signalled D v"
    and "f = unat (vq_size (vn_rxq v)) - (vq_pending (vn_rxq v) - vq_completed (vn_rxq v))"
    and "33 < f" and "0 < vq_completed (vn_rxq v)"
  shows "\<exists>v' n'. vnet_interrupt_rx heap D v n =
    Inr (Some (map (buffer_slide_position 12)
      (map (fresh_buffer heap (vn_buffer_size v)) [n + f - vq_completed (vn_rxq v)..<n + f - 1] @
       [vq_items (vn_rxq v) ! (vq_completed (vn_rxq v) - 1)])), v', n')"
proof -
  let ?q = "vn_rxq v" and ?c = "vq_completed (vn_rxq v)"
  let ?bs = "map (fresh_buffer heap (vn_buffer_size v)) [n..<n + (f - 1)]"
  have le: "?c \<le> vq_pending ?q" "vq_pending ?q \<le> unat (vq_size ?q)" using assms(1) by (simp_all add: vq_inv_def)
  have f1: "0 < f" using assms(5) by simp
  note fill = fill_rx_queue_ok [of "v\<lparr>vn_virtio := dev\<rparr>" for dev, simplified, OF assms(1,2,4) f1]
  have len: "length ?bs = unat (vq_size ?q) - (vq_pending ?q - ?c) - 1" using assms(4) by simp
  obtain q' where q': "vq_pop (vq_push_all ?bs ?q) =
      Inr (drop (unat (vq_size ?q) - vq_pending ?q) ?bs @ [vq_items ?q ! (?c - 1)], q')"
    using pop_after_refill [OF assms(1,6) len] by blast
  have "n + (unat (vq_size ?q) - vq_pending ?q) = n + f - ?c" "n + (f - 1) = n + f - 1"
    using assms(4,5) le by simp_all
  then have "drop (unat (vq_size ?q) - vq_pending ?q) ?bs =
      map (fresh_buffer heap (vn_buffer_size v)) [n + f - ?c..<n + f - 1]"
    by (simp add: drop_map)
  with q' vnet_interrupt_rx_used [OF assms(3), of heap n] assms(5) show ?thesis by (auto simp: fill)
qed

section \<open>Sending\<close>

lemma set_zeros_prefix:
  assumes "k \<le> length sl"
  shows "rfold (\<lambda>i sl. set_at sl i 0) [0..<k] sl = Inr (replicate k 0 @ drop k sl)"
  using assms
proof (induction k)
  case 0
  then show ?case by simp
next
  case (Suc k)
  have "replicate k (0::'a::zero) @ 0 # r = replicate (Suc k) 0 @ r" for r
    by (simp add: replicate_append_same [symmetric])
  with Suc show ?case
    by (simp add: rfold_append set_at_ok list_update_append Cons_nth_drop_Suc [symmetric])
qed

text \<open>
  A transmit buffer: 12 zero bytes of virtio header, and behind them a slice that is long enough
  for the frame.
\<close>

lemma vnet_pre_xmit_ok:
  assumes "unat sz + 12 \<le> 2 ^ 63"
  shows "\<exists>b sl. vnet_pre_xmit heap sz n = Inr (b, Suc n) \<and> buf_ptr b = fst (heap n) \<and>
     buf_size b = sz + 12 \<and> buf_position b = 12 \<and> buf_mem b = replicate 12 0 @ sl \<and>
     buffer_slice b = Inr sl \<and> length sl = ((unat sz + 11) div 4096 + 1) * 4096 - 12"
proof -
  have u: "unat (sz + 12) = unat sz + 12" using assms by (subst unat_word_ariths) simp
  then have b: "0 < unat (sz + 12)" "unat (sz + 12) \<le> 2 ^ 63" using assms by simp_all
  have len: "unat (align_up (sz + 12) 4096) = ((unat sz + 11) div 4096 + 1) * 4096"
    unfolding unat_align_up [OF b] by (simp add: u)
  define m where "m = map (snd (heap n)) [0..<unat (align_up (sz + 12) 4096)]"
  have lm: "length m = ((unat sz + 11) div 4096 + 1) * 4096" unfolding m_def length_map length_upt len by simp
  then have z: "rfold (\<lambda>i sl. set_at sl i 0) [0..<12] m = Inr (replicate 12 0 @ drop 12 m)"
    by (intro set_zeros_prefix) simp
  have "vnet_pre_xmit heap sz n = Inr (\<lparr>buf_ptr = fst (heap n), buf_size = sz + 12, buf_position = 12,
      buf_mem = replicate 12 0 @ drop 12 m\<rparr>, Suc n)"
    by (simp add: vnet_pre_xmit_def buffer_new_fresh [OF b] fresh_buffer_def m_def [symmetric] z
        buffer_slice_def buffer_put_slice_def buffer_slide_position_def)
  with lm show ?thesis by (simp add: buffer_slice_def)
qed

section \<open>Witnesses\<close>

text \<open>
  A device at address 0xd0000000 whose queues have two entries; it offers checksums, a MAC address and a feature
  that the driver does not know.
\<close>

definition sample_device :: mmio_device where
  "sample_device = emulated_device 0xd0000000 0x100000023 1"

definition sample_mmio :: virtio_mmio where
  "sample_mmio = \<lparr>mm_addr = 0xd0000000, mm_size = 4096, mm_irq = 5,
     mm_indirect_buf_cap = False, mm_event_idx_cap = False, mm_log = []\<rparr>"

definition sample_queue64 :: virtqueue where
  "sample_queue64 = (case vq_new sample_heap 64 False True 0 of Inr (q, _) \<Rightarrow> q)"

text \<open>Two buffers pushed, and one or both of them completed.\<close>

definition sample_rxq :: "nat \<Rightarrow> virtqueue" where
  "sample_rxq c = (dev_complete_next [7] ^^ c)
     (vq_after_push (sample_buffer 512) False (vq_after_push (sample_buffer 256) False sample_queue64))"

definition sample_vnet :: "nat \<Rightarrow> virtio_net" where
  "sample_vnet c = \<lparr>vn_id = 0, vn_virtio = sample_mmio, vn_rxq = sample_rxq c, vn_txq = sample_queue,
     vn_cxq = sample_queue, vn_macaddr = mac_new [2,0,0,0,0,1], vn_flag_csum = False,
     vn_flag_guest_csum = False, vn_flag_mac = False, vn_flag_guest_tso4 = False,
     vn_flag_guest_ecn = False, vn_flag_guest_ufo = False, vn_flag_host_tso4 = False,
     vn_flag_host_ecn = False, vn_flag_mergeable_rxbufs = False, vn_flag_status = False\<rparr>"

lemma sample_queue64_fields:
  "vq_inv sample_queue64" "vq_pending sample_queue64 = 0" "vq_size sample_queue64 = 64"
  "vq_avail_idx sample_queue64 = 0" "vq_used_idx sample_queue64 = 0" "vq_completed sample_queue64 = 0"
proof -
  obtain q where q: "vq_new sample_heap 64 False True 0 = Inr (q, 1)" "vq_inv q" "vq_size q = 64"
    using vq_new_ok [of 64 6 sample_heap False True 0] by auto
  have "vq_avail_idx q = 0" "vq_used_idx q = 0" "vq_last_used_idx q = 0"
    using q(1) vq_layout_ok [of 64] by (auto simp: vq_new_def Let_def)
  with q show "vq_inv sample_queue64" "vq_pending sample_queue64 = 0" "vq_size sample_queue64 = 64"
    "vq_avail_idx sample_queue64 = 0" "vq_used_idx sample_queue64 = 0" "vq_completed sample_queue64 = 0"
    by (simp_all add: sample_queue64_def vq_pending_def vq_completed_def)
qed

lemma sample_rxq_props:
  assumes "c \<le> 2"
  shows "vq_inv (sample_rxq c) \<and> vq_pending (sample_rxq c) = 2 \<and> vq_completed (sample_rxq c) = c \<and>
    vq_size (sample_rxq c) = 64 \<and> vq_avail_idx (sample_rxq c) = 2 \<and> vq_used_idx (sample_rxq c) = of_nat c"
  using assms
proof (induction c)
  case 0
  note s = sample_queue64_fields
  let ?q1 = "vq_after_push (sample_buffer 256) False sample_queue64"
  have q1: "vq_inv ?q1" "vq_pending ?q1 = 1"
    using vq_push_refines [OF s(1)] vq_pending_after_push [of sample_queue64] s by auto
  show ?case using vq_push_refines [OF q1(1)] vq_pending_after_push [of ?q1] q1 s by (simp add: sample_rxq_def)
next
  case (Suc c)
  have eq: "sample_rxq (Suc c) = dev_complete_next [7] (sample_rxq c)" by (simp add: sample_rxq_def)
  show ?case using Suc dev_complete_next_refines [of "sample_rxq c" "[7]"]
    by (simp add: eq) (simp add: dev_complete_next_def add.commute)
qed

lemma sample_vnet_signalled: "used_signalled sample_device (sample_vnet c)"
  by (simp add: used_signalled_def sample_device_def emulated_device_def sample_vnet_def sample_mmio_def)

theorem interrupt_delivers_completed_witness:
  "\<exists>v' n'. vnet_interrupt_rx sample_heap sample_device (sample_vnet 1) 1 =
     Inr (Some (map (buffer_slide_position 12) (take 1 (vq_items (sample_rxq 1)))), v', n')"
proof -
  note s = sample_rxq_props [of 1, simplified]
  have r: "vn_rxq (sample_vnet 1) = sample_rxq 1" by (simp add: sample_vnet_def)
  show ?thesis
    using interrupt_delivers_completed [of "sample_vnet 1" sample_device 63 sample_heap 1, unfolded r]
      sample_vnet_signalled [of 1] s by simp
qed

theorem interrupt_refill_loses_packets_witness:
  "\<exists>v' n'. vnet_interrupt_rx sample_heap sample_device (sample_vnet 2) 1 =
     Inr (Some (map (buffer_slide_position 12)
       [fresh_buffer sample_heap 4096 63, vq_items (sample_rxq 2) ! 1]), v', n')"
proof -
  note s = sample_rxq_props [of 2, simplified]
  have r: "vn_rxq (sample_vnet 2) = sample_rxq 2" by (simp add: sample_vnet_def)
  have b: "vn_buffer_size (sample_vnet 2) = 4096" by (simp add: sample_vnet_def rx_buffer_size_def)
  show ?thesis
    using interrupt_refill_loses_packets [of "sample_vnet 2" sample_device 64 sample_heap 1, unfolded r b]
      sample_vnet_signalled [of 2] s by (simp add: upt_rec)
qed

end
