(* ===== verification/Net_Stack.thy ===== *)
theory Net_Stack
  imports Packet_Headers Fib_Tables Virtio_Net
begin

text \<open>
  The processing nodes of the network stack: \<^verbatim>\<open>EthernetIn\<close>, \<^verbatim>\<open>ArpIn\<close>, \<^verbatim>\<open>Ipv4In\<close>,
  \<^verbatim>\<open>Icmpv4InLocal\<close>, \<^verbatim>\<open>Ipv6In\<close> and \<^verbatim>\<open>Icmpv6InLocal\<close>, and the interrupt handler of the driver
  that feeds them.  The state is what the nodes share: the tables, the interfaces with their
  queues, the names under which nodes are registered, and the position of the allocator.  The
  kernel registers each node under its own name only, so that the registry is a list of names.
\<close>

section \<open>State\<close>

record net_state =
  ns_tables :: fib_tables
  ns_ifaces :: "virtio_net list"
  ns_nodes :: "string list"
  ns_allocs :: nat

text \<open>\<^verbatim>\<open>DataFromNetif\<close>: a packet and the interface it came from.\<close>

record net_data =
  nd_netif :: netif_ref
  nd_buffer :: buffer

section \<open>The interfaces as the nodes use them\<close>

definition netif_pre_xmit :: "heap_source \<Rightarrow> usize \<Rightarrow> net_state \<Rightarrow> (buffer \<times> net_state) res" where
  "netif_pre_xmit heap sz s =
     rbind (vnet_pre_xmit heap sz (ns_allocs s)) (\<lambda>(b, n). Inr (b, s\<lparr>ns_allocs := n\<rparr>))"

definition netif_xmit :: "netif_ref \<Rightarrow> buffer \<Rightarrow> net_state \<Rightarrow> net_state res" where
  "netif_xmit k b s =
     rbind (get_at (ns_ifaces s) k) (\<lambda>v. rbind (vnet_xmit b v) (\<lambda>v.
       Inr (s\<lparr>ns_ifaces := (ns_ifaces s)[k := v]\<rparr>)))"

definition netif_macaddress :: "netif_ref \<Rightarrow> net_state \<Rightarrow> mac_address res" where
  "netif_macaddress k s = rbind (get_at (ns_ifaces s) k) (\<lambda>v. Inr (vn_macaddr v))"

section \<open>ARP\<close>

text \<open>The second block of the loop: answer a request for a local address.\<close>

definition arp_respond :: "heap_source \<Rightarrow> u8 list \<Rightarrow> net_state \<Rightarrow> net_state res" where
  "arp_respond heap arp s =
     (let dest_ip = ipv4_from_array (arp_tpa arp) in
      case ipv4_adjacent (ns_tables s) dest_ip of
        Some adj \<Rightarrow>
          if adj_is_local adj then
            if arp_oper arp = 0x0100 then
              let src_mac = mac_new (arp_sha arp); src_ip = ipv4_from_array (arp_spa arp) in
              rbind (netif_pre_xmit heap (14 + 28) s) (\<lambda>(respbuff, s).
              rbind (buffer_slice respbuff) (\<lambda>respslice.
              rbind (netif_macaddress (adj_netif adj) s) (\<lambda>mac.
              rbind (generate_ether_header respslice mac src_mac [0x08, 0x06]) (\<lambda>r.
              rbind (with_tail r 14 (\<lambda>t. generate_arp_packet t 0x0200 mac dest_ip src_mac src_ip)) (\<lambda>r.
                netif_xmit (adj_netif adj) (buffer_put_slice r respbuff) s)))))
            else Inr s
          else Inr s
      | None \<Rightarrow> Inr s)"

definition arp_in_frame :: "heap_source \<Rightarrow> net_data \<Rightarrow> net_state \<Rightarrow> net_state res" where
  "arp_in_frame heap frame s =
     rbind (buffer_slice (nd_buffer frame)) (\<lambda>slice.
     rbind (view_at slice 14 28) (\<lambda>arp.
     let src_mac = mac_new (arp_sha arp); src_ip = ipv4_from_array (arp_spa arp) in
     rbind (register_ipv4_fib src_ip 0xffffffff src_mac src_ip (nd_netif frame) AdjacentResolved (ns_tables s)) (\<lambda>t.
       arp_respond heap arp (s\<lparr>ns_tables := register_ipv4_adjacent src_ip src_mac (nd_netif frame) False None t\<rparr>))))"

definition arp_in :: "heap_source \<Rightarrow> net_data list \<Rightarrow> net_state \<Rightarrow> net_state res" where
  "arp_in heap buff s = rfold (arp_in_frame heap) buff s"

section \<open>ICMP\<close>

definition icmpv4_in_frame :: "heap_source \<Rightarrow> net_data \<Rightarrow> net_state \<Rightarrow> net_state res" where
  "icmpv4_in_frame heap frame s =
     rbind (buffer_slice (nd_buffer frame)) (\<lambda>slice.
     rbind (view_at slice 14 20) (\<lambda>ip.
     rbind (view_at slice (14 + ip4_header_len ip) 8) (\<lambda>icmp.
     if icmp_type icmp = 0x08 then
       let len = len_field (ip4_length ip) - of_nat (ip4_header_len ip) in
       rbind (netif_pre_xmit heap (14 + 20 + len) s) (\<lambda>(respbuff, s).
       rbind (buffer_slice respbuff) (\<lambda>respslice.
       rbind (netif_macaddress (nd_netif frame) s) (\<lambda>mac.
       rbind (icmpv4_fill_reply mac slice ip icmp len respslice) (\<lambda>r.
         netif_xmit (nd_netif frame) (buffer_put_slice r respbuff) s))))
     else Inr s)))"

definition icmpv4_in_local :: "heap_source \<Rightarrow> net_data list \<Rightarrow> net_state \<Rightarrow> net_state res" where
  "icmpv4_in_local heap buff s = rfold (icmpv4_in_frame heap) buff s"

definition icmpv6_in_frame :: "heap_source \<Rightarrow> net_data \<Rightarrow> net_state \<Rightarrow> net_state res" where
  "icmpv6_in_frame heap frame s =
     rbind (buffer_slice (nd_buffer frame)) (\<lambda>slice.
     rbind (view_at slice 14 40) (\<lambda>ip.
     rbind (view_at slice (14 + 40) 8) (\<lambda>icmp.
     if icmp_type icmp = 0x80 then
       let len = len_field (ip6_length ip) in
       rbind (netif_pre_xmit heap (14 + 40 + len) s) (\<lambda>(respbuff, s).
       rbind (buffer_slice respbuff) (\<lambda>respslice.
       rbind (netif_macaddress (nd_netif frame) s) (\<lambda>mac.
       rbind (icmpv6_fill_reply mac slice ip icmp len respslice) (\<lambda>r.
         netif_xmit (nd_netif frame) (buffer_put_slice r respbuff) s))))
     else if icmp_type icmp = 0x88 then
       rbind (subslice slice (14 + 40 + 8) (14 + 40 + 12)) (\<lambda>flags.
       rbind (rfold (\<lambda>i acc. rbind (get_at slice i) (\<lambda>b. Inr (acc @ [b]))) [14 + 40 + 30..<14 + 40 + 36] []) (\<lambda>mac_bytes.
       rbind (rfold (\<lambda>i acc. rbind (get_at slice i) (\<lambda>b. Inr (acc @ [b]))) [14 + 40 + 12..<14 + 40 + 28] []) (\<lambda>ip_bytes.
       let src_mac = mac_new mac_bytes; src_ip = ipv6_from_array ip_bytes in
       rbind (register_ipv6_fib src_ip 0xffffffff src_mac src_ip (nd_netif frame) AdjacentResolved (ns_tables s)) (\<lambda>t.
         Inr (s\<lparr>ns_tables := register_ipv6_adjacent src_ip src_mac (nd_netif frame) False None t\<rparr>)))))
     else Inr s)))"

definition icmpv6_in_local :: "heap_source \<Rightarrow> net_data list \<Rightarrow> net_state \<Rightarrow> net_state res" where
  "icmpv6_in_local heap buff s = rfold (icmpv6_in_frame heap) buff s"

section \<open>IPv4 and IPv6\<close>

text \<open>
  One iteration of the loop of \<^verbatim>\<open>Ipv4In\<close>: the packets collected so far are handed to the ICMP node
  in every iteration that does not drop the packet.
\<close>

definition ipv4_in_frame ::
  "heap_source \<Rightarrow> net_data \<Rightarrow> net_data list \<times> net_state \<Rightarrow> (net_data list \<times> net_state) res"
where
  "ipv4_in_frame heap frame ps =
     (case ps of (icmp_pkts, s) \<Rightarrow>
     rbind (buffer_slice (nd_buffer frame)) (\<lambda>slice.
     rbind (view_at slice 14 20) (\<lambda>ip.
     if ip4_version_and_ihl ip AND 0xf0 \<noteq> 0x40 then Inr (icmp_pkts, s)
     else
       rbind (find_ipv4_fib (ns_tables s) (ipv4_from_array (ip4_dest_ip ip)) 0xffffffff) (\<lambda>fib_opt.
       let icmp_pkts = (case fib_opt of
             Some fib \<Rightarrow>
               (case fib4_fib_type fib of
                  Local \<Rightarrow> if ip4_proto ip = 0x01 then icmp_pkts @ [frame] else icmp_pkts
                | Adjacent \<Rightarrow> icmp_pkts
                | AdjacentResolved \<Rightarrow> icmp_pkts
                | Remote \<Rightarrow> icmp_pkts)
           | None \<Rightarrow> icmp_pkts)
       in if 0 < length icmp_pkts \<and> ''icmpv4-in-local'' \<in> set (ns_nodes s)
          then rbind (icmpv4_in_local heap icmp_pkts s) (\<lambda>s. Inr (icmp_pkts, s))
          else Inr (icmp_pkts, s)))))"

definition ipv4_in :: "heap_source \<Rightarrow> net_data list \<Rightarrow> net_state \<Rightarrow> net_state res" where
  "ipv4_in heap buff s = rbind (rfold (ipv4_in_frame heap) buff ([], s)) (\<lambda>(_, s). Inr s)"

definition ipv6_in_frame ::
  "heap_source \<Rightarrow> net_data \<Rightarrow> net_data list \<times> net_state \<Rightarrow> (net_data list \<times> net_state) res"
where
  "ipv6_in_frame heap frame ps =
     (case ps of (icmp_pkts, s) \<Rightarrow>
     rbind (buffer_slice (nd_buffer frame)) (\<lambda>slice.
     rbind (view_at slice 14 40) (\<lambda>ip.
     if ip6_version_and_tch ip AND 0xf0 \<noteq> 0x60 then Inr (icmp_pkts, s)
     else
       rbind (find_ipv6_fib (ns_tables s) (ipv6_from_array (ip6_dest_ip ip)) 128) (\<lambda>fib_opt.
       let icmp_pkts = (case fib_opt of
             Some fib \<Rightarrow>
               (case fib6_fib_type fib of
                  Local \<Rightarrow> if ip6_nexthdr ip = 58 then icmp_pkts @ [frame] else icmp_pkts
                | Adjacent \<Rightarrow> icmp_pkts
                | AdjacentResolved \<Rightarrow> icmp_pkts
                | Remote \<Rightarrow> icmp_pkts)
           | None \<Rightarrow> icmp_pkts)
       in if 0 < length icmp_pkts \<and> ''icmpv6-in-local'' \<in> set (ns_nodes s)
          then rbind (icmpv6_in_local heap icmp_pkts s) (\<lambda>s. Inr (icmp_pkts, s))
          else Inr (icmp_pkts, s)))))"

definition ipv6_in :: "heap_source \<Rightarrow> net_data list \<Rightarrow> net_state \<Rightarrow> net_state res" where
  "ipv6_in heap buff s = rbind (rfold (ipv6_in_frame heap) buff ([], s)) (\<lambda>(_, s). Inr s)"

section \<open>Ethernet\<close>

record eth_queues =
  arp_pkts :: "net_data list"
  ipv4_pkts :: "net_data list"
  ipv6_pkts :: "net_data list"

text \<open>The closure \<^verbatim>\<open>proc_frame\<close>: sort a frame by its type.\<close>

definition proc_frame :: "net_data \<Rightarrow> u8 list \<Rightarrow> eth_queues \<Rightarrow> eth_queues" where
  "proc_frame frame frame_type p =
     (if frame_type = [0x08, 0x06] then p\<lparr>arp_pkts := arp_pkts p @ [frame]\<rparr>
      else if frame_type = [0x08, 0x00] then p\<lparr>ipv4_pkts := ipv4_pkts p @ [frame]\<rparr>
      else if frame_type = [0x81, 0x00] then p
      else if frame_type = [0x86, 0xDD] then p\<lparr>ipv6_pkts := ipv6_pkts p @ [frame]\<rparr>
      else p)"

definition ethernet_in_frame :: "net_data \<Rightarrow> eth_queues \<times> net_state \<Rightarrow> (eth_queues \<times> net_state) res" where
  "ethernet_in_frame frame ps =
     (case ps of (p, s) \<Rightarrow>
     rbind (buffer_slice (nd_buffer frame)) (\<lambda>slice.
     rbind (view_at slice 0 14) (\<lambda>hdr.
     let t = register_macaddress (mac_new (eth_src hdr)) (nd_netif frame) False None (ns_tables s);
         s = s\<lparr>ns_tables := t\<rparr>
     in Inr (if eth_dest hdr = [0xff, 0xff, 0xff, 0xff, 0xff, 0xff] then (proc_frame frame (eth_type hdr) p, s)
             else case mac_addr_table t (mac_prim (mac_new (eth_dest hdr))) of
                    Some adj \<Rightarrow> if adj_is_local adj then (proc_frame frame (eth_type hdr) p, s) else (p, s)
                  | None \<Rightarrow> (p, s)))))"

definition ethernet_in :: "heap_source \<Rightarrow> net_data list \<Rightarrow> net_state \<Rightarrow> net_state res" where
  "ethernet_in heap buff s =
     rbind (rfold ethernet_in_frame buff (\<lparr>arp_pkts = [], ipv4_pkts = [], ipv6_pkts = []\<rparr>, s)) (\<lambda>(p, s).
     rbind (if 0 < length (arp_pkts p) \<and> ''arp-in'' \<in> set (ns_nodes s) then arp_in heap (arp_pkts p) s else Inr s) (\<lambda>s.
     rbind (if 0 < length (ipv4_pkts p) \<and> ''ipv4-in'' \<in> set (ns_nodes s) then ipv4_in heap (ipv4_pkts p) s else Inr s) (\<lambda>s.
       if 0 < length (ipv6_pkts p) \<and> ''ipv6-in'' \<in> set (ns_nodes s) then ipv6_in heap (ipv6_pkts p) s else Inr s)))"

section \<open>The interrupt handler of the driver\<close>

definition vnet_interrupt_handler ::
  "heap_source \<Rightarrow> mmio_device \<Rightarrow> netif_ref \<Rightarrow> net_state \<Rightarrow> net_state res"
where
  "vnet_interrupt_handler heap D k s =
     rbind (get_at (ns_ifaces s) k) (\<lambda>v.
     rbind (vnet_interrupt_rx heap D v (ns_allocs s)) (\<lambda>(rx, v, n).
     let s = s\<lparr>ns_ifaces := (ns_ifaces s)[k := v], ns_allocs := n\<rparr> in
     case rx of
       Some rxdata \<Rightarrow>
         if vn_id v < length (ns_ifaces s) \<and> ''ethernet-in'' \<in> set (ns_nodes s)
         then ethernet_in heap (map (\<lambda>b. \<lparr>nd_netif = vn_id v, nd_buffer = b\<rparr>) rxdata) s
         else Inr s
     | None \<Rightarrow> Inr s))"

end
