(* ===== verification/Bounded_Queue.thy ===== *)
theory Bounded_Queue
  imports Rust_Prelude
begin

text \<open>
  The interface of the bounded queues of the kernel: what a client may rely on when it pushes to and
  pops from a queue that refuses elements beyond its capacity.  The ring buffer of
  \<^verbatim>\<open>src/src/ringbuf.rs\<close> implements it; the timers and the executor are clients of it through
  the queue of the \<^verbatim>\<open>crossbeam_queue\<close> package, whose operations are arguments of their models.
\<close>

locale bounded_fifo =
  fixes push :: "'a \<Rightarrow> 'q \<Rightarrow> 'q option"
    and pop :: "'q \<Rightarrow> ('a \<times> 'q) option"
    and items :: "'q \<Rightarrow> 'a list"
    and inv :: "'q \<Rightarrow> bool"
    and cap :: nat
  assumes push_room: "inv q \<Longrightarrow> length (items q) < cap \<Longrightarrow>
        \<exists>q'. push x q = Some q' \<and> inv q' \<and> items q' = items q @ [x]"
    and push_full: "inv q \<Longrightarrow> cap \<le> length (items q) \<Longrightarrow> push x q = None"
    and pop_Nil: "inv q \<Longrightarrow> items q = [] \<Longrightarrow> pop q = None"
    and pop_Cons: "inv q \<Longrightarrow> items q = x # xs \<Longrightarrow> \<exists>q'. pop q = Some (x, q') \<and> inv q' \<and> items q' = xs"
    and items_le: "inv q \<Longrightarrow> length (items q) \<le> cap"
begin

lemma push_SomeD:
  assumes "inv q" "push x q = Some q'"
  shows "inv q' \<and> items q' = items q @ [x] \<and> length (items q) < cap"
  using push_room [OF assms(1), of x] push_full [OF assms(1), of x] assms(2) by force

lemma pop_SomeD:
  assumes "inv q" "pop q = Some (x, q')"
  shows "inv q' \<and> items q = x # items q'"
  using pop_Nil [OF assms(1)] pop_Cons [OF assms(1)] assms(2) by (cases "items q") force+

lemma pop_None_iff: "inv q \<Longrightarrow> pop q = None \<longleftrightarrow> items q = []"
  using pop_Nil pop_Cons by (cases "items q") force+

text \<open>Pushing a list, and popping everything.\<close>

lemma push_all:
  assumes "inv q" "length (items q) + length xs \<le> cap"
  shows "\<exists>q'. fold (\<lambda>x acc. Option.bind acc (push x)) xs (Some q) = Some q' \<and> inv q' \<and> items q' = items q @ xs"
  using assms
proof (induction xs arbitrary: q)
  case Nil
  then show ?case by simp
next
  case (Cons x xs)
  obtain q' where q': "push x q = Some q'" "inv q'" "items q' = items q @ [x]"
    using push_room [of q x] Cons.prems by auto
  have "\<exists>q''. fold (\<lambda>x acc. Option.bind acc (push x)) xs (Some q') = Some q'' \<and> inv q'' \<and> items q'' = items q' @ xs"
    using Cons.prems q' by (intro Cons.IH) simp_all
  with q' show ?case by simp
qed

end

end
