(* ===== verification/Ring_Buf.thy ===== *)
theory Ring_Buf
  imports Bounded_Queue
begin

text \<open>
  The ring buffer of \<^verbatim>\<open>src/src/ringbuf.rs\<close>.  First its operations when nothing else runs: then it
  is a bounded queue and the locale of bounded queues is interpreted on it.  Second its operations
  as sequences of atomic steps of any number of threads, each a load, a compare-and-swap or an
  access to the buffer, with the interleavings as an inductive step relation.
\<close>

section \<open>The buffer\<close>

definition ringbuf_length :: nat where
  "ringbuf_length = 10000"

record 'a ring =
  rb_buffer :: "'a option list"
  rb_readidx :: nat
  rb_writeidx :: nat

definition ring_new :: "'a ring" where
  "ring_new = \<lparr>rb_buffer = replicate ringbuf_length None, rb_readidx = 0, rb_writeidx = 0\<rparr>"

definition ring_default :: "'a ring" where
  "ring_default = \<lparr>rb_buffer = [], rb_readidx = 0, rb_writeidx = 0\<rparr>"

text \<open>
  \<^verbatim>\<open>compare_and_swap\<close> on an index: the old value, and the index after it.
\<close>

definition cas :: "nat \<Rightarrow> nat \<Rightarrow> nat \<Rightarrow> nat \<times> nat" where
  "cas cell current new = (cell, if cell = current then new else cell)"

section \<open>The operations on their own\<close>

text \<open>
  A loop that goes round again without the buffer having changed goes round for ever: the result
  \<^const>\<open>None\<close> of \<open>ring_put\<close> says that it does not return.
\<close>

partial_function (option) ring_get :: "'a ring \<Rightarrow> ('a option \<times> 'a ring) res option" where
  "ring_get r =
     (let wix = rb_writeidx r; rix = rb_readidx r; new_rix = (rix + 1) mod ringbuf_length in
      if rix = wix then Some (Inr (None, r))
      else
        let (old, cell) = cas (rb_readidx r) rix new_rix; r = r\<lparr>rb_readidx := cell\<rparr> in
        if rix = old then
          Some (rbind (get_at (rb_buffer r) rix) (\<lambda>slot. case slot of
                  Some itm \<Rightarrow> Inr (Some itm, r)
                | None \<Rightarrow> Inr (None, r)))
        else ring_get r)"

partial_function (option) ring_reserve :: "'a ring \<Rightarrow> (nat \<times> 'a ring) option" where
  "ring_reserve r =
     (let rix = rb_readidx r; wix = rb_writeidx r; new_wix = (wix + 1) mod ringbuf_length in
      if rix \<noteq> new_wix then
        let (old, cell) = cas (rb_writeidx r) wix new_wix in
        if wix = old then Some (wix, r\<lparr>rb_writeidx := cell\<rparr>) else ring_reserve r
      else ring_reserve r)"

definition ring_put :: "'a \<Rightarrow> 'a ring \<Rightarrow> 'a ring res option" where
  "ring_put val r =
     map_option (\<lambda>(wix, r). rbind (set_at (rb_buffer r) wix (Some val)) (\<lambda>b. Inr (r\<lparr>rb_buffer := b\<rparr>)))
       (ring_reserve r)"

section \<open>The contents\<close>

definition ring_count :: "'a ring \<Rightarrow> nat" where
  "ring_count r = (rb_writeidx r + ringbuf_length - rb_readidx r) mod ringbuf_length"

definition ring_slots :: "'a ring \<Rightarrow> nat list" where
  "ring_slots r = map (\<lambda>k. (rb_readidx r + k) mod ringbuf_length) [0..<ring_count r]"

definition ring_items :: "'a ring \<Rightarrow> 'a list" where
  "ring_items r = map (\<lambda>i. the (rb_buffer r ! i)) (ring_slots r)"

definition ring_inv :: "'a ring \<Rightarrow> bool" where
  "ring_inv r \<longleftrightarrow> length (rb_buffer r) = ringbuf_length \<and> rb_readidx r < ringbuf_length \<and>
     rb_writeidx r < ringbuf_length \<and> (\<forall>i\<in>set (ring_slots r). rb_buffer r ! i \<noteq> None)"

lemma ringbuf_length_pos [simp]: "0 < ringbuf_length" "Suc 0 < ringbuf_length"
  by (simp_all add: ringbuf_length_def)

lemma ring_inv_new: "ring_inv ring_new" and ring_items_new: "ring_items ring_new = []"
  by (simp_all add: ring_inv_def ring_new_def ring_items_def ring_slots_def ring_count_def)

lemma count_less: "ring_count r < ringbuf_length"
  by (simp add: ring_count_def)

text \<open>The write index is the read index plus the number of elements, around the ring.\<close>

lemma writeidx_eq:
  assumes "rb_readidx r < ringbuf_length" "rb_writeidx r < ringbuf_length"
  shows "rb_writeidx r = (rb_readidx r + ring_count r) mod ringbuf_length"
proof -
  have "rb_readidx r + (rb_writeidx r + ringbuf_length - rb_readidx r) = rb_writeidx r + ringbuf_length"
    using assms by simp
  then have "(rb_readidx r + ring_count r) mod ringbuf_length = (rb_writeidx r + ringbuf_length) mod ringbuf_length"
    unfolding ring_count_def by (metis mod_add_right_eq)
  also have "\<dots> = rb_writeidx r" using assms by simp
  finally show ?thesis by simp
qed

lemma add_mod_inj:
  assumes "(a + j) mod n = (a + k) mod n" "j < n" "k < (n :: nat)"
  shows "j = k"
proof -
  have "int (a + j) mod int n = int (a + k) mod int n" using assms(1) by (metis of_nat_mod)
  then have "int n dvd int j - int k" by (simp add: mod_eq_dvd_iff algebra_simps)
  moreover have "\<bar>int j - int k\<bar> < int n" using assms(2,3) by simp
  ultimately show ?thesis using dvd_imp_le_int [of "int j - int k" "int n"] by auto
qed

lemma ring_countI:
  assumes "rb_readidx r < ringbuf_length" "rb_writeidx r = (rb_readidx r + c) mod ringbuf_length" "c < ringbuf_length"
  shows "ring_count r = c"
  using add_mod_inj [of "rb_readidx r" "ring_count r" ringbuf_length c] writeidx_eq [of r] assms count_less [of r]
  by simp

lemma ring_invD:
  "ring_inv r \<Longrightarrow> length (rb_buffer r) = ringbuf_length \<and> rb_readidx r < ringbuf_length \<and> rb_writeidx r < ringbuf_length"
  by (simp add: ring_inv_def)

lemma length_ring_items [simp]: "length (ring_items r) = ring_count r"
  by (simp add: ring_items_def ring_slots_def)

text \<open>The two indices coincide when the ring is empty; the write index is just behind the read index when it is full.\<close>

lemma ring_empty_iff: "ring_inv r \<Longrightarrow> rb_readidx r = rb_writeidx r \<longleftrightarrow> ring_count r = 0"
proof -
  assume "ring_inv r"
  then have d: "rb_readidx r < ringbuf_length" "rb_writeidx r < ringbuf_length" by (simp_all add: ring_invD)
  show ?thesis
  proof
    show "rb_readidx r = rb_writeidx r \<Longrightarrow> ring_count r = 0" using d by (intro ring_countI) simp_all
    show "ring_count r = 0 \<Longrightarrow> rb_readidx r = rb_writeidx r"
      using d(1) writeidx_eq [OF d] by (metis add_0_right mod_less)
  qed
qed

lemma ring_full_iff:
  assumes "ring_inv r"
  shows "rb_readidx r = (rb_writeidx r + 1) mod ringbuf_length \<longleftrightarrow> ring_count r = ringbuf_length - 1"
proof -
  note d = ring_invD [OF assms]
  have w: "(rb_writeidx r + 1) mod ringbuf_length = (rb_readidx r + (ring_count r + 1)) mod ringbuf_length"
    using writeidx_eq [of r] d by (metis add.assoc mod_add_left_eq)
  show ?thesis
  proof
    assume "rb_readidx r = (rb_writeidx r + 1) mod ringbuf_length"
    then have "(rb_readidx r + (ring_count r + 1)) mod ringbuf_length = (rb_readidx r + 0) mod ringbuf_length"
      using w d by simp
    then have "\<not> ring_count r + 1 < ringbuf_length" using add_mod_inj [of "rb_readidx r" "ring_count r + 1" _ 0] by auto
    then show "ring_count r = ringbuf_length - 1" using count_less [of r] by simp
  next
    assume "ring_count r = ringbuf_length - 1"
    then have "ring_count r + 1 = ringbuf_length" by (simp add: ringbuf_length_def)
    then show "rb_readidx r = (rb_writeidx r + 1) mod ringbuf_length" unfolding w using d by simp
  qed
qed

lemma slots_in_range: "ring_inv r \<Longrightarrow> i \<in> set (ring_slots r) \<Longrightarrow> i < ringbuf_length"
  by (auto simp: ring_slots_def)

section \<open>Taking an element\<close>

lemma ring_slots_Cons:
  assumes "ring_inv r" "0 < ring_count r"
  defines "r' \<equiv> r\<lparr>rb_readidx := (rb_readidx r + 1) mod ringbuf_length\<rparr>"
  shows "ring_count r' = ring_count r - 1" and "ring_slots r = rb_readidx r # ring_slots r'"
proof -
  note d = ring_invD [OF assms(1)]
  have m: "((rb_readidx r + 1) mod ringbuf_length + k) mod ringbuf_length = (rb_readidx r + Suc k) mod ringbuf_length" for k
    by (simp add: mod_add_left_eq)
  show c: "ring_count r' = ring_count r - 1"
    using d assms(2) writeidx_eq [of r] m [of "ring_count r - 1"] count_less [of r]
    by (intro ring_countI) (simp_all add: r'_def)
  have "[0..<ring_count r] = 0 # map Suc [0..<ring_count r - 1]"
    using assms(2) by (metis One_nat_def Suc_pred map_Suc_upt upt_conv_Cons)
  then show "ring_slots r = rb_readidx r # ring_slots r'"
    using d m by (simp add: ring_slots_def c) (simp add: r'_def)
qed

lemma ring_get_empty: "ring_inv r \<Longrightarrow> ring_count r = 0 \<Longrightarrow> ring_get r = Some (Inr (None, r))"
  by (subst ring_get.simps) (simp add: ring_empty_iff)

lemma ring_get_item:
  assumes inv: "ring_inv r" and items: "ring_items r = x # xs"
  shows "\<exists>r'. ring_get r = Some (Inr (Some x, r')) \<and> ring_inv r' \<and> ring_items r' = xs"
proof -
  let ?r' = "r\<lparr>rb_readidx := (rb_readidx r + 1) mod ringbuf_length\<rparr>"
  note d = ring_invD [OF inv]
  have c: "0 < ring_count r" using items length_ring_items [of r] by simp
  note s = ring_slots_Cons [OF inv c]
  have x: "rb_buffer r ! rb_readidx r = Some x" and xs: "ring_items ?r' = xs" and inv': "ring_inv ?r'"
    using items inv by (auto simp: ring_items_def ring_inv_def s(2))
  have "ring_get r = Some (Inr (Some x, ?r'))"
    using ring_empty_iff [OF inv] c d x by (subst ring_get.simps) (simp add: cas_def get_at_ok)
  then show ?thesis using xs inv' by simp
qed

section \<open>Adding an element\<close>

lemma ring_reserve_room:
  "rb_readidx r \<noteq> (rb_writeidx r + 1) mod ringbuf_length \<Longrightarrow>
   ring_reserve r = Some (rb_writeidx r, r\<lparr>rb_writeidx := (rb_writeidx r + 1) mod ringbuf_length\<rparr>)"
  by (subst ring_reserve.simps) (simp add: cas_def Let_def)

text \<open>Without room the loop never returns.\<close>

lemma ring_reserve_full:
  assumes "rb_readidx r = (rb_writeidx r + 1) mod ringbuf_length"
  shows "ring_reserve r = None"
proof (rule ccontr)
  assume "ring_reserve r \<noteq> None"
  then obtain y where y: "ring_reserve r = Some y" by blast
  have "rb_readidx r \<noteq> (rb_writeidx r + 1) mod ringbuf_length"
    by (rule ring_reserve.raw_induct [where P = "\<lambda>r y. rb_readidx r \<noteq> (rb_writeidx r + 1) mod ringbuf_length", OF _ y])
      (auto split: if_splits)
  with assms show False by simp
qed

lemma ring_slots_snoc:
  assumes "ring_inv r" "ring_count r < ringbuf_length - 1"
    and "r' = r\<lparr>rb_writeidx := (rb_writeidx r + 1) mod ringbuf_length, rb_buffer := b\<rparr>"
  shows "ring_count r' = ring_count r + 1" and "ring_slots r' = ring_slots r @ [rb_writeidx r]"
proof -
  have d: "rb_readidx r < ringbuf_length" "rb_writeidx r < ringbuf_length" using ring_invD [OF assms(1)] by simp_all
  have w: "(rb_writeidx r + 1) mod ringbuf_length = (rb_readidx r + (ring_count r + 1)) mod ringbuf_length"
    using writeidx_eq [OF d] by (metis add.assoc mod_add_left_eq)
  show c: "ring_count r' = ring_count r + 1"
    using d assms(2,3) w by (intro ring_countI) simp_all
  show "ring_slots r' = ring_slots r @ [rb_writeidx r]"
    unfolding ring_slots_def c using assms(3) writeidx_eq [OF d] by simp
qed

lemma fresh_slot:
  assumes "ring_inv r" shows "rb_writeidx r \<notin> set (ring_slots r)"
proof
  have d: "rb_readidx r < ringbuf_length" "rb_writeidx r < ringbuf_length" using ring_invD [OF assms] by simp_all
  assume "rb_writeidx r \<in> set (ring_slots r)"
  then obtain k where "k < ring_count r" "rb_writeidx r = (rb_readidx r + k) mod ringbuf_length"
    by (auto simp: ring_slots_def)
  then show False
    using add_mod_inj [of "rb_readidx r" k ringbuf_length "ring_count r"] writeidx_eq [OF d] count_less [of r] by simp
qed

lemma ring_put_room:
  assumes inv: "ring_inv r" and room: "ring_count r < ringbuf_length - 1"
  shows "\<exists>r'. ring_put x r = Some (Inr r') \<and> ring_inv r' \<and> ring_items r' = ring_items r @ [x]"
proof -
  define r' where "r' = r\<lparr>rb_writeidx := (rb_writeidx r + 1) mod ringbuf_length, rb_buffer := (rb_buffer r)[rb_writeidx r := Some x]\<rparr>"
  note d = ring_invD [OF inv] and s = ring_slots_snoc [OF inv room r'_def]
  have "ring_put x r = Some (Inr r')"
    using ring_full_iff [OF inv] room d by (simp add: ring_put_def ring_reserve_room set_at_ok r'_def)
  moreover have same: "rb_buffer r' ! i = rb_buffer r ! i" if "i \<in> set (ring_slots r)" for i
    using fresh_slot [OF inv] that by (metis nth_list_update_neq r'_def ring.select_convs(1) ring.surjective ring.update_convs(1,3))
  moreover have new: "rb_buffer r' ! rb_writeidx r = Some x" using d by (simp add: r'_def)
  ultimately have "ring_items r' = ring_items r @ [x]"
    by (simp add: ring_items_def s(2))
  moreover have "ring_inv r'"
    using inv d same new unfolding ring_inv_def s(2) by (auto simp: r'_def)
  ultimately show ?thesis using \<open>ring_put x r = Some (Inr r')\<close> by blast
qed

lemma ring_put_full: "ring_inv r \<Longrightarrow> ring_count r = ringbuf_length - 1 \<Longrightarrow> ring_put x r = None"
  using ring_reserve_full [of r] ring_full_iff [of r] by (simp add: ring_put_def)

section \<open>The ring buffer is a bounded queue\<close>

definition ring_push :: "'a \<Rightarrow> 'a ring \<Rightarrow> 'a ring option" where
  "ring_push x r = (case ring_put x r of Some (Inr r') \<Rightarrow> Some r' | _ \<Rightarrow> None)"

definition ring_pop :: "'a ring \<Rightarrow> ('a \<times> 'a ring) option" where
  "ring_pop r = (case ring_get r of Some (Inr (Some x, r')) \<Rightarrow> Some (x, r') | _ \<Rightarrow> None)"

interpretation ringq: bounded_fifo ring_push ring_pop ring_items ring_inv "ringbuf_length - 1"
proof unfold_locales
  fix q :: "'a ring" and x xs
  assume inv: "ring_inv q"
  show "length (ring_items q) < ringbuf_length - 1 \<Longrightarrow>
      \<exists>q'. ring_push x q = Some q' \<and> ring_inv q' \<and> ring_items q' = ring_items q @ [x]"
    using ring_put_room [OF inv, of x] by (auto simp: ring_push_def)
  show "ringbuf_length - 1 \<le> length (ring_items q) \<Longrightarrow> ring_push x q = None"
    using ring_put_full [OF inv, of x] count_less [of q] by (simp add: ring_push_def)
  show "ring_items q = [] \<Longrightarrow> ring_pop q = None"
    using ring_get_empty [OF inv] length_ring_items [of q] by (simp add: ring_pop_def)
  show "ring_items q = x # xs \<Longrightarrow> \<exists>q'. ring_pop q = Some (x, q') \<and> ring_inv q' \<and> ring_items q' = xs"
    using ring_get_item [OF inv] by (fastforce simp: ring_pop_def)
  show "length (ring_items q) \<le> ringbuf_length - 1"
    using count_less [of q] by simp
qed

section \<open>Sequences of operations\<close>

datatype 'a ring_op = Put 'a | Get

text \<open>Running operations one after the other: the results of the \<^verbatim>\<open>get\<close>s, if every operation returns.\<close>

fun ring_run :: "'a ring_op list \<Rightarrow> 'a ring \<Rightarrow> ('a option list \<times> 'a ring) option" where
  "ring_run [] r = Some ([], r)"
| "ring_run (Put x # ops) r = Option.bind (ring_push x r) (ring_run ops)"
| "ring_run (Get # ops) r =
     (case ring_get r of
        Some (Inr (y, r')) \<Rightarrow> map_option (\<lambda>(ys, r''). (y # ys, r'')) (ring_run ops r')
      | _ \<Rightarrow> None)"

fun queue_run :: "nat \<Rightarrow> 'a ring_op list \<Rightarrow> 'a list \<Rightarrow> ('a option list \<times> 'a list) option" where
  "queue_run cap [] q = Some ([], q)"
| "queue_run cap (Put x # ops) q = (if length q < cap then queue_run cap ops (q @ [x]) else None)"
| "queue_run cap (Get # ops) [] = map_option (\<lambda>(ys, q). (None # ys, q)) (queue_run cap ops [])"
| "queue_run cap (Get # ops) (x # q) = map_option (\<lambda>(ys, q). (Some x # ys, q)) (queue_run cap ops q)"

lemma ring_run_refines:
  assumes "ring_inv r"
  shows "map_option (\<lambda>(ys, r). (ys, ring_items r)) (ring_run ops r) = queue_run (ringbuf_length - 1) ops (ring_items r)"
  using assms
proof (induction ops arbitrary: r)
  case Nil
  then show ?case by simp
next
  case (Cons oper ops)
  show ?case
  proof (cases oper)
    case (Put x)
    then show ?thesis
      using ringq.push_room [OF Cons.prems, of x] ringq.push_full [OF Cons.prems, of x] Cons.IH by fastforce
  next
    case Get
    show ?thesis
    proof (cases "ring_items r")
      case Nil
      then have "ring_get r = Some (Inr (None, r))"
        using ring_get_empty [OF Cons.prems] length_ring_items [of r] by simp
      then show ?thesis
        using Get Nil Cons.IH [OF Cons.prems, symmetric] by (simp add: option.map_comp comp_def case_prod_beta)
    next
      case items: (Cons x xs)
      then obtain r' where "ring_get r = Some (Inr (Some x, r'))" "ring_inv r'" "ring_items r' = xs"
        using ring_get_item [OF Cons.prems] by blast
      then show ?thesis
        using Get items Cons.IH [of r', symmetric] by (simp add: option.map_comp comp_def case_prod_beta)
    qed
  qed
qed

text \<open>
  C34. The ring buffer implements a bounded queue as long as its operations do not overlap: any sequence of
  \<^verbatim>\<open>put\<close> and \<^verbatim>\<open>get\<close> on a new ring buffer gives the results of the sequence on a queue of at most 9999
  elements, across the wrap-around of the indices and without a panic; a \<^verbatim>\<open>put\<close> on a full ring buffer never
  returns.
\<close>

theorem ring_refines_queue:
  "map_option (\<lambda>(ys, r). (ys, ring_items r)) (ring_run ops ring_new) = queue_run (ringbuf_length - 1) ops []"
  using ring_run_refines [OF ring_inv_new] by (simp add: ring_items_new)

section \<open>Threads\<close>

text \<open>Where a thread is: before which atomic step, with what it has loaded.\<close>

datatype 'a ring_pc =
    Idle
  | Get_start
  | Get_w nat
  | Get_r nat nat
  | Get_read nat
  | Got "'a option"
  | Put_start 'a
  | Put_r 'a nat
  | Put_w 'a nat nat
  | Put_store 'a nat
  | Panicked

text \<open>
  Beside the ring buffer and the threads the state has the history of the run: the values whose \<^verbatim>\<open>put\<close> has
  returned and the results that \<^verbatim>\<open>get\<close> has returned, in order.  No step depends on it.
\<close>

record 'a ring_sys =
  rs_ring :: "'a ring"
  rs_pc :: "nat \<Rightarrow> 'a ring_pc"
  rs_put :: "'a list"
  rs_got :: "'a option list"

definition ring_sys_new :: "'a ring_sys" where
  "ring_sys_new = \<lparr>rs_ring = ring_new, rs_pc = (\<lambda>_. Idle), rs_put = [], rs_got = []\<rparr>"

abbreviation at_pc :: "'a ring_sys \<Rightarrow> nat \<Rightarrow> 'a ring_pc \<Rightarrow> 'a ring_sys" where
  "at_pc s t p \<equiv> s\<lparr>rs_pc := (rs_pc s)(t := p)\<rparr>"

inductive ring_step :: "'a ring_sys \<Rightarrow> 'a ring_sys \<Rightarrow> bool" where
  get_call: "rs_pc s t = Idle \<Longrightarrow> ring_step s (at_pc s t Get_start)"
| get_load_w: "rs_pc s t = Get_start \<Longrightarrow> ring_step s (at_pc s t (Get_w (rb_writeidx (rs_ring s))))"
| get_load_r: "rs_pc s t = Get_w wix \<Longrightarrow> ring_step s (at_pc s t (Get_r wix (rb_readidx (rs_ring s))))"
| get_none: "rs_pc s t = Get_r wix rix \<Longrightarrow> rix = wix \<Longrightarrow> ring_step s (at_pc s t (Got None))"
| get_cas: "rs_pc s t = Get_r wix rix \<Longrightarrow> rix \<noteq> wix \<Longrightarrow>
    cas (rb_readidx (rs_ring s)) rix ((rix + 1) mod ringbuf_length) = (old, cell) \<Longrightarrow>
    ring_step s (at_pc (s\<lparr>rs_ring := (rs_ring s)\<lparr>rb_readidx := cell\<rparr>\<rparr>) t (if rix = old then Get_read rix else Get_start))"
| get_read: "rs_pc s t = Get_read rix \<Longrightarrow>
    ring_step s (at_pc s t (case get_at (rb_buffer (rs_ring s)) rix of Inr itm \<Rightarrow> Got itm | Inl _ \<Rightarrow> Panicked))"
| get_return: "rs_pc s t = Got y \<Longrightarrow> ring_step s (at_pc (s\<lparr>rs_got := rs_got s @ [y]\<rparr>) t Idle)"
| put_call: "rs_pc s t = Idle \<Longrightarrow> ring_step s (at_pc s t (Put_start v))"
| put_load_r: "rs_pc s t = Put_start v \<Longrightarrow> ring_step s (at_pc s t (Put_r v (rb_readidx (rs_ring s))))"
| put_load_w: "rs_pc s t = Put_r v rix \<Longrightarrow> ring_step s (at_pc s t (Put_w v rix (rb_writeidx (rs_ring s))))"
| put_full: "rs_pc s t = Put_w v rix wix \<Longrightarrow> rix = (wix + 1) mod ringbuf_length \<Longrightarrow> ring_step s (at_pc s t (Put_start v))"
| put_cas: "rs_pc s t = Put_w v rix wix \<Longrightarrow> rix \<noteq> (wix + 1) mod ringbuf_length \<Longrightarrow>
    cas (rb_writeidx (rs_ring s)) wix ((wix + 1) mod ringbuf_length) = (old, cell) \<Longrightarrow>
    ring_step s (at_pc (s\<lparr>rs_ring := (rs_ring s)\<lparr>rb_writeidx := cell\<rparr>\<rparr>) t (if wix = old then Put_store v wix else Put_start v))"
| put_store: "rs_pc s t = Put_store v wix \<Longrightarrow> set_at (rb_buffer (rs_ring s)) wix (Some v) = Inr b \<Longrightarrow>
    ring_step s (at_pc (s\<lparr>rs_ring := (rs_ring s)\<lparr>rb_buffer := b\<rparr>, rs_put := rs_put s @ [v]\<rparr>) t Idle)"
| put_panic: "rs_pc s t = Put_store v wix \<Longrightarrow> set_at (rb_buffer (rs_ring s)) wix (Some v) = Inl e \<Longrightarrow>
    ring_step s (at_pc s t Panicked)"

inductive ring_reach :: "'a ring_sys \<Rightarrow> bool" where
  start: "ring_reach ring_sys_new"
| step: "ring_reach s \<Longrightarrow> ring_step s s' \<Longrightarrow> ring_reach s'"

text \<open>What the threads have loaded are positions of the buffer.\<close>

fun pc_ok :: "'a ring_pc \<Rightarrow> bool" where
  "pc_ok (Get_w wix) \<longleftrightarrow> wix < ringbuf_length"
| "pc_ok (Get_r wix rix) \<longleftrightarrow> wix < ringbuf_length \<and> rix < ringbuf_length"
| "pc_ok (Get_read rix) \<longleftrightarrow> rix < ringbuf_length"
| "pc_ok (Put_r v rix) \<longleftrightarrow> rix < ringbuf_length"
| "pc_ok (Put_w v rix wix) \<longleftrightarrow> rix < ringbuf_length \<and> wix < ringbuf_length"
| "pc_ok (Put_store v wix) \<longleftrightarrow> wix < ringbuf_length"
| "pc_ok Panicked \<longleftrightarrow> False"
| "pc_ok _ \<longleftrightarrow> True"

definition sys_ok :: "'a ring_sys \<Rightarrow> bool" where
  "sys_ok s \<longleftrightarrow> length (rb_buffer (rs_ring s)) = ringbuf_length \<and> rb_readidx (rs_ring s) < ringbuf_length \<and>
     rb_writeidx (rs_ring s) < ringbuf_length \<and> (\<forall>t. pc_ok (rs_pc s t))"

lemma sys_ok_pc: "sys_ok s \<Longrightarrow> rs_pc s t = p \<Longrightarrow> pc_ok p"
  by (auto simp: sys_ok_def)

lemma ring_step_ok: "ring_step s s' \<Longrightarrow> sys_ok s \<Longrightarrow> sys_ok s'"
proof (induction rule: ring_step.induct)
  case (get_read s t rix)
  then show ?case using sys_ok_pc [OF get_read.prems get_read.hyps(1)] by (simp add: sys_ok_def get_at_ok)
next
  case (put_panic s t v wix e)
  then show ?case using sys_ok_pc [OF put_panic.prems put_panic.hyps(1)] by (simp add: sys_ok_def set_at_ok)
next
  case (put_store s t v wix b)
  then show ?case by (auto simp: sys_ok_def set_at_eq_Inr)
next
  case (get_cas s t wix rix old cell)
  then show ?case using sys_ok_pc [OF get_cas.prems get_cas.hyps(1)] by (auto simp: sys_ok_def cas_def)
next
  case (put_cas s t v rix wix old cell)
  then show ?case using sys_ok_pc [OF put_cas.prems put_cas.hyps(1)] by (auto simp: sys_ok_def cas_def)
next
  case (get_load_r s t wix)
  then show ?case using sys_ok_pc [OF get_load_r.prems get_load_r.hyps] by (simp add: sys_ok_def)
next
  case (put_load_w s t v rix)
  then show ?case using sys_ok_pc [OF put_load_w.prems put_load_w.hyps] by (simp add: sys_ok_def)
qed (auto simp: sys_ok_def)

lemma ring_reach_ok: "ring_reach s \<Longrightarrow> sys_ok s"
proof (induction rule: ring_reach.induct)
  case start
  show ?case by (simp add: sys_ok_def ring_sys_new_def ring_new_def)
next
  case (step s s')
  then show ?case by (blast intro: ring_step_ok)
qed

text \<open>
  No interleaving of any number of producers and consumers makes a thread panic: whatever the threads
  have loaded are positions of the buffer.
\<close>

lemma ring_threads_safe: "ring_reach s \<Longrightarrow> rs_pc s t \<noteq> Panicked"
  using ring_reach_ok [of s] sys_ok_pc [of s t Panicked] by auto

text \<open>The state after a producer has reserved a position and before it fills it.\<close>

lemma ring_reaches:
  "ring_reach s \<Longrightarrow> ring_step s s' \<Longrightarrow> s' = s'' \<Longrightarrow> ring_reach s''"
  by (auto intro: ring_reach.step)

lemma race_reserved:
  "ring_reach \<lparr>rs_ring = ring_new\<lparr>rb_writeidx := 1\<rparr>, rs_pc = (\<lambda>_. Idle)(0 := Put_store v 0), rs_put = [], rs_got = []\<rparr>"
proof -
  let ?at = "\<lambda>p. \<lparr>rs_ring = ring_new, rs_pc = (\<lambda>_. Idle)(0 := p), rs_put = [], rs_got = []\<rparr>"
  have "ring_reach (?at (Put_start v))"
    by (rule ring_reaches [OF ring_reach.start ring_step.put_call [of _ 0 v]]) (simp_all add: ring_sys_new_def)
  then have "ring_reach (?at (Put_r v 0))"
    by (rule ring_reaches [OF _ ring_step.put_load_r [of _ 0 v]]) (simp_all add: ring_new_def)
  then have "ring_reach (?at (Put_w v 0 0))"
    by (rule ring_reaches [OF _ ring_step.put_load_w [of _ 0 v 0]]) (simp_all add: ring_new_def)
  then show ?thesis
    by (rule ring_reaches [OF _ ring_step.put_cas [of _ 0 v 0 0 0 1]])
      (simp_all add: ring_new_def cas_def ringbuf_length_def)
qed

lemma race_passed_over:
  "ring_reach \<lparr>rs_ring = ring_new\<lparr>rb_writeidx := 1, rb_readidx := 1\<rparr>, rs_pc = (\<lambda>_. Idle)(0 := Put_store v 0),
     rs_put = [], rs_got = [None]\<rparr>"
proof -
  let ?at = "\<lambda>p. \<lparr>rs_ring = ring_new\<lparr>rb_writeidx := 1\<rparr>, rs_pc = (\<lambda>_. Idle)(0 := Put_store v 0, 1 := p), rs_put = [], rs_got = []\<rparr>"
  let ?at' = "\<lambda>p. \<lparr>rs_ring = ring_new\<lparr>rb_writeidx := 1, rb_readidx := 1\<rparr>, rs_pc = (\<lambda>_. Idle)(0 := Put_store v 0, 1 := p), rs_put = [], rs_got = []\<rparr>"
  have "ring_reach (?at Get_start)"
    by (rule ring_reaches [OF race_reserved ring_step.get_call [of _ 1]]) simp_all
  then have "ring_reach (?at (Get_w 1))"
    by (rule ring_reaches [OF _ ring_step.get_load_w [of _ 1]]) simp_all
  then have "ring_reach (?at (Get_r 1 0))"
    by (rule ring_reaches [OF _ ring_step.get_load_r [of _ 1 1]]) (simp_all add: ring_new_def)
  then have "ring_reach (?at' (Get_read 0))"
    by (rule ring_reaches [OF _ ring_step.get_cas [of _ 1 1 0 0 1]])
      (simp_all add: ring_new_def cas_def ringbuf_length_def)
  then have "ring_reach (?at' (Got None))"
    by (rule ring_reaches [OF _ ring_step.get_read [of _ 1 0]])
      (simp_all add: ring_new_def get_at_ok)
  then show ?thesis
    by (rule ring_reaches [OF _ ring_step.get_return [of _ 1 None]]) (simp_all add: fun_eq_iff)
qed

text \<open>
  C35. A value can get lost between one producer and one consumer: \<^verbatim>\<open>put\<close> makes its position visible before
  it stores the value, so that a \<^verbatim>\<open>get\<close> in between takes the position and returns \<^verbatim>\<open>None\<close>.  There is a run after
  which no thread is inside an operation, the \<^verbatim>\<open>put\<close> of the value has returned and the only \<^verbatim>\<open>get\<close> so far has
  returned \<^verbatim>\<open>None\<close>, and yet the ring buffer counts as empty and the next \<^verbatim>\<open>get\<close> returns \<^verbatim>\<open>None\<close> again.
\<close>

theorem ring_race_loses:
  "\<exists>s. ring_reach s \<and> (\<forall>t. rs_pc s t = Idle) \<and> rs_put s = [v] \<and> rs_got s = [None] \<and>
     ring_get (rs_ring s) = Some (Inr (None, rs_ring s))"
proof -
  let ?s = "\<lparr>rs_ring = ring_new\<lparr>rb_writeidx := 1, rb_readidx := 1, rb_buffer := (replicate ringbuf_length None)[0 := Some v]\<rparr>,
    rs_pc = (\<lambda>_. Idle), rs_put = [v], rs_got = [None]\<rparr>"
  have "ring_reach ?s"
    by (rule ring_reaches [OF race_passed_over [of v] ring_step.put_store [of _ 0 v 0 "(replicate ringbuf_length None)[0 := Some v]"]])
      (simp_all add: ring_new_def set_at_ok fun_eq_iff)
  moreover have "ring_get (rs_ring ?s) = Some (Inr (None, rs_ring ?s))"
    by (subst ring_get.simps) simp
  ultimately show ?thesis by (intro exI [of _ ?s]) simp
qed

theorem ring_race_loses_witness:
  "\<exists>s :: nat ring_sys. ring_reach s \<and> rs_put s = [7] \<and> rs_got s = [None]"
  using ring_race_loses [of "7 :: nat"] by blast

end
