(* ===== verification/Async_Tasks.thy ===== *)
theory Async_Tasks
  imports Ring_Buf Kvm_Clock
begin

text \<open>
  Timers (\<^verbatim>\<open>src/src/asynchronous/timer.rs\<close>), the executor (\<^verbatim>\<open>src/src/asynchronous/executor.rs\<close>) and
  the two tasks that \<^verbatim>\<open>start_rust\<close> spawns.  A shared \<^verbatim>\<open>Arc\<close> is an index into the list of the objects
  that were created; a waker is the index of the task it wakes.  The queue of the \<^verbatim>\<open>crossbeam_queue\<close>
  package is an argument.  The clock is that of \<^verbatim>\<open>Kvm_Clock\<close>: every reading of it is made, also for what is
  only printed, and a reading that does not return makes the operation not return, which is the value
  \<^const>\<open>None\<close>.  The locks of a task and of a timer are not contended: tasks run with interrupts disabled.
\<close>

section \<open>The queue package\<close>

record 'q queue_ops =
  qo_push :: "nat \<Rightarrow> 'q \<Rightarrow> 'q option"
  qo_pop :: "'q \<Rightarrow> (nat \<times> 'q) option"
  qo_len :: "'q \<Rightarrow> nat"

section \<open>State\<close>

record shared_state =
  ss_completed :: bool
  ss_expired_monotonic :: u64
  ss_waker :: "nat option"

record ('f, 'q) async_state =
  as_timers :: "shared_state list"
  as_registered :: 'q
  as_tasks :: "'f option list"
  as_queue :: 'q
  as_clock :: clock_pos

section \<open>Timers\<close>

definition timer_new ::
  "'q queue_ops \<Rightarrow> clock_source \<Rightarrow> u64 \<Rightarrow> ('f, 'q) async_state \<Rightarrow> (nat \<times> ('f, 'q) async_state) res option"
where
  "timer_new Q C duration s =
     Option.bind (get_monotonic_time C (as_clock s)) (\<lambda>(nowtime, p).
       let s = s\<lparr>as_clock := p\<rparr>;
           expiretime = nowtime + duration;
           tid = length (as_timers s);
           shared = \<lparr>ss_completed = False, ss_expired_monotonic = expiretime, ss_waker = None\<rparr>
       in Some (case qo_push Q tid (as_registered s) of
            Some q \<Rightarrow> Inr (tid, s\<lparr>as_timers := as_timers s @ [shared], as_registered := q\<rparr>)
          | None \<Rightarrow> Inl Expect_failed))"

text \<open>\<^verbatim>\<open>poll\<close> of a timer by a task: whether it is ready.\<close>

definition timer_poll :: "nat \<Rightarrow> nat \<Rightarrow> ('f, 'q) async_state \<Rightarrow> (bool \<times> ('f, 'q) async_state) res" where
  "timer_poll tid task s =
     rbind (get_at (as_timers s) tid) (\<lambda>ss.
       if ss_completed ss then Inr (True, s)
       else Inr (False, s\<lparr>as_timers := (as_timers s)[tid := ss\<lparr>ss_waker := Some task\<rparr>]\<rparr>))"

text \<open>\<^verbatim>\<open>wake\<close> of the waker of a task.\<close>

definition task_wake :: "'q queue_ops \<Rightarrow> nat \<Rightarrow> ('f, 'q) async_state \<Rightarrow> ('f, 'q) async_state res" where
  "task_wake Q task s =
     (case qo_push Q task (as_queue s) of
        Some q \<Rightarrow> Inr (s\<lparr>as_queue := q\<rparr>)
      | None \<Rightarrow> Inl Expect_failed)"

text \<open>One iteration of the loop over the registered timers, and the loop.\<close>

definition check_timer :: "'q queue_ops \<Rightarrow> u64 \<Rightarrow> ('f, 'q) async_state \<Rightarrow> ('f, 'q) async_state res" where
  "check_timer Q nowtime s =
     (case qo_pop Q (as_registered s) of
        Some (tid, q) \<Rightarrow>
          let s = s\<lparr>as_registered := q\<rparr> in
          rbind (get_at (as_timers s) tid) (\<lambda>ss.
            if ss_expired_monotonic ss < nowtime then
              let s = s\<lparr>as_timers := (as_timers s)[tid := ss\<lparr>ss_completed := True, ss_waker := None\<rparr>]\<rparr> in
              (case ss_waker ss of Some task \<Rightarrow> task_wake Q task s | None \<Rightarrow> Inr s)
            else
              (case qo_push Q tid (as_registered s) of
                 Some q \<Rightarrow> Inr (s\<lparr>as_registered := q\<rparr>)
               | None \<Rightarrow> Inl Expect_failed))
      | None \<Rightarrow> Inr s)"

fun check_loop :: "'q queue_ops \<Rightarrow> u64 \<Rightarrow> nat \<Rightarrow> ('f, 'q) async_state \<Rightarrow> ('f, 'q) async_state res" where
  "check_loop Q nowtime 0 s = Inr s"
| "check_loop Q nowtime (Suc n) s = rbind (check_timer Q nowtime s) (check_loop Q nowtime n)"

definition check_timerfutures ::
  "'q queue_ops \<Rightarrow> clock_source \<Rightarrow> ('f, 'q) async_state \<Rightarrow> ('f, 'q) async_state res option"
where
  "check_timerfutures Q C s =
     Option.bind (get_monotonic_time C (as_clock s)) (\<lambda>(nowtime, p).
       let s = s\<lparr>as_clock := p\<rparr>
       in Some (check_loop Q nowtime (qo_len Q (as_registered s)) s))"

section \<open>The executor\<close>

datatype 'f poll = Ready | Pending 'f

definition executor_new :: "'q \<Rightarrow> 'q \<Rightarrow> ('f, 'q) async_state" where
  "executor_new empty_timers empty_tasks =
     \<lparr>as_timers = [], as_registered = empty_timers, as_tasks = [], as_queue = empty_tasks,
      as_clock = \<lparr>pos_tsc = 0, pos_info = 0, pos_wall = 0\<rparr>\<rparr>"

definition executor_spawn :: "'q queue_ops \<Rightarrow> 'f \<Rightarrow> ('f, 'q) async_state \<Rightarrow> ('f, 'q) async_state res" where
  "executor_spawn Q future s =
     task_wake Q (length (as_tasks s)) (s\<lparr>as_tasks := as_tasks s @ [Some future]\<rparr>)"

text \<open>
  The body of the loop of \<^verbatim>\<open>run\<close> for a task that was popped.  \<open>poll\<close> polls a future for a task;
  \<^const>\<open>None\<close> says that it does not return.
\<close>

definition run_task ::
  "('f \<Rightarrow> nat \<Rightarrow> ('f, 'q) async_state \<Rightarrow> ('f poll \<times> ('f, 'q) async_state) res option) \<Rightarrow> nat \<Rightarrow>
   ('f, 'q) async_state \<Rightarrow> ('f, 'q) async_state res option"
where
  "run_task poll task s =
     (case get_at (as_tasks s) task of
        Inl e \<Rightarrow> Some (Inl e)
      | Inr None \<Rightarrow> Some (Inr s)
      | Inr (Some future) \<Rightarrow>
          map_option (\<lambda>r. rbind r (\<lambda>(p, s). case p of
              Pending future \<Rightarrow> Inr (s\<lparr>as_tasks := (as_tasks s)[task := Some future]\<rparr>)
            | Ready \<Rightarrow> Inr s))
            (poll future task (s\<lparr>as_tasks := (as_tasks s)[task := None]\<rparr>)))"

partial_function (option) executor_run ::
  "('f \<Rightarrow> nat \<Rightarrow> ('f, 'q) async_state \<Rightarrow> ('f poll \<times> ('f, 'q) async_state) res option) \<Rightarrow>
   'q queue_ops \<Rightarrow> ('f, 'q) async_state \<Rightarrow> ('f, 'q) async_state res option"
where
  "executor_run poll Q s =
     (case qo_pop Q (as_queue s) of
        None \<Rightarrow> Some (Inr s)
      | Some (task, q) \<Rightarrow>
          Option.bind (run_task poll task (s\<lparr>as_queue := q\<rparr>)) (\<lambda>r.
            case r of Inl e \<Rightarrow> Some (Inl e) | Inr s \<Rightarrow> executor_run poll Q s))"

section \<open>The tasks of the kernel\<close>

text \<open>
  The \<^verbatim>\<open>async\<close> block of a test task: before its first iteration, or waiting for the timer of the
  iteration.  The duration is in nanoseconds.  An iteration reads the date, which it prints, and
  waits for a new timer.
\<close>

datatype test_future = Test_Start u64 | Test_Wait u64 nat

partial_function (option) test_loop ::
  "'q queue_ops \<Rightarrow> clock_source \<Rightarrow> u64 \<Rightarrow> nat \<Rightarrow> (test_future, 'q) async_state \<Rightarrow>
   (test_future poll \<times> (test_future, 'q) async_state) res option"
where
  "test_loop Q C duration task s =
     Option.bind (get_calendar C (as_clock s)) (\<lambda>(calendar, p).
       case calendar of
         Inl e \<Rightarrow> Some (Inl e)
       | Inr _ \<Rightarrow>
           Option.bind (timer_new Q C duration (s\<lparr>as_clock := p\<rparr>)) (\<lambda>r.
             case r of
               Inl e \<Rightarrow> Some (Inl e)
             | Inr (tid, s) \<Rightarrow>
                 (case timer_poll tid task s of
                    Inl e \<Rightarrow> Some (Inl e)
                  | Inr (ready, s) \<Rightarrow>
                      if ready then test_loop Q C duration task s
                      else Some (Inr (Pending (Test_Wait duration tid), s)))))"

fun test_poll ::
  "'q queue_ops \<Rightarrow> clock_source \<Rightarrow> test_future \<Rightarrow> nat \<Rightarrow> (test_future, 'q) async_state \<Rightarrow>
   (test_future poll \<times> (test_future, 'q) async_state) res option"
where
  "test_poll Q C (Test_Start duration) task s = test_loop Q C duration task s"
| "test_poll Q C (Test_Wait duration tid) task s =
     (case timer_poll tid task s of
        Inl e \<Rightarrow> Some (Inl e)
      | Inr (ready, s) \<Rightarrow>
          if ready then test_loop Q C duration task s
          else Some (Inr (Pending (Test_Wait duration tid), s)))"

text \<open>A run of the executor on these tasks, and the two tasks that \<^verbatim>\<open>start_rust\<close> begins with.\<close>

abbreviation run_tasks ::
  "'q queue_ops \<Rightarrow> clock_source \<Rightarrow> (test_future, 'q) async_state \<Rightarrow> (test_future, 'q) async_state res option"
where
  "run_tasks Q C s \<equiv> executor_run (test_poll Q C) Q s"

definition spawn_test_tasks :: "'q queue_ops \<Rightarrow> (test_future, 'q) async_state \<Rightarrow> (test_future, 'q) async_state res" where
  "spawn_test_tasks Q s =
     rbind (executor_spawn Q (Test_Start 5000000000) s) (executor_spawn Q (Test_Start 8000000000))"

end
