(* ===== verification/Interrupts.thy ===== *)
theory Interrupts
  imports X86_Io Kvm_Clock Net_Stack Async_Tasks
begin

text \<open>
  Interrupts: the local and the I/O APIC and the interrupt descriptor table
  (\<^verbatim>\<open>src/src/arch/x86_64/apic.rs\<close>), the table of interrupt handlers (\<^verbatim>\<open>src/src/interrupt.rs\<close>) and the
  entry from the interrupt stubs (\<^verbatim>\<open>interrupt_handler\<close> of \<^verbatim>\<open>src/src/lib.rs\<close>), down to the handlers of
  the timer and of the network driver.  The addresses of the statics and of the stubs, which are
  assembler code, are arguments.
\<close>

section \<open>Descriptors\<close>

record idt_entry =
  idt_offsetl :: u16
  idt_selector :: u16
  idt_zero :: u8
  idt_attribute :: u8
  idt_offsetm :: u16
  idt_offseth :: u32
  idt_zero2 :: u32

definition idt_entry_new :: idt_entry where
  "idt_entry_new = \<lparr>idt_offsetl = 0, idt_selector = 0, idt_zero = 0, idt_attribute = 0, idt_offsetm = 0,
     idt_offseth = 0, idt_zero2 = 0\<rparr>"

definition idt_set_offset :: "u64 \<Rightarrow> idt_entry \<Rightarrow> idt_entry" where
  "idt_set_offset offset e =
     e\<lparr>idt_offsetl := ucast (drop_bit 0 (offset AND 0x000000000000ffff)),
       idt_offsetm := ucast (drop_bit 16 (offset AND 0x00000000ffff0000)),
       idt_offseth := ucast (drop_bit 32 (offset AND 0xffffffff00000000)),
       idt_attribute := 0x8e, idt_selector := 8\<rparr>"

section \<open>The machine\<close>

record machine =
  mc_io :: io_log
  mc_idt :: "idt_entry list"
  mc_idtr :: "u16 \<times> u64"
  mc_pv_eoi :: "u32 list"

definition machine_new :: machine where
  "machine_new = \<lparr>mc_io = [], mc_idt = replicate 256 idt_entry_new, mc_idtr = (0, 0), mc_pv_eoi = replicate 256 0\<rparr>"

abbreviation on_io :: "(io_log \<Rightarrow> io_log) \<Rightarrow> machine \<Rightarrow> machine" where
  "on_io f m \<equiv> m\<lparr>mc_io := f (mc_io m)\<rparr>"

definition apic_read :: "hardware \<Rightarrow> u64 \<Rightarrow> io_log \<Rightarrow> u32 \<times> io_log" where
  "apic_read H addr l = (hw_mem H l addr, l @ [Mem_Read addr])"

definition apic_write :: "u64 \<Rightarrow> u32 \<Rightarrow> io_log \<Rightarrow> io_log" where
  "apic_write addr val l = l @ [Mem_Write addr val]"

definition get_lapic_id :: "hardware \<Rightarrow> io_log \<Rightarrow> u8 \<times> io_log" where
  "get_lapic_id H l = (let (v, l) = apic_read H 0xfee00020 l in (ucast (drop_bit 24 v), l))"

section \<open>The I/O APIC\<close>

definition ioapic_reg_low :: "u8 \<Rightarrow> u8" where
  "ioapic_reg_low n = 0x10 + n * 2"

definition ioapic_reg_high :: "u8 \<Rightarrow> u8" where
  "ioapic_reg_high n = 0x10 + n * 2 + 1"

definition ioapic_read :: "hardware \<Rightarrow> u8 \<Rightarrow> io_log \<Rightarrow> u32 \<times> io_log" where
  "ioapic_read H reg l =
     (let l = l @ [Mem_Write (0xfec00000 + 0x00) (ucast reg)]
      in (hw_mem H l (0xfec00000 + 0x10), l @ [Mem_Read (0xfec00000 + 0x10)]))"

definition ioapic_write :: "u8 \<Rightarrow> u32 \<Rightarrow> io_log \<Rightarrow> io_log" where
  "ioapic_write reg data l =
     l @ [Mem_Write (0xfec00000 + 0x00) (ucast reg), Mem_Write (0xfec00000 + 0x10) data]"

definition enable_irq :: "u8 \<Rightarrow> io_log \<Rightarrow> io_log" where
  "enable_irq irq l = ioapic_write (ioapic_reg_low irq) (48 + ucast irq) (ioapic_write (ioapic_reg_high irq) 0 l)"

definition disable_irq :: "u8 \<Rightarrow> io_log \<Rightarrow> io_log" where
  "disable_irq irq l = ioapic_write (ioapic_reg_low irq) (rust_shl 1 16) (ioapic_write (ioapic_reg_high irq) 0 l)"

text \<open>
  \<^verbatim>\<open>ack_irq\<close>: the hypervisor's bit for this processor is tested and cleared; when it was not set,
  the end of the interrupt is signalled to the local APIC.
\<close>

definition ack_irq :: "hardware \<Rightarrow> machine \<Rightarrow> machine res" where
  "ack_irq H m =
     (let (idn, l) = get_lapic_id H (mc_io m) in
      rbind (get_at (mc_pv_eoi m) (unat idn)) (\<lambda>w.
        let m = m\<lparr>mc_io := l, mc_pv_eoi := (mc_pv_eoi m)[unat idn := w AND NOT 1]\<rparr>
        in Inr (if \<not> bit w 0 then on_io (apic_write 0xfee000b0 0) m else m)))"

definition ioapic_init :: "hardware \<Rightarrow> machine \<Rightarrow> machine res" where
  "ioapic_init H m =
     (let l = outb 0x0022 0x70 (mc_io m);
          l = outb 0x0023 0x01 l;
          (ver, l) = ioapic_read H 0x01 l;
          num = drop_bit 16 ver + 1;
          l = fold (\<lambda>i l. ioapic_write (ioapic_reg_low (of_nat i)) (rust_shl 1 16)
                            (ioapic_write (ioapic_reg_high (of_nat i)) 0 l)) [0..<unat num] l
      in ack_irq H (m\<lparr>mc_io := l\<rparr>))"

section \<open>Initialisation\<close>

definition apic_enable_local :: "hardware \<Rightarrow> io_log \<Rightarrow> io_log" where
  "apic_enable_local H l =
     (let l = outb 0x00a1 0xff l;
          l = outb 0x0021 0xff l;
          (base, l) = rdmsr H 0x1b l;
          l = wrmsr 0x1b ((base AND 0xfffff100) OR 0x0800) l;
          l = apic_write 0xfee000f0 (rust_shl 1 8) l;
          l = apic_write 0xfee00080 0 l;
          l = apic_write 0xfee000d0 0x01000000 l;
          l = apic_write 0xfee000e0 0xffffffff l;
          l = apic_write 0xfee00320 (rust_shl 1 16) l
      in apic_write 0xfee00370 (rust_shl 1 16) l)"

text \<open>The loop that waits until the timer has counted down.\<close>

partial_function (option) timer_wait :: "hardware \<Rightarrow> io_log \<Rightarrow> io_log option" where
  "timer_wait H l =
     (let (cnt, l) = apic_read H 0xfee00390 l in
      if cnt < 0xfff00000 then Some l else timer_wait H l)"

definition timer_start :: "u64 \<Rightarrow> u64 \<Rightarrow> io_log \<Rightarrow> io_log res" where
  "timer_start before after l =
     (if after > before then
        let base_cnt = (2 * 1000000000 div 1000) * 0xfffff div (after - before);
            l = apic_write 0xfee00380 (ucast base_cnt) l
        in Inr (apic_write 0xfee00320 ((48 + 0) OR 0x20000) l)
      else Inl Assert_failed)"

definition timer_calibrate ::
  "hardware \<Rightarrow> clock_source \<Rightarrow> io_log \<times> clock_pos \<Rightarrow> (io_log \<times> clock_pos) res option"
where
  "timer_calibrate H C lp =
     (let (l, p) = lp;
          l = apic_write 0xfee00380 0xffffffff l;
          l = apic_write 0xfee003e0 0x03 l
      in Option.bind (get_monotonic_time C p) (\<lambda>(before, p).
         Option.bind (timer_wait H l) (\<lambda>l.
         Option.bind (get_monotonic_time C p) (\<lambda>(after, p).
           Some (rbind (timer_start before after l) (\<lambda>l. Inr (l, p)))))))"

definition idt_install :: "u64 \<Rightarrow> u64 \<Rightarrow> machine \<Rightarrow> machine" where
  "idt_install stubs idt_addr m =
     (let idt = fold (\<lambda>i idt. idt[i := idt_set_offset (stubs + 0x10 * of_nat i) (idt ! i)]) [0..<256] (mc_idt m);
          idtr = (16 * 256 - 1, idt_addr)
      in m\<lparr>mc_idt := idt, mc_idtr := idtr, mc_io := mc_io m @ [Lidt (fst idtr) (snd idtr)]\<rparr>)"

definition pv_eoi_enable :: "hardware \<Rightarrow> u64 \<Rightarrow> machine \<Rightarrow> machine" where
  "pv_eoi_enable H pv_eoi_addr m =
     (let (features, l) = get_kvm_features H (mc_io m) in
      if features AND rust_shl 1 6 \<noteq> 0 then
        let (idn, l) = get_lapic_id H l; addr = pv_eoi_addr + 4 * ucast idn
        in m\<lparr>mc_io := wrmsr 0x4b564d04 (addr OR 1) l\<rparr>
      else m\<lparr>mc_io := l\<rparr>)"

definition apic_init ::
  "hardware \<Rightarrow> clock_source \<Rightarrow> u64 \<Rightarrow> u64 \<Rightarrow> u64 \<Rightarrow> machine \<times> clock_pos \<Rightarrow> (machine \<times> clock_pos) res option"
where
  "apic_init H C stubs idt_addr pv_eoi_addr mp =
     (let (m, p) = mp; l = apic_enable_local H (mc_io m) in
      map_option (\<lambda>r. rbind r (\<lambda>(l, p).
          let m = idt_install stubs idt_addr (m\<lparr>mc_io := l\<rparr>);
              m = pv_eoi_enable H pv_eoi_addr m
          in rbind (ioapic_init H m) (\<lambda>m. Inr (m, p))))
        (timer_calibrate H C (l, p)))"

section \<open>Handlers\<close>

text \<open>The two implementations of \<^verbatim>\<open>Interruptable\<close>: the timer, and a network interface with its interrupt.\<close>

datatype interruptable = Timer | Virtio_Net netif_ref u8

fun get_irq :: "interruptable \<Rightarrow> u8" where
  "get_irq Timer = 0"
| "get_irq (Virtio_Net k irq) = irq"

record 'q kernel =
  k_machine :: machine
  k_handlers :: "interruptable option list"
  k_net :: net_state
  k_async :: "(test_future, 'q) async_state"

definition irq_handlers_new :: "interruptable option list" where
  "irq_handlers_new = replicate 256 None"

definition set_handler :: "interruptable \<Rightarrow> 'q kernel \<Rightarrow> 'q kernel res" where
  "set_handler handler k =
     (let irq = get_irq handler in
      rbind (set_at (k_handlers k) (unat irq) (Some handler)) (\<lambda>hs.
        Inr (k\<lparr>k_handlers := hs, k_machine := on_io (enable_irq irq) (k_machine k)\<rparr>)))"

definition unset_handler :: "u8 \<Rightarrow> 'q kernel \<Rightarrow> 'q kernel res" where
  "unset_handler irq k =
     rbind (set_at (k_handlers k) (unat irq) None) (\<lambda>hs.
       Inr (k\<lparr>k_handlers := hs, k_machine := on_io (disable_irq irq) (k_machine k)\<rparr>))"

definition get_handler :: "u8 \<Rightarrow> 'q kernel \<Rightarrow> interruptable option res" where
  "get_handler irq k = get_at (k_handlers k) (unat irq)"

text \<open>
  What the world outside gives the handlers: the hardware, the allocator, the network devices by their
  index on the command line, the queue package, the clock.
\<close>

record 'q environment =
  en_hardware :: hardware
  en_heap :: heap_source
  en_devices :: "nat \<Rightarrow> mmio_device"
  en_queue :: "'q queue_ops"
  en_clock :: clock_source

text \<open>The interrupt flag.\<close>

definition enable_interrupt :: "io_log \<Rightarrow> io_log" where
  "enable_interrupt l = io_enable_interrupt l"

definition disable_interrupt :: "io_log \<Rightarrow> io_log" where
  "disable_interrupt l = io_disable_interrupt l"

text \<open>
  The method \<^verbatim>\<open>interrupt_handler\<close> of the trait.  The timer reads the clock, which may not return; this is the
  value \<^const>\<open>None\<close>.
\<close>

fun handle_interrupt :: "'q environment \<Rightarrow> interruptable \<Rightarrow> 'q kernel \<Rightarrow> 'q kernel res option" where
  "handle_interrupt E Timer k =
     map_option (\<lambda>r. rbind r (\<lambda>a. Inr (k\<lparr>k_async := a\<rparr>)))
       (check_timerfutures (en_queue E) (en_clock E) (k_async k))"
| "handle_interrupt E (Virtio_Net r irq) k =
     Some (rbind (get_at (ns_ifaces (k_net k)) r) (\<lambda>v.
       rbind (vnet_interrupt_handler (en_heap E) (en_devices E (vn_id v)) r (k_net k)) (\<lambda>n. Inr (k\<lparr>k_net := n\<rparr>))))"

definition irq_handler :: "'q environment \<Rightarrow> u8 \<Rightarrow> 'q kernel \<Rightarrow> 'q kernel res option" where
  "irq_handler E irq k =
     (case ack_irq (en_hardware E) (k_machine k) of
        Inl e \<Rightarrow> Some (Inl e)
      | Inr m \<Rightarrow>
          let k = k\<lparr>k_machine := on_io disable_interrupt m\<rparr> in
          (case get_handler irq k of
             Inl e \<Rightarrow> Some (Inl e)
           | Inr (Some handle) \<Rightarrow> handle_interrupt E handle k
           | Inr None \<Rightarrow> Some (Inr k)))"

text \<open>The entry from the stubs, for an interrupt vector.\<close>

definition interrupt_handler :: "'q environment \<Rightarrow> u8 \<Rightarrow> 'q kernel \<Rightarrow> 'q kernel res option" where
  "interrupt_handler E intvec k =
     (if intvec \<le> 20 then Some (Inl Explicit_panic)
      else if intvec \<ge> 48 then irq_handler E (intvec - 48) k
      else Some (Inr k))"

end
