(* ===== verification/Mem_Ops.thy ===== *)
theory Mem_Ops
  imports Rust_Prelude
begin

text \<open>
  The memory routines that \<^verbatim>\<open>src/src/lib.rs\<close> provides to the compiler: \<^verbatim>\<open>memcmp\<close>, \<^verbatim>\<open>bcmp\<close>,
  \<^verbatim>\<open>memset\<close>, \<^verbatim>\<open>memcpy\<close> and \<^verbatim>\<open>memmove\<close>.  The memory is a function from addresses to bytes, a
  pointer is an address, and the loops run on machine words as in the source.  The routines are
  compared with what they do to the list of bytes behind a pointer, overlapping regions included.
\<close>

type_synonym addr = u64
type_synonym memory = "addr \<Rightarrow> u8"

section \<open>The loops\<close>

text \<open>\<^verbatim>\<open>while i < n\<close>: the distance to the bound is what every loop below decreases.\<close>

lemma distance_decreases: "i < n \<Longrightarrow> unat (n - (i + 1)) < unat (n - i :: usize)"
proof -
  assume "i < n"
  then have "n - i \<noteq> 0" by auto
  then show ?thesis using unat_decr_less [of "n - i"] by (simp add: algebra_simps)
qed

function memcmp_loop :: "memory \<Rightarrow> addr \<Rightarrow> addr \<Rightarrow> usize \<Rightarrow> usize \<Rightarrow> 32 word" where
  "memcmp_loop m s1 s2 n i =
     (if i < n then
        let a = m (s1 + i); b = m (s2 + i)
        in if a \<noteq> b then ucast a - ucast b else memcmp_loop m s1 s2 n (i + 1)
      else 0)"
  by pat_completeness auto
termination by (relation "measure (\<lambda>(m, s1, s2, n, i). unat (n - i))") (simp_all add: distance_decreases)

definition memcmp :: "memory \<Rightarrow> addr \<Rightarrow> addr \<Rightarrow> usize \<Rightarrow> 32 word" where
  "memcmp m s1 s2 n = memcmp_loop m s1 s2 n 0"

definition bcmp :: "memory \<Rightarrow> addr \<Rightarrow> addr \<Rightarrow> usize \<Rightarrow> 32 word" where
  "bcmp m s1 s2 n = memcmp m s1 s2 n"

function memset_loop :: "addr \<Rightarrow> 32 word \<Rightarrow> usize \<Rightarrow> usize \<Rightarrow> memory \<Rightarrow> memory" where
  "memset_loop s c n i m =
     (if i < n then memset_loop s c n (i + 1) (m(s + i := ucast c)) else m)"
  by pat_completeness auto
termination by (relation "measure (\<lambda>(s, c, n, i, m). unat (n - i))") (simp_all add: distance_decreases)

definition memset :: "addr \<Rightarrow> 32 word \<Rightarrow> usize \<Rightarrow> memory \<Rightarrow> addr \<times> memory" where
  "memset s c n m = (s, memset_loop s c n 0 m)"

function copy_up :: "addr \<Rightarrow> addr \<Rightarrow> usize \<Rightarrow> usize \<Rightarrow> memory \<Rightarrow> memory" where
  "copy_up dest src n i m =
     (if i < n then copy_up dest src n (i + 1) (m(dest + i := m (src + i))) else m)"
  by pat_completeness auto
termination by (relation "measure (\<lambda>(dest, src, n, i, m). unat (n - i))") (simp_all add: distance_decreases)

function copy_down :: "addr \<Rightarrow> addr \<Rightarrow> usize \<Rightarrow> memory \<Rightarrow> memory" where
  "copy_down dest src i m =
     (if i \<noteq> 0 then let i = i - 1 in copy_down dest src i (m(dest + i := m (src + i))) else m)"
  by pat_completeness auto
termination by (relation "measure (\<lambda>(dest, src, i, m). unat i)") (simp_all add: unat_decr_less)

definition memcpy :: "addr \<Rightarrow> addr \<Rightarrow> usize \<Rightarrow> memory \<Rightarrow> addr \<times> memory" where
  "memcpy dest src n m = (dest, copy_up dest src n 0 m)"

definition memmove :: "addr \<Rightarrow> addr \<Rightarrow> usize \<Rightarrow> memory \<Rightarrow> addr \<times> memory" where
  "memmove dest src n m =
     (dest, if src < dest then copy_down dest src n m else copy_up dest src n 0 m)"

declare memcmp_loop.simps [simp del] memset_loop.simps [simp del] copy_up.simps [simp del] copy_down.simps [simp del]

section \<open>Regions of the memory\<close>

definition bytes_at :: "memory \<Rightarrow> addr \<Rightarrow> nat \<Rightarrow> u8 list" where
  "bytes_at m a n = map (\<lambda>k. m (a + of_nat k)) [0..<n]"

definition region :: "addr \<Rightarrow> nat \<Rightarrow> addr set" where
  "region a n = (\<lambda>k. a + of_nat k) ` {..<n}"

text \<open>A region that does not wrap around the end of the address space.\<close>

definition no_wrap :: "addr \<Rightarrow> nat \<Rightarrow> bool" where
  "no_wrap a n \<longleftrightarrow> unat a + n \<le> 2 ^ 64"

lemma length_bytes_at [simp]: "length (bytes_at m a n) = n"
  by (simp add: bytes_at_def)

lemma nth_bytes_at [simp]: "k < n \<Longrightarrow> bytes_at m a n ! k = m (a + of_nat k)"
  by (simp add: bytes_at_def)

lemma unat_offset: "no_wrap a n \<Longrightarrow> k < n \<Longrightarrow> unat (a + of_nat k) = unat a + k"
proof -
  assume a: "no_wrap a n" "k < n"
  then have "k < 2 ^ 64" and s: "unat a + k < 2 ^ 64" by (simp_all add: no_wrap_def)
  then have "unat (of_nat k :: addr) = k" by (simp add: unat_of_nat_small)
  with s show ?thesis by (simp add: unat_word_ariths)
qed

lemma offset_inj:
  assumes "j < 2 ^ 64" "k < 2 ^ 64"
  shows "a + of_nat j = a + (of_nat k :: addr) \<longleftrightarrow> j = k"
proof
  assume "a + of_nat j = a + (of_nat k :: addr)"
  then have "unat (of_nat j :: addr) = unat (of_nat k :: addr)" by simp
  moreover have "unat (of_nat j :: addr) = j" "unat (of_nat k :: addr) = k"
    using assms by (simp_all add: unat_of_nat_small)
  ultimately show "j = k" by simp
qed simp

section \<open>The loops as sequences of byte operations\<close>

text \<open>One byte copied, and a list of offsets copied in the given order.\<close>

definition copy_byte :: "addr \<Rightarrow> addr \<Rightarrow> nat \<Rightarrow> memory \<Rightarrow> memory" where
  "copy_byte dest src k m = m(dest + of_nat k := m (src + of_nat k))"

lemma less_of_nat_iff: "k \<le> unat n \<Longrightarrow> (of_nat k :: usize) < n \<longleftrightarrow> k < unat n"
  using unsigned_less [of n, where 'a = nat] by (simp add: word_less_nat_alt unat_of_nat_small)

lemma copy_up_fold:
  "k \<le> unat n \<Longrightarrow> copy_up dest src n (of_nat k) m = fold (copy_byte dest src) [k..<unat n] m"
proof (induction "unat n - k" arbitrary: k m)
  case 0
  then show ?case by (simp add: copy_up.simps less_of_nat_iff)
next
  case (Suc d)
  then have k: "k < unat n" by simp
  then have "copy_up dest src n (of_nat k) m = copy_up dest src n (of_nat (Suc k)) (copy_byte dest src k m)"
    by (subst copy_up.simps) (simp add: less_of_nat_iff copy_byte_def add.commute)
  also have "\<dots> = fold (copy_byte dest src) [Suc k..<unat n] (copy_byte dest src k m)"
    using Suc.hyps(2) k by (intro Suc.hyps(1)) simp_all
  finally show ?case using k by (simp add: upt_conv_Cons)
qed

lemma copy_down_fold: "copy_down dest src i m = fold (copy_byte dest src) (rev [0..<unat i]) m"
proof (induction dest src i m rule: copy_down.induct)
  case (1 dest src i m)
  show ?case
  proof (cases "i = 0")
    case True
    then show ?thesis by (simp add: copy_down.simps)
  next
    case False
    then have u: "unat i = Suc (unat (i - 1))" by (simp add: unat_minus_one unat_gt_0)
    have b: "copy_byte dest src (unat (i - 1)) m = m(dest + (i - 1) := m (src + (i - 1)))"
      by (simp add: copy_byte_def)
    have "copy_down dest src i m = copy_down dest src (i - 1) (copy_byte dest src (unat (i - 1)) m)"
      unfolding b using False by (subst copy_down.simps) (simp add: Let_def)
    also have "\<dots> = fold (copy_byte dest src) (rev [0..<unat (i - 1)]) (copy_byte dest src (unat (i - 1)) m)"
      unfolding b by (rule 1 [OF False refl])
    finally show ?thesis by (simp add: u)
  qed
qed

lemma memset_loop_fold:
  "k \<le> unat n \<Longrightarrow>
   memset_loop s c n (of_nat k) m = fold (\<lambda>j m. m(s + of_nat j := ucast c)) [k..<unat n] m"
proof (induction "unat n - k" arbitrary: k m)
  case 0
  then show ?case by (simp add: memset_loop.simps less_of_nat_iff)
next
  case (Suc d)
  then have k: "k < unat n" by simp
  then have "memset_loop s c n (of_nat k) m = memset_loop s c n (of_nat (Suc k)) (m(s + of_nat k := ucast c))"
    by (subst memset_loop.simps) (simp add: less_of_nat_iff add.commute)
  also have "\<dots> = fold (\<lambda>j m. m(s + of_nat j := ucast c)) [Suc k..<unat n] (m(s + of_nat k := ucast c))"
    using Suc.hyps(2) k by (intro Suc.hyps(1)) simp_all
  finally show ?case using k by (simp add: upt_conv_Cons)
qed

text \<open>
  The order of a copy is safe when no byte is read after its address was written and no address
  is written twice.
\<close>

definition safe_order :: "addr \<Rightarrow> addr \<Rightarrow> nat list \<Rightarrow> bool" where
  "safe_order dest src ks \<longleftrightarrow>
     sorted_wrt (\<lambda>j k. dest + of_nat j \<noteq> dest + of_nat k \<and> src + of_nat k \<noteq> dest + of_nat j) ks"

lemma copy_in_safe_order:
  assumes "safe_order dest src ks"
  shows "fold (copy_byte dest src) ks m x =
     (if \<exists>k\<in>set ks. x = dest + of_nat k then m (x - dest + src) else m x)"
  using assms
proof (induction ks arbitrary: m)
  case Nil
  then show ?case by simp
next
  case (Cons j ks)
  have rest: "safe_order dest src ks" and
    j: "\<And>k. k \<in> set ks \<Longrightarrow> dest + of_nat j \<noteq> dest + of_nat k \<and> src + of_nat k \<noteq> dest + of_nat j"
    using Cons.prems by (auto simp: safe_order_def)
  have "fold (copy_byte dest src) (j # ks) m x =
      (if \<exists>k\<in>set ks. x = dest + of_nat k then copy_byte dest src j m (x - dest + src) else copy_byte dest src j m x)"
    using Cons.IH [OF rest] by simp
  moreover have "copy_byte dest src j m (x - dest + src) = m (x - dest + src)"
    if "\<exists>k\<in>set ks. x = dest + of_nat k"
    using that j by (auto simp: copy_byte_def add.commute)
  moreover have "copy_byte dest src j m x = (if x = dest + of_nat j then m (x - dest + src) else m x)"
    by (auto simp: copy_byte_def add.commute)
  ultimately show ?case by (cases "\<exists>k\<in>set ks. x = dest + of_nat k") (simp_all add: bex_simps)
qed

lemma safe_order_copied:
  assumes "safe_order dest src ks" "set ks = {..<n}"
  shows "bytes_at (fold (copy_byte dest src) ks m) dest n = bytes_at m src n"
    and "x \<notin> region dest n \<Longrightarrow> fold (copy_byte dest src) ks m x = m x"
proof -
  show "bytes_at (fold (copy_byte dest src) ks m) dest n = bytes_at m src n"
    using assms(2) by (intro nth_equalityI) (auto simp: copy_in_safe_order [OF assms(1)] add.commute)
  show "x \<notin> region dest n \<Longrightarrow> fold (copy_byte dest src) ks m x = m x"
    using assms(2) by (auto simp: copy_in_safe_order [OF assms(1)] region_def)
qed

section \<open>Safe orders of memmove and memcpy\<close>

lemma safe_up:
  assumes "no_wrap dest n" "no_wrap src n" "dest \<le> src \<or> region dest n \<inter> region src n = {}"
  shows "safe_order dest src [0..<n]"
proof -
  have n: "n \<le> 2 ^ 64" using assms(1) by (simp add: no_wrap_def)
  have "src + of_nat k \<noteq> dest + of_nat j" if jk: "j < k" "k < n" for j k
  proof
    assume e: "src + of_nat k = dest + (of_nat j :: addr)"
    moreover have "dest + of_nat j \<in> region dest n" "src + of_nat k \<in> region src n"
      using jk by (auto simp: region_def)
    ultimately have "region dest n \<inter> region src n \<noteq> {}" by auto
    then have "unat dest \<le> unat src" using assms(3) by (auto simp: word_le_nat_alt)
    moreover have "unat src + k = unat dest + j"
      using arg_cong [OF e, of unat] jk unat_offset [OF assms(1), of j] unat_offset [OF assms(2), of k] by simp
    ultimately show False using jk by simp
  qed
  then show ?thesis
    using n unfolding safe_order_def
    by (intro sorted_wrt_mono_rel [OF _ sorted_wrt_upt]) (auto simp: offset_inj simp del: add_left_cancel)
qed

lemma safe_down:
  assumes "no_wrap dest n" "no_wrap src n" "src < dest"
  shows "safe_order dest src (rev [0..<n])"
proof -
  have n: "n \<le> 2 ^ 64" using assms(1) by (simp add: no_wrap_def)
  have "src + of_nat k \<noteq> dest + of_nat j" if jk: "k < j" "j < n" for j k
  proof
    assume e: "src + of_nat k = dest + (of_nat j :: addr)"
    have "unat src + k = unat dest + j"
      using arg_cong [OF e, of unat] jk unat_offset [OF assms(1), of j] unat_offset [OF assms(2), of k] by simp
    then show False using jk assms(3) by (simp add: word_less_nat_alt)
  qed
  then show ?thesis
    using n unfolding safe_order_def sorted_wrt_rev
    by (intro sorted_wrt_mono_rel [OF _ sorted_wrt_upt]) (auto simp: offset_inj simp del: add_left_cancel)
qed

section \<open>What the routines do\<close>

text \<open>
  C28. \<^verbatim>\<open>memmove\<close> copies: whatever the overlap of the two regions, the destination holds afterwards
  the bytes that the source held before, no other address changes, and the destination pointer is returned.
\<close>

theorem memmove_copies:
  assumes "no_wrap dest (unat n)" "no_wrap src (unat n)"
  shows "fst (memmove dest src n m) = dest \<and>
    bytes_at (snd (memmove dest src n m)) dest (unat n) = bytes_at m src (unat n) \<and>
    (\<forall>x. x \<notin> region dest (unat n) \<longrightarrow> snd (memmove dest src n m) x = m x)"
proof (cases "src < dest")
  case True
  then show ?thesis
    using safe_order_copied [OF safe_down [OF assms True]] by (simp add: memmove_def copy_down_fold lessThan_atLeast0)
next
  case False
  then have "dest \<le> src" by simp
  then show ?thesis
    using safe_order_copied [OF safe_up [OF assms], where m = m] False copy_up_fold [of 0 n dest src m]
    by (simp add: memmove_def lessThan_atLeast0)
qed

lemma memcpy_copies:
  assumes "no_wrap dest (unat n)" "no_wrap src (unat n)"
    and "region dest (unat n) \<inter> region src (unat n) = {}"
  shows "bytes_at (snd (memcpy dest src n m)) dest (unat n) = bytes_at m src (unat n)"
    and "x \<notin> region dest (unat n) \<Longrightarrow> snd (memcpy dest src n m) x = m x"
  using safe_order_copied [OF safe_up [OF assms(1,2)], where m = m] assms(3) copy_up_fold [of 0 n dest src m]
  by (simp_all add: memcpy_def lessThan_atLeast0)

lemma memset_fills:
  "snd (memset s c n m) x = (if x \<in> region s (unat n) then ucast c else m x)"
proof -
  have "fold (\<lambda>j m. m(s + of_nat j := ucast c)) ks m x =
      (if \<exists>k\<in>set ks. x = s + of_nat k then ucast c else m x)" for ks
    by (induction ks arbitrary: m) auto
  then show ?thesis
    using memset_loop_fold [of 0 n s c m] by (auto simp: memset_def region_def)
qed

section \<open>memcmp\<close>

text \<open>The first differing pair of bytes decides.\<close>

fun first_difference :: "u8 list \<Rightarrow> u8 list \<Rightarrow> int" where
  "first_difference (a # as) (b # bs) = (if a \<noteq> b then uint a - uint b else first_difference as bs)"
| "first_difference _ _ = 0"

lemma sint_byte_difference: "sint (ucast a - ucast b :: 32 word) = uint (a :: u8) - uint (b :: u8)"
proof -
  have ab: "0 \<le> uint a" "uint a < 256" "0 \<le> uint b" "uint b < 256"
    using uint_lt2p [of a] uint_lt2p [of b] by simp_all
  have small: "signed_take_bit 31 x = x" if "- 256 < x" "x < 256" for x :: int
    using that by (intro signed_take_bit_int_eq_self) simp_all
  have "sint (ucast a :: 32 word) = uint a" "sint (ucast b :: 32 word) = uint b"
    using small [of "uint a"] small [of "uint b"] ab
    by (simp_all add: sint_uint unsigned_ucast_eq take_bit_int_eq_self)
  then show ?thesis
    using small [of "uint a - uint b"] ab by (simp add: sint_word_ariths)
qed

lemma bytes_at_Cons: "k < n \<Longrightarrow>
  map (\<lambda>j. m (a + of_nat j)) [k..<n] = m (a + of_nat k) # map (\<lambda>j. m (a + of_nat j)) [Suc k..<n]"
  by (simp add: upt_conv_Cons)

lemma memcmp_loop_difference:
  "k \<le> unat n \<Longrightarrow> sint (memcmp_loop m s1 s2 n (of_nat k)) =
   first_difference (map (\<lambda>j. m (s1 + of_nat j)) [k..<unat n]) (map (\<lambda>j. m (s2 + of_nat j)) [k..<unat n])"
proof (induction "unat n - k" arbitrary: k)
  case 0
  then show ?case by (simp add: memcmp_loop.simps less_of_nat_iff)
next
  case (Suc d)
  then have k: "k < unat n" by simp
  have IH: "sint (memcmp_loop m s1 s2 n (of_nat (Suc k))) =
      first_difference (map (\<lambda>j. m (s1 + of_nat j)) [Suc k..<unat n]) (map (\<lambda>j. m (s2 + of_nat j)) [Suc k..<unat n])"
    using Suc.hyps(2) k by (intro Suc.hyps(1)) simp_all
  have "memcmp_loop m s1 s2 n (of_nat k) =
     (if m (s1 + of_nat k) \<noteq> m (s2 + of_nat k) then ucast (m (s1 + of_nat k)) - ucast (m (s2 + of_nat k))
      else memcmp_loop m s1 s2 n (of_nat (Suc k)))"
    using k by (subst memcmp_loop.simps) (simp add: less_of_nat_iff add.commute Let_def)
  then show ?case
    unfolding bytes_at_Cons [OF k] using IH by (simp add: sint_byte_difference)
qed

lemma memcmp_difference:
  "sint (memcmp m s1 s2 n) = first_difference (bytes_at m s1 (unat n)) (bytes_at m s2 (unat n))"
  using memcmp_loop_difference [of 0 n m s1 s2] by (simp add: memcmp_def bytes_at_def)

lemma first_difference_order:
  "length as = length bs \<Longrightarrow> (first_difference as bs = 0 \<longleftrightarrow> as = bs) \<and>
     (first_difference as bs < 0 \<longleftrightarrow> (as, bs) \<in> lexord {(a, b). a < b})"
  by (induction as bs rule: list_induct2) (auto simp: word_less_def word_uint_eq_iff)

text \<open>
  C29. \<^verbatim>\<open>memcmp\<close> and \<^verbatim>\<open>bcmp\<close> decide the order of memory regions: the result, read as a signed integer,
  is zero exactly for equal regions and negative exactly when the first region is smaller in the
  lexicographic order of unsigned bytes.
\<close>

theorem memcmp_orders:
  "(sint (memcmp m s1 s2 n) = 0 \<longleftrightarrow> bytes_at m s1 (unat n) = bytes_at m s2 (unat n)) \<and>
   (sint (memcmp m s1 s2 n) < 0 \<longleftrightarrow> (bytes_at m s1 (unat n), bytes_at m s2 (unat n)) \<in> lexord {(a, b). a < b}) \<and>
   bcmp m s1 s2 n = memcmp m s1 s2 n"
  using first_difference_order [of "bytes_at m s1 (unat n)" "bytes_at m s2 (unat n)"]
  by (simp add: memcmp_difference bcmp_def)

section \<open>A concrete overlapping move\<close>

theorem memmove_copies_witness:
  "bytes_at (snd (memmove 102 100 4 (\<lambda>a. ucast a))) 102 4 = [100, 101, 102, 103]"
  using memmove_copies [of 102 4 100 "\<lambda>a. ucast a"]
  by (simp add: no_wrap_def bytes_at_def upt_rec)

end
