(* ===== verification/Boot_Info.thy ===== *)
theory Boot_Info
  imports Mem_Ops
begin

text \<open>
  What the kernel reads from the memory at boot: the boot parameters of the Linux boot protocol
  (\<^verbatim>\<open>src/src/bootparams.rs\<close>) and the multiprocessor table (\<^verbatim>\<open>src/src/arch/x86_64/mptable.rs\<close>).  The
  memory is the function from addresses to bytes of \<^verbatim>\<open>Mem_Ops\<close>; a structure behind a raw pointer is
  read byte by byte, least significant byte first.  What the table search prints is left out; the
  number of processors it reports is the result.
\<close>

section \<open>Numbers in memory\<close>

definition read_u16 :: "memory \<Rightarrow> addr \<Rightarrow> u16" where
  "read_u16 m a = ucast (m a) OR push_bit 8 (ucast (m (a + 1)))"

definition read_u32 :: "memory \<Rightarrow> addr \<Rightarrow> u32" where
  "read_u32 m a = ucast (read_u16 m a) OR push_bit 16 (ucast (read_u16 m (a + 2)))"

definition read_u64 :: "memory \<Rightarrow> addr \<Rightarrow> u64" where
  "read_u64 m a = ucast (read_u32 m a) OR push_bit 32 (ucast (read_u32 m (a + 4)))"

definition le32 :: "u32 \<Rightarrow> u8 list" where
  "le32 w = le16 (ucast w) @ le16 (ucast (drop_bit 16 w))"

definition le64 :: "u64 \<Rightarrow> u8 list" where
  "le64 w = le32 (ucast w) @ le32 (ucast (drop_bit 32 w))"

section \<open>Boot parameters\<close>

record e820_entry =
  e820_addr :: u64
  e820_size :: u64
  e820_type :: u32

definition get_entry_type_str :: "e820_entry \<Rightarrow> string" where
  "get_entry_type_str e =
     (if e820_type e = 1 then ''USABLE''
      else if e820_type e = 2 then ''RESERVED''
      else if e820_type e = 3 then ''ACPI''
      else if e820_type e = 4 then ''NVS''
      else if e820_type e = 5 then ''UNUSABLE''
      else if e820_type e = 128 then ''RESERVER_KERN''
      else ''unknown'')"

definition get_boot_flag :: "memory \<Rightarrow> addr \<Rightarrow> u16" where
  "get_boot_flag m boot_params = read_u16 m (boot_params + 0x01FE)"

definition get_header :: "memory \<Rightarrow> addr \<Rightarrow> u32" where
  "get_header m boot_params = read_u32 m (boot_params + 0x0202)"

definition get_version :: "memory \<Rightarrow> addr \<Rightarrow> u16" where
  "get_version m boot_params = read_u16 m (boot_params + 0x0206)"

text \<open>The loop that looks for the end of the command line, and the string before it.\<close>

function find_nul :: "memory \<Rightarrow> addr \<Rightarrow> nat \<Rightarrow> nat \<Rightarrow> nat option" where
  "find_nul m p sz i =
     (if i < sz then if m (p + of_nat i) = 0 then Some i else find_nul m p sz (Suc i) else None)"
  by pat_completeness auto
termination by (relation "measure (\<lambda>(m, p, sz, i). sz - i)") auto

declare find_nul.simps [simp del]

definition get_cmdline :: "memory \<Rightarrow> addr \<Rightarrow> string option" where
  "get_cmdline m boot_params =
     (let cmd_line_ptr = ucast (read_u32 m (boot_params + 0x0228));
          cmd_line_size = unat (read_u32 m (boot_params + 0x0238))
      in map_option (\<lambda>i. map (\<lambda>b. char_of (unat b)) (bytes_at m cmd_line_ptr i))
           (find_nul m cmd_line_ptr cmd_line_size 0))"

definition read_e820_entry :: "memory \<Rightarrow> addr \<Rightarrow> e820_entry" where
  "read_e820_entry m a = \<lparr>e820_addr = read_u64 m a, e820_size = read_u64 m (a + 8), e820_type = read_u32 m (a + 16)\<rparr>"

definition get_e820 :: "memory \<Rightarrow> addr \<Rightarrow> e820_entry list" where
  "get_e820 m boot_params =
     (let e820_entries = unat (m (boot_params + 0x01e8)); ptr_e820_table = boot_params + 0x02d0
      in map (\<lambda>i. read_e820_entry m (ptr_e820_table + of_nat (20 * i))) [0..<e820_entries])"

section \<open>The multiprocessor table\<close>

text \<open>The packed structures of the table, as they lie in memory.\<close>

record mpf_structure =
  mpf_signature :: "u8 list"
  mpf_configuration_table :: u32
  mpf_length :: u8
  mpf_specification_revision :: u8
  mpf_checksum :: u8
  mpf_default_configuration :: u8
  mpf_features :: u32

definition read_mpf_structure :: "memory \<Rightarrow> addr \<Rightarrow> mpf_structure" where
  "read_mpf_structure m a = \<lparr>mpf_signature = bytes_at m a 4, mpf_configuration_table = read_u32 m (a + 4),
     mpf_length = m (a + 8), mpf_specification_revision = m (a + 9), mpf_checksum = m (a + 10),
     mpf_default_configuration = m (a + 11), mpf_features = read_u32 m (a + 12)\<rparr>"

record mp_table =
  mp_signature :: "u8 list"
  mp_length :: u16
  mp_specification_revision :: u8
  mp_checksum :: u8
  mp_oem_id :: "u8 list"
  mp_product_id :: "u8 list"
  mp_oem_table :: u32
  mp_oem_table_size :: u16
  mp_entry_count :: u16
  mp_lapic_address :: u32
  mp_extended_table_length :: u16
  mp_extended_table_checksum :: u8
  mp_reserved :: u8

definition read_mp_table :: "memory \<Rightarrow> addr \<Rightarrow> mp_table" where
  "read_mp_table m a = \<lparr>mp_signature = bytes_at m a 4, mp_length = read_u16 m (a + 4),
     mp_specification_revision = m (a + 6), mp_checksum = m (a + 7), mp_oem_id = bytes_at m (a + 8) 8,
     mp_product_id = bytes_at m (a + 16) 12, mp_oem_table = read_u32 m (a + 28), mp_oem_table_size = read_u16 m (a + 32),
     mp_entry_count = read_u16 m (a + 34), mp_lapic_address = read_u32 m (a + 36),
     mp_extended_table_length = read_u16 m (a + 40), mp_extended_table_checksum = m (a + 42), mp_reserved = m (a + 43)\<rparr>"

record mp_processor =
  proc_entry_type :: u8
  proc_local_apic_id :: u8
  proc_local_apic_version :: u8
  proc_flags :: u8
  proc_signature :: u32
  proc_feature_flags :: u32
  proc_reserved :: u64

definition read_mp_processor :: "memory \<Rightarrow> addr \<Rightarrow> mp_processor" where
  "read_mp_processor m a = \<lparr>proc_entry_type = m a, proc_local_apic_id = m (a + 1), proc_local_apic_version = m (a + 2),
     proc_flags = m (a + 3), proc_signature = read_u32 m (a + 4), proc_feature_flags = read_u32 m (a + 8),
     proc_reserved = read_u64 m (a + 12)\<rparr>"

lemma read_mp_fields [simp]:
  "mpf_signature (read_mpf_structure m a) = bytes_at m a 4"
  "mpf_configuration_table (read_mpf_structure m a) = read_u32 m (a + 4)"
  "mp_signature (read_mp_table m a) = bytes_at m a 4" "mp_length (read_mp_table m a) = read_u16 m (a + 4)"
  "proc_entry_type (read_mp_processor m a) = m a"
  by (simp_all add: read_mpf_structure_def read_mp_table_def read_mp_processor_def)

function find_mp_loop :: "memory \<Rightarrow> u32 \<Rightarrow> nat \<Rightarrow> nat \<Rightarrow> addr option" where
  "find_mp_loop m base_addr n i =
     (if i < n then
        let mpf_candidate = read_mpf_structure m (ucast (base_addr + of_nat i * 16)) in
        if mpf_signature mpf_candidate = [0x5f, 0x4d, 0x50, 0x5f] then
          let mp = (ucast (mpf_configuration_table mpf_candidate) :: addr) in
          if mp_signature (read_mp_table m mp) = [0x50, 0x43, 0x4d, 0x50] then Some mp
          else find_mp_loop m base_addr n (Suc i)
        else find_mp_loop m base_addr n (Suc i)
      else None)"
  by pat_completeness auto
termination by (relation "measure (\<lambda>(m, base_addr, n, i). n - i)") auto

declare find_mp_loop.simps [simp del]

definition find_mp_table :: "memory \<Rightarrow> u32 \<Rightarrow> nat \<Rightarrow> addr option" where
  "find_mp_table m base_addr len = find_mp_loop m base_addr (len div 16) 0"

text \<open>The loop over the entries of the table: the signed length that is left, the address, the processors.\<close>

function count_cpus :: "memory \<Rightarrow> int \<Rightarrow> addr \<Rightarrow> u32 \<Rightarrow> u32" where
  "count_cpus m entries_length base_addr num_of_cpus =
     (if 0 < entries_length then
        if proc_entry_type (read_mp_processor m base_addr) = 0 then count_cpus m (entries_length - 20) (base_addr + 20) (num_of_cpus + 1)
        else count_cpus m (entries_length - 8) (base_addr + 8) num_of_cpus
      else num_of_cpus)"
  by pat_completeness auto
termination by (relation "measure (\<lambda>(m, l, a, n). nat l)") auto

declare count_cpus.simps [simp del]

definition get_mp_table :: "memory \<Rightarrow> u32" where
  "get_mp_table m =
     (let mptable_opt = (case find_mp_table m (639 * 0x400) 0x400 of
            Some t \<Rightarrow> Some t
          | None \<Rightarrow> find_mp_table m 0 0x400)
      in case mptable_opt of
           Some mptable \<Rightarrow> count_cpus m (uint (mp_length (read_mp_table m mptable) - 44)) (mptable + 44) 0
         | None \<Rightarrow> 0)"

section \<open>Reading back what was stored\<close>

text \<open>The bytes \<open>bs\<close> are stored at the address \<open>a\<close>.\<close>

definition stored :: "memory \<Rightarrow> addr \<Rightarrow> u8 list \<Rightarrow> bool" where
  "stored m a bs \<longleftrightarrow> bytes_at m a (length bs) = bs"

lemma bytes_at_append: "bytes_at m a (i + j) = bytes_at m a i @ bytes_at m (a + of_nat i) j"
  by (rule nth_equalityI) (auto simp: bytes_at_def nth_append add.assoc simp flip: of_nat_add)

lemma stored_append: "stored m a (xs @ ys) \<longleftrightarrow> stored m a xs \<and> stored m (a + of_nat (length xs)) ys"
  by (simp add: stored_def bytes_at_append)

lemma stored_Cons: "stored m a (x # xs) \<longleftrightarrow> m a = x \<and> stored m (a + 1) xs"
  using stored_append [of m a "[x]" xs] by (simp add: stored_def bytes_at_def)

lemma stored_Nil [simp]: "stored m a []"
  by (simp add: stored_def bytes_at_def)

lemma stored_4: "stored m a [w, x, y, z] \<longleftrightarrow> bytes_at m a 4 = [w, x, y, z]"
  by (simp add: stored_def numeral_eq_Suc)

lemma read_u16_stored: "stored m a (le16 w) \<Longrightarrow> read_u16 m a = w"
  by (simp add: le16_def stored_Cons read_u16_def) (rule bit_word_eqI, auto simp: bit_simps)

lemma read_u32_stored: "stored m a (le32 w) \<Longrightarrow> read_u32 m a = w"
proof -
  assume "stored m a (le32 w)"
  then have "read_u16 m a = ucast w" "read_u16 m (a + 2) = ucast (drop_bit 16 w)"
    by (simp_all add: le32_def stored_append read_u16_stored)
  then show ?thesis by (simp only: read_u32_def) (rule bit_word_eqI, auto simp: bit_simps)
qed

lemma length_le32 [simp]: "length (le32 w) = 4"
  by (simp add: le32_def)

lemma length_le64 [simp]: "length (le64 w) = 8"
  by (simp add: le64_def)

lemma read_u64_stored: "stored m a (le64 w) \<Longrightarrow> read_u64 m a = w"
proof -
  assume "stored m a (le64 w)"
  then have "read_u32 m a = ucast w" "read_u32 m (a + 4) = ucast (drop_bit 32 w)"
    by (simp_all add: le64_def stored_append read_u32_stored)
  then show ?thesis by (simp only: read_u64_def) (rule bit_word_eqI, auto simp: bit_simps)
qed

section \<open>The boot parameters are decoded\<close>

definition e820_bytes :: "e820_entry \<Rightarrow> u8 list" where
  "e820_bytes e = le64 (e820_addr e) @ le64 (e820_size e) @ le32 (e820_type e)"

lemma length_e820_bytes [simp]: "length (e820_bytes e) = 20"
  by (simp add: e820_bytes_def)

lemma read_e820_stored: "stored m a (e820_bytes e) \<Longrightarrow> read_e820_entry m a = e"
  by (simp add: e820_bytes_def stored_append read_e820_entry_def read_u64_stored read_u32_stored add.commute)

lemma e820_table_stored:
  "stored m a (concat (map e820_bytes es)) \<Longrightarrow>
   map (\<lambda>i. read_e820_entry m (a + of_nat (20 * i))) [0..<length es] = es"
proof (induction es arbitrary: a)
  case Nil
  then show ?case by simp
next
  case (Cons e es)
  have "map (\<lambda>i. read_e820_entry m (a + 20 + of_nat (20 * i))) [0..<length es] = es"
    using Cons by (simp add: stored_append)
  moreover have "[0..<length (e # es)] = 0 # map Suc [0..<length es]"
    by (simp add: upt_conv_Cons map_Suc_upt del: upt_Suc)
  ultimately show ?case
    using Cons.prems by (simp add: stored_append read_e820_stored add.assoc comp_def)
qed

lemma find_nul_first:
  "i \<le> k \<Longrightarrow> k < sz \<Longrightarrow> m (p + of_nat k) = 0 \<Longrightarrow> \<forall>j. i \<le> j \<and> j < k \<longrightarrow> m (p + of_nat j) \<noteq> 0 \<Longrightarrow>
   find_nul m p sz i = Some k"
proof (induction "k - i" arbitrary: i)
  case 0
  then show ?case by (simp add: find_nul.simps)
next
  case (Suc d)
  then have "i < k" by simp
  moreover have "find_nul m p sz (Suc i) = Some k" using Suc by (intro Suc.hyps(1)) auto
  ultimately show ?case using Suc.prems by (subst find_nul.simps) auto
qed

lemma find_nul_None: "\<forall>j. i \<le> j \<and> j < sz \<longrightarrow> m (p + of_nat j) \<noteq> 0 \<Longrightarrow> find_nul m p sz i = None"
proof (induction m p sz i rule: find_nul.induct)
  case (1 m p sz i)
  then show ?case by (subst find_nul.simps) auto
qed

definition char_byte :: "char \<Rightarrow> u8" where
  "char_byte c = of_nat (of_char c)"

lemma char_byte_inverse [simp]: "char_of (unat (char_byte c)) = c"
  by (simp add: char_byte_def unat_of_nat_small nat_of_char_less_256)

lemma get_cmdline_stored:
  assumes "stored m (bp + 0x228) (le32 p)" "stored m (bp + 0x238) (le32 sz)"
    and "stored m (ucast p) (map char_byte cmd @ [0])" "\<forall>c\<in>set cmd. char_byte c \<noteq> 0" "length cmd < unat sz"
  shows "get_cmdline m bp = Some cmd"
proof -
  have bytes: "bytes_at m (ucast p) (length cmd) = map char_byte cmd" "m (ucast p + of_nat (length cmd)) = 0"
    using assms(3) by (simp_all add: stored_append stored_Cons) (simp add: stored_def)
  have "m (ucast p + of_nat j) \<noteq> 0" if "j < length cmd" for j
    using assms(4) that nth_bytes_at [of j "length cmd" m "ucast p"] bytes(1) by (metis nth_map nth_mem)
  then have "find_nul m (ucast p) (unat sz) 0 = Some (length cmd)"
    using assms(5) bytes(2) by (intro find_nul_first) auto
  then show ?thesis using assms(1,2) bytes(1) by (simp add: get_cmdline_def read_u32_stored comp_def)
qed

text \<open>
  C38. The boot parameters are decoded: from a memory in which a boot loader has stored a table of up to 255
  memory ranges and a command line of characters other than NUL that ends with a NUL within the announced
  size, the kernel reads exactly these ranges and this command line.
\<close>

theorem boot_params_decode:
  assumes "m (bp + 0x1e8) = of_nat (length es)" "length es < 256"
    and "stored m (bp + 0x2d0) (concat (map e820_bytes es))"
    and "stored m (bp + 0x228) (le32 p)" "stored m (bp + 0x238) (le32 sz)"
    and "stored m (ucast p) (map char_byte cmd @ [0])" "\<forall>c\<in>set cmd. char_byte c \<noteq> 0" "length cmd < unat sz"
  shows "get_e820 m bp = es \<and> get_cmdline m bp = Some cmd"
proof -
  have "get_e820 m bp = es"
    using assms(1-3) e820_table_stored by (simp add: get_e820_def unat_of_nat_small)
  then show ?thesis using get_cmdline_stored [OF assms(4-8)] by simp
qed

text \<open>A memory for the witnesses: lists of bytes at addresses, zero elsewhere.\<close>

fun memory_of :: "(addr \<times> u8 list) list \<Rightarrow> memory" where
  "memory_of [] x = 0"
| "memory_of ((a, bs) # rest) x =
     (if a \<le> x \<and> unat (x - a) < length bs then bs ! unat (x - a) else memory_of rest x)"

theorem boot_params_decode_witness:
  "get_cmdline (memory_of [(0x101e8, [1]), (0x102d0, e820_bytes \<lparr>e820_addr = 0x100000, e820_size = 0x3ff00000, e820_type = 1\<rparr>),
     (0x10228, le32 0x20000), (0x10238, le32 4), (0x20000, map char_byte ''x=1'' @ [0])]) 0x10000 = Some ''x=1''"
proof -
  define m where "m = memory_of [(0x101e8, [1]), (0x102d0, e820_bytes \<lparr>e820_addr = 0x100000, e820_size = 0x3ff00000, e820_type = 1\<rparr>),
     (0x10228, le32 0x20000), (0x10238, le32 4), (0x20000, map char_byte ''x=1'' @ [0])]"
  have "m (0x10000 + 0x1e8) = of_nat (length [\<lparr>e820_addr = 0x100000, e820_size = 0x3ff00000, e820_type = 1\<rparr>])"
    by (simp add: m_def)
  moreover have "stored m (0x10000 + 0x2d0) (concat (map e820_bytes [\<lparr>e820_addr = 0x100000, e820_size = 0x3ff00000, e820_type = 1\<rparr>]))"
    by (simp add: m_def stored_Cons e820_bytes_def le64_def le32_def le16_def)
  moreover have "stored m (0x10000 + 0x228) (le32 0x20000)" "stored m (0x10000 + 0x238) (le32 4)"
    by (simp_all add: m_def stored_Cons e820_bytes_def le64_def le32_def le16_def)
  moreover have "stored m (ucast (0x20000 :: u32)) (map char_byte ''x=1'' @ [0])"
    by (simp add: m_def stored_Cons e820_bytes_def le64_def le32_def le16_def char_byte_def)
  ultimately show ?thesis
    unfolding m_def [symmetric]
    using boot_params_decode [of m "0x10000" "[\<lparr>e820_addr = 0x100000, e820_size = 0x3ff00000, e820_type = 1\<rparr>]" "0x20000" 4 "''x=1''"]
    by (simp add: char_byte_def)
qed

section \<open>The processors are counted\<close>

text \<open>The entries of the table: processors take 20 bytes, everything else takes 8.\<close>

datatype mp_entry = Mp_Processor "u8 list" | Mp_Other u8 "u8 list"

fun mp_bytes :: "mp_entry \<Rightarrow> u8 list" where
  "mp_bytes (Mp_Processor bs) = 0 # bs"
| "mp_bytes (Mp_Other ty bs) = ty # bs"

fun mp_valid :: "mp_entry \<Rightarrow> bool" where
  "mp_valid (Mp_Processor bs) \<longleftrightarrow> length bs = 19"
| "mp_valid (Mp_Other ty bs) \<longleftrightarrow> ty \<noteq> 0 \<and> length bs = 7"

fun is_processor :: "mp_entry \<Rightarrow> bool" where
  "is_processor (Mp_Processor bs) \<longleftrightarrow> True"
| "is_processor (Mp_Other ty bs) \<longleftrightarrow> False"

lemma count_cpus_stored:
  "stored m a (concat (map mp_bytes es)) \<Longrightarrow> \<forall>e\<in>set es. mp_valid e \<Longrightarrow>
   count_cpus m (int (length (concat (map mp_bytes es)))) a n = n + of_nat (length (filter is_processor es))"
proof (induction es arbitrary: a n)
  case Nil
  then show ?case by (simp add: count_cpus.simps)
next
  case (Cons e es)
  show ?case
  proof (cases e)
    case (Mp_Processor bs)
    then have "m a = 0" "length bs = 19" "stored m (a + 20) (concat (map mp_bytes es))"
      using Cons.prems by (simp_all add: stored_Cons stored_append add.commute)
    then show ?thesis
      using Mp_Processor Cons.IH [of "a + 20" "n + 1"] Cons.prems(2)
      by (subst count_cpus.simps) (simp add: add.commute)
  next
    case (Mp_Other ty bs)
    then have "m a \<noteq> 0" "length bs = 7" "stored m (a + 8) (concat (map mp_bytes es))"
      using Cons.prems by (simp_all add: stored_Cons stored_append add.commute)
    then show ?thesis
      using Mp_Other Cons.IH [of "a + 8" n] Cons.prems(2)
      by (subst count_cpus.simps) (simp add: add.commute)
  qed
qed

lemma find_mp_loop_first:
  assumes "i \<le> k" "k < n" "\<And>j. i \<le> j \<Longrightarrow> j < k \<Longrightarrow> bytes_at m (ucast (base + of_nat j * 16)) 4 \<noteq> [0x5f, 0x4d, 0x50, 0x5f]"
    and "bytes_at m (ucast (base + of_nat k * 16)) 4 = [0x5f, 0x4d, 0x50, 0x5f]"
    and "bytes_at m (ucast (read_u32 m (ucast (base + of_nat k * 16) + 4))) 4 = [0x50, 0x43, 0x4d, 0x50]"
  shows "find_mp_loop m base n i = Some (ucast (read_u32 m (ucast (base + of_nat k * 16) + 4)))"
  using assms
proof (induction "k - i" arbitrary: i)
  case 0
  then show ?case by (simp add: find_mp_loop.simps Let_def)
next
  case (Suc d)
  then have "find_mp_loop m base n (Suc i) = Some (ucast (read_u32 m (ucast (base + of_nat k * 16) + 4)))"
    by (intro Suc.hyps(1)) auto
  then show ?case using Suc.hyps(2) Suc.prems by (subst find_mp_loop.simps) (simp add: Let_def)
qed

text \<open>
  The processors of a multiprocessor table are counted: when the first floating pointer in the last
  kilobyte of the base memory points to a table with the signature and the length of its entries, the
  kernel reports the number of its processor entries, whatever other entries lie between them.
\<close>

theorem mp_table_counts:
  assumes "k < 64" "\<forall>j<k. \<not> stored m (ucast (0x9fc00 + of_nat j * 16 :: u32)) [0x5f, 0x4d, 0x50, 0x5f]"
    and "stored m (ucast (0x9fc00 + of_nat k * 16 :: u32)) ([0x5f, 0x4d, 0x50, 0x5f] @ le32 t)"
    and "stored m (ucast t) ([0x50, 0x43, 0x4d, 0x50] @ le16 (44 + of_nat (length (concat (map mp_bytes es)))))"
    and "stored m (ucast t + 44) (concat (map mp_bytes es))"
    and "\<forall>e\<in>set es. mp_valid e" "44 + length (concat (map mp_bytes es)) < 65536"
  shows "get_mp_table m = of_nat (length (filter is_processor es))"
proof -
  let ?len = "length (concat (map mp_bytes es))"
  have sig: "bytes_at m (ucast (0x9fc00 + of_nat k * 16 :: u32)) 4 = [0x5f, 0x4d, 0x50, 0x5f]"
    "read_u32 m (ucast (0x9fc00 + of_nat k * 16 :: u32) + 4) = t"
    using assms(3) read_u32_stored [of m "ucast (0x9fc00 + of_nat k * 16 :: u32) + 4" t]
    unfolding stored_append stored_4 by simp_all
  have tab: "bytes_at m (ucast t) 4 = [0x50, 0x43, 0x4d, 0x50]" "read_u16 m (ucast t + 4) = 44 + of_nat ?len"
    using assms(4) read_u16_stored [of m "ucast t + 4" "44 + of_nat ?len"]
    unfolding stored_append stored_4 by simp_all
  have "bytes_at m (ucast (0x9fc00 + of_nat j * 16 :: u32)) 4 \<noteq> [0x5f, 0x4d, 0x50, 0x5f]" if "j < k" for j
    using assms(2) that by (simp add: stored_4)
  then have "find_mp_table m (639 * 0x400) 0x400 = Some (ucast t)"
    using find_mp_loop_first [of 0 k 64 m "0x9fc00"] assms(1) sig tab by (simp add: find_mp_table_def)
  moreover have "uint (read_u16 m (ucast t + 4) - 44) = int ?len"
  proof -
    have "read_u16 m (ucast t + 4) - 44 = of_nat ?len" unfolding tab(2) by simp
    moreover have "unat (of_nat ?len :: u16) = ?len" using assms(7) by (intro unat_of_nat_small) simp
    ultimately show ?thesis by (simp only: uint_nat)
  qed
  ultimately show ?thesis
    using count_cpus_stored [OF assms(5,6), of 0] by (simp add: get_mp_table_def)
qed

lemma memory_of_stored: "no_wrap a (length bs) \<Longrightarrow> stored (memory_of ((a, bs) # rest)) a bs"
proof -
  assume w: "no_wrap a (length bs)"
  have "memory_of ((a, bs) # rest) (a + of_nat k) = bs ! k" if k: "k < length bs" for k
  proof -
    have u: "unat (a + of_nat k) = unat a + k" using unat_offset [OF w k] .
    moreover have "unat (of_nat k :: addr) = k" using k w by (intro unat_of_nat_small) (simp add: no_wrap_def)
    ultimately show ?thesis using k by (simp add: word_le_nat_alt)
  qed
  then show ?thesis unfolding stored_def by (intro nth_equalityI) simp_all
qed

theorem mp_table_counts_witness:
  "get_mp_table (memory_of [(0x802c, concat (map mp_bytes [Mp_Processor (replicate 19 1), Mp_Other 1 (replicate 7 2)])),
     (0x9fc10, [0x5f, 0x4d, 0x50, 0x5f] @ le32 0x8000), (0x8000, [0x50, 0x43, 0x4d, 0x50] @ le16 72)]) = 1"
proof -
  define es where "es = [Mp_Processor (replicate 19 1), Mp_Other 1 (replicate 7 2)]"
  define m where "m = memory_of [(0x802c, concat (map mp_bytes es)),
     (0x9fc10, [0x5f, 0x4d, 0x50, 0x5f] @ le32 0x8000), (0x8000, [0x50, 0x43, 0x4d, 0x50] @ le16 72)]"
  have len: "length (concat (map mp_bytes es)) = 28" by (simp add: es_def)
  have "\<forall>j<1. \<not> stored m (ucast (0x9fc00 + of_nat j * 16 :: u32)) [0x5f, 0x4d, 0x50, 0x5f]"
    by (simp add: m_def stored_Cons len del: length_concat)
  moreover have "stored m (ucast (0x9fc00 + of_nat 1 * 16 :: u32)) ([0x5f, 0x4d, 0x50, 0x5f] @ le32 0x8000)"
    by (simp add: m_def stored_Cons le32_def le16_def len del: length_concat)
  moreover have "stored m (ucast (0x8000 :: u32)) ([0x50, 0x43, 0x4d, 0x50] @ le16 (44 + of_nat (length (concat (map mp_bytes es)))))"
    unfolding len by (simp add: m_def stored_Cons le32_def le16_def len del: length_concat)
  moreover have "stored m (ucast (0x8000 :: u32) + 44) (concat (map mp_bytes es))"
    using memory_of_stored [of "0x802c" "concat (map mp_bytes es)"] by (simp add: m_def no_wrap_def len del: length_concat)
  moreover have "\<forall>e\<in>set es. mp_valid e" by (simp add: es_def)
  ultimately have "get_mp_table m = of_nat (length (filter is_processor es))"
    using mp_table_counts [of 1 m "0x8000" es] len by simp
  then show ?thesis by (simp add: m_def es_def)
qed

end
