(* ===== verification/Kernel_Init.thy ===== *)
theory Kernel_Init
  imports Interrupts Boot_Info
begin

text \<open>
  The start of the kernel, \<^verbatim>\<open>start_rust\<close> of \<^verbatim>\<open>src/src/lib.rs\<close>: the checks of the boot parameters, the
  console, the clock, the interrupt hardware, the two network interfaces with their addresses, the
  processing nodes and the first tasks, and the endless loop, whose body is \<^verbatim>\<open>main_iteration\<close>.
  What is only printed (the memory map, the processors, the summary) is left out; the readings that
  are printed are made, since they may not return.
\<close>

section \<open>The addresses of an interface\<close>

text \<open>Inside the closure \<^verbatim>\<open>setup_virtio_net\<close>: the link-local address and the two multicast groups.\<close>

definition lla_eui64 :: "u8 list \<Rightarrow> ipv6_address" where
  "lla_eui64 a = ipv6_from_array
     [0xfe, 0x80, 0x00, 0x00, 0x00, 0x00, 0x00, 0x00, a ! 0, a ! 1, a ! 2, 0xff, 0xfe, a ! 3, a ! 4, a ! 5]"

definition snmcast :: "u8 list \<Rightarrow> ipv6_address" where
  "snmcast a = ipv6_from_array
     [0xff, 0x02, 0x00, 0x00, 0x00, 0x00, 0x00, 0x00, 0x00, 0x00, 0x00, 0x01, 0xff, a ! 3, a ! 4, a ! 5]"

definition snmcast_macaddr :: "u8 list \<Rightarrow> mac_address" where
  "snmcast_macaddr a = mac_new [0x33, 0x33, 0xff, a ! 3, a ! 4, a ! 5]"

definition allnodemcast :: ipv6_address where
  "allnodemcast = ipv6_from_array
     [0xff, 0x02, 0x00, 0x00, 0x00, 0x00, 0x00, 0x00, 0x00, 0x00, 0x00, 0x00, 0x00, 0x00, 0x00, 0x01]"

definition allnodemcast_macaddr :: mac_address where
  "allnodemcast_macaddr = mac_new [0x33, 0x33, 0x00, 0x00, 0x00, 0x01]"

definition register_addresses ::
  "netif_ref \<Rightarrow> mac_address \<Rightarrow> ipv4_address \<Rightarrow> u32 \<Rightarrow> fib_tables \<Rightarrow> fib_tables res"
where
  "register_addresses nif macaddr ipv4addr prefix t =
     (let t = register_macaddress macaddr nif True None t;
          t = register_ipv4_adjacent ipv4addr macaddr nif True None t in
      rbind (register_ipv4_fib ipv4addr 0xffffffff macaddr ipv4addr nif Local t) (\<lambda>t.
      rbind (register_ipv4_fib (ipv4_masked ipv4addr 24) (rust_shl 0xffffffff (unat (32 - prefix)))
               macaddr ipv4addr nif Adjacent t) (\<lambda>t.
      let macaddr_array = mac_array macaddr;
          lla = lla_eui64 macaddr_array;
          t = register_ipv6_adjacent lla macaddr nif True None t in
      rbind (register_ipv6_fib lla 128 macaddr lla nif Local t) (\<lambda>t.
      let snm = snmcast macaddr_array;
          snm_mac = snmcast_macaddr macaddr_array;
          t = register_macaddress snm_mac nif True None t;
          t = register_ipv6_adjacent snm snm_mac nif True None t in
      rbind (register_ipv6_fib snm 128 snm_mac snm nif Local t) (\<lambda>t.
      let t = register_macaddress allnodemcast_macaddr nif True None t;
          t = register_ipv6_adjacent allnodemcast allnodemcast_macaddr nif True None t in
        register_ipv6_fib allnodemcast 128 allnodemcast_macaddr allnodemcast nif Local t)))))"

section \<open>Bringing up the kernel\<close>

text \<open>
  What the machine gives the kernel at boot, beside the environment of the handlers: the memory, the
  time stamps from which MAC addresses may be made, the addresses of statics and stubs,
  and the empty queue of the queue package.
\<close>

record 'q boot_source =
  bs_memory :: memory
  bs_tsc :: "nat \<Rightarrow> u64"
  bs_stubs :: u64
  bs_idt :: u64
  bs_pv_eoi :: u64
  bs_wall_clock :: u64
  bs_clock_info :: u64
  bs_queue :: 'q

definition setup_virtio_net ::
  "'q environment \<Rightarrow> (nat \<Rightarrow> u64) \<Rightarrow> string \<Rightarrow> nat \<Rightarrow> ipv4_address \<Rightarrow> u32 \<Rightarrow> 'q kernel \<Rightarrow> 'q kernel res"
where
  "setup_virtio_net E tsc cmd index ipv4addr prefix k =
     (case mmio_new (en_devices E index) cmd index of
        Inl msg \<Rightarrow> Inl Explicit_panic
      | Inr virtio_mmio \<Rightarrow>
          rbind (vnet_new (en_heap E) (en_devices E index) (tsc index) index virtio_mmio (ns_allocs (k_net k))) (\<lambda>(r, n).
          let k = k\<lparr>k_net := (k_net k)\<lparr>ns_allocs := n\<rparr>\<rparr> in
          case r of
            Some inst \<Rightarrow>
              let nif = length (ns_ifaces (k_net k)) in
              rbind (set_handler (Virtio_Net nif (vnet_get_irq inst)) k) (\<lambda>k.
              rbind (register_addresses nif (vn_macaddr inst) ipv4addr prefix (ns_tables (k_net k))) (\<lambda>t.
                Inr (k\<lparr>k_net := (k_net k)\<lparr>ns_ifaces := ns_ifaces (k_net k) @ [inst], ns_tables := t\<rparr>\<rparr>)))
          | None \<Rightarrow> Inr k))"

definition register_nodes :: "net_state \<Rightarrow> net_state" where
  "register_nodes s = s\<lparr>ns_nodes :=
     [''ethernet-in'', ''arp-in'', ''ipv4-in'', ''icmpv4-in-local'', ''ipv6-in'', ''icmpv6-in-local''] @ ns_nodes s\<rparr>"

definition start_kvmclock :: "hardware \<Rightarrow> u64 \<Rightarrow> u64 \<Rightarrow> io_log \<Rightarrow> io_log" where
  "start_kvmclock H wallclock clockinfo l =
     (let (features, l) = get_kvm_features H l in
      case init_kvmclock features wallclock clockinfo of
        Some regs \<Rightarrow> fold (\<lambda>(reg, val). wrmsr reg val) regs l
      | None \<Rightarrow> l)"

text \<open>The state of the statics once the interrupt hardware was set up and the clock was read up to \<open>p\<close>.\<close>

definition kernel_new :: "'q \<Rightarrow> machine \<Rightarrow> clock_pos \<Rightarrow> 'q kernel" where
  "kernel_new empty_queue m p = \<lparr>k_machine = m, k_handlers = irq_handlers_new,
     k_net = \<lparr>ns_tables = empty_tables, ns_ifaces = [], ns_nodes = [], ns_allocs = 0\<rparr>,
     k_async = (executor_new empty_queue empty_queue)\<lparr>as_clock := p\<rparr>\<rparr>"

text \<open>From \<^verbatim>\<open>set timer interrupt\<close> to the loop.\<close>

definition start_devices :: "'q environment \<Rightarrow> (nat \<Rightarrow> u64) \<Rightarrow> string \<Rightarrow> 'q kernel \<Rightarrow> 'q kernel res" where
  "start_devices E tsc cmd k =
     rbind (set_handler Timer k) (\<lambda>k.
     rbind (setup_virtio_net E tsc cmd 0 (ipv4_from_array [192, 168, 0, 10]) 24 k) (\<lambda>k.
     rbind (setup_virtio_net E tsc cmd 1 (ipv4_from_array [192, 168, 10, 10]) 24 k) (\<lambda>k.
     let k = k\<lparr>k_net := register_nodes (k_net k)\<rparr> in
     rbind (spawn_test_tasks (en_queue E) (k_async k)) (\<lambda>a.
       Inr (k\<lparr>k_async := a\<rparr>)))))"

definition start_rust :: "'q environment \<Rightarrow> 'q boot_source \<Rightarrow> addr \<Rightarrow> 'q kernel res option" where
  "start_rust E B boot_params =
     (let m = bs_memory B in
      if get_boot_flag m boot_params \<noteq> 0xaa55 then Some (Inl Assert_failed)
      else if get_header m boot_params \<noteq> 0x53726448 then Some (Inl Assert_failed)
      else case get_cmdline m boot_params of
        None \<Rightarrow> Some (Inl Explicit_panic)
      | Some cmd \<Rightarrow>
          let (console, l) = console_init (mc_io machine_new);
              l = start_kvmclock (en_hardware E) (bs_wall_clock B) (bs_clock_info B) l in
          Option.bind (get_calendar (en_clock E) \<lparr>pos_tsc = 0, pos_info = 0, pos_wall = 0\<rparr>) (\<lambda>(calendar, p).
          case calendar of
            Inl e \<Rightarrow> Some (Inl e)
          | Inr _ \<Rightarrow>
              map_option (\<lambda>r. rbind r (\<lambda>(m, p). start_devices E (bs_tsc B) cmd (kernel_new (bs_queue B) m p)))
                (apic_init (en_hardware E) (en_clock E) (bs_stubs B) (bs_idt B) (bs_pv_eoi B) (machine_new\<lparr>mc_io := l\<rparr>, p))))"

section \<open>The main loop\<close>

text \<open>
  The body of the endless loop: with interrupts disabled the executor runs the tasks that are ready, then
  interrupts are enabled and the processor waits for the next one.
\<close>

definition main_iteration :: "'q queue_ops \<Rightarrow> clock_source \<Rightarrow> 'q kernel \<Rightarrow> 'q kernel res option" where
  "main_iteration Q C k =
     (let k = k\<lparr>k_machine := on_io disable_interrupt (k_machine k)\<rparr> in
      map_option (\<lambda>r. rbind r (\<lambda>a.
          let k = k\<lparr>k_async := a\<rparr>;
              k = k\<lparr>k_machine := on_io enable_interrupt (k_machine k)\<rparr>
          in Inr (k\<lparr>k_machine := on_io hlt (k_machine k)\<rparr>)))
        (run_tasks Q C (k_async k)))"

end
