(* ===== verification/Virtio_Init.thy ===== *)
theory Virtio_Init
  imports Virtio_Net
begin

text \<open>
  The initialisation of the network driver against a device as the virtio specification describes it
  (\<^verbatim>\<open>Virtio_Device\<close>): which registers are written in which order and with which values, what the device and
  the driver agree on, and that the driver comes up.
\<close>

section \<open>The steps of the initialisation\<close>

text \<open>The writes that hand a queue over to the device.\<close>

definition queue_writes :: "u32 \<Rightarrow> virtqueue \<Rightarrow> (u64 \<times> u32) list" where
  "queue_writes idx q =
     [(0x030, idx), (0x038, ucast (vq_size q)),
      (0x080, ucast (vq_get_descriptor_addr q AND 0xffffffff)), (0x084, ucast (drop_bit 32 (vq_get_descriptor_addr q))),
      (0x090, ucast (vq_get_avail_addr q AND 0xffffffff)), (0x094, ucast (drop_bit 32 (vq_get_avail_addr q))),
      (0x0a0, ucast (vq_get_used_addr q AND 0xffffffff)), (0x0a4, ucast (drop_bit 32 (vq_get_used_addr q))),
      (0x044, 1)]"

text \<open>
  The whole initialisation for the features \<open>F\<close>: reset, acknowledge, driver; the device's features words 1 and 0
  selected for reading; the driver's words 1 and 0 selected and written; features confirmed; the
  three queues; the receive queue notified; driver ready.
\<close>

definition init_sequence :: "u64 \<Rightarrow> virtqueue \<Rightarrow> virtqueue \<Rightarrow> virtqueue \<Rightarrow> (u64 \<times> u32) list" where
  "init_sequence F rxq txq cxq =
     [(0x070, 0), (0x070, 0x01), (0x070, 0x03), (0x014, 1), (0x014, 0),
      (0x024, 1), (0x020, ucast (drop_bit 32 F)), (0x024, 0), (0x020, ucast (F AND 0xffffffff)), (0x070, 0x0b)] @
     queue_writes 0 rxq @ queue_writes 1 txq @ queue_writes 2 cxq @ [(0x050, 0), (0x070, 0x0f)]"

lemma u8_of_u32 [simp]: "ucast (ucast (x :: u8) :: u32) = x"
  by (rule bit_word_eqI) (simp add: bit_simps)

lemma status_steps:
  "mmio_writes (mmio_set_status st m) = mmio_writes m @ [(0x070, ucast st)]"
  "device_of feats (mmio_set_status st m) = vdev_write feats 0x070 (ucast st) (device_of feats m)"
  "mm_addr (mmio_set_status st m) = mm_addr m" "mm_addr (vnet_add_status D bits m) = mm_addr m"
  "virtio_registers D (mm_addr m) feats \<Longrightarrow>
    mmio_writes (vnet_add_status D bits m) = mmio_writes m @ [(0x070, ucast (vd_status (device_of feats m) OR bits))]"
  "virtio_registers D (mm_addr m) feats \<Longrightarrow>
    device_of feats (vnet_add_status D bits m) = vdev_write feats 0x070 (ucast (vd_status (device_of feats m) OR bits)) (device_of feats m)"
  by (simp_all add: mmio_set_status_def vnet_add_status_def mmio_get_status_def mmio_read_split Let_def device_answers)

lemma features_steps:
  "mmio_writes (mmio_set_enabled_features F m) =
     mmio_writes m @ [(0x024, 1), (0x020, ucast (drop_bit 32 F)), (0x024, 0), (0x020, ucast (F AND 0xffffffff))]"
  "device_of feats (mmio_set_enabled_features F m) = (device_of feats m)\<lparr>vd_driver_sel := 0, vd_driver_features := F\<rparr>"
  "mm_addr (mmio_set_enabled_features F m) = mm_addr m"
  using feature_words_written [of F "vd_driver_features (device_of feats m)"]
  by (simp_all add: mmio_set_enabled_features_def Let_def vdev_write_def)

lemma read_mac_steps:
  "mmio_writes (snd (vnet_read_mac D m)) = mmio_writes m" "device_of feats (snd (vnet_read_mac D m)) = device_of feats m"
  "mm_addr (snd (vnet_read_mac D m)) = mm_addr m"
  by (simp_all add: vnet_read_mac_def mmio_read_config_def mmio_read_split Let_def)

lemma kick_steps:
  "mmio_writes (mmio_kick_queue i m) = mmio_writes m @ [(0x050, i)]" "device_of feats (mmio_kick_queue i m) = device_of feats m"
  "mm_addr (mmio_kick_queue i m) = mm_addr m"
  by (simp_all add: mmio_kick_queue_def vdev_write_def)

lemma setup_queue_steps:
  assumes "vnet_setup_queue heap D idx intr m n = Inr (q, m', n')"
  shows "mmio_writes m' = mmio_writes m @ queue_writes idx q" "mm_addr m' = mm_addr m"
    "device_of feats m' = (device_of feats m)\<lparr>vd_queue_sel := idx, vd_queue_ready := (vd_queue_ready (device_of feats m))(idx := 1)\<rparr>"
  using assms
  by (auto simp: vnet_setup_queue_def mmio_select_queue_def mmio_get_queue_size_def mmio_activate_queue_def
      mmio_setup_queue_def mmio_read_split Let_def rbind_eq_Inr queue_writes_def vdev_write_def split: if_splits prod.splits)

text \<open>Filling the receive queue moves it neither to another place nor to another size.\<close>

lemma vq_push_place:
  assumes "vq_push b g q = Inr q'"
  shows "queue_writes idx q' = queue_writes idx q"
proof -
  have "vq_size q' = vq_size q" "vq_base_addr q' = vq_base_addr q" using assms by (auto simp: vq_push_def Let_def rbind_eq_Inr)
  then show ?thesis by (simp add: queue_writes_def vq_get_descriptor_addr_def vq_get_avail_addr_def vq_get_used_addr_def)
qed

lemma rx_fill_place: "rx_fill heap sz k q n = Inr (q', n') \<Longrightarrow> queue_writes idx q' = queue_writes idx q"
proof (induction k arbitrary: q n)
  case (Suc k)
  obtain x where x: "buffer_new heap sz 4096 n = Inr x" using Suc.prems by (auto simp: rbind_eq_Inr)
  show ?case
  proof (cases x)
    case (Inl e)
    then show ?thesis using Suc.IH Suc.prems x by simp
  next
    case (Inr bn)
    then obtain q1 where "vq_push (fst bn) False q = Inr q1" "rx_fill heap sz k q1 (snd bn) = Inr (q', n')"
      using Suc.prems x by (auto simp: rbind_eq_Inr split: prod.splits)
    then show ?thesis using Suc.IH vq_push_place by metis
  qed
qed simp

section \<open>Until the features are agreed on\<close>

text \<open>The record of the device after the part of \<^verbatim>\<open>VirtioNet::new\<close> that ends with \<^verbatim>\<open>FEATURES_OK\<close>.\<close>

definition vnet_negotiated :: "mmio_device \<Rightarrow> u64 \<Rightarrow> virtio_mmio \<Rightarrow> virtio_mmio" where
  "vnet_negotiated D F dev =
     (let dev = vnet_add_status D 0x02 (vnet_add_status D 0x01 (mmio_set_status 0 (mmio_touch 0x008 dev)));
          dev = mmio_touch 0x010 (mmio_write 0x014 0 (mmio_touch 0x010 (mmio_write 0x014 1 dev)));
          dev = mmio_set_event_idx_cap (F AND 0x20000000 \<noteq> 0) (mmio_set_indirect_buf_cap (F AND 0x10000000 \<noteq> 0) dev)
      in vnet_add_status D 0x08 (mmio_set_enabled_features F dev))"

text \<open>Its state as the device sees it.\<close>

definition agreed :: "u64 \<Rightarrow> vdev \<Rightarrow> vdev" where
  "agreed F d = d\<lparr>vd_status := 0x0b, vd_features_sel := 0, vd_driver_sel := 0, vd_driver_features := F,
     vd_queue_ready := (\<lambda>_. 0)\<rparr>"

lemma negotiated_steps:
  assumes "virtio_registers D (mm_addr dev) feats" "F = feats AND drv_features"
  shows "mm_addr (vnet_negotiated D F dev) = mm_addr dev"
    "mmio_writes (vnet_negotiated D F dev) = mmio_writes dev @ take 10 (init_sequence F rxq txq cxq)"
    "device_of feats (vnet_negotiated D F dev) = agreed F (device_of feats dev)"
  using assms accepted_offered [of feats drv_features]
  by (simp_all add: vnet_negotiated_def init_sequence_def Let_def status_steps features_steps vdev_write_def vdev_reset_def agreed_def)

lemma vnet_new_negotiates:
  assumes "virtio_registers D (mm_addr dev) feats" "F = feats AND drv_features"
  defines "m \<equiv> mmio_touch 0x070 (vnet_negotiated D F dev)"
  shows "vnet_new heap D tsc idn dev n =
     (let (macaddr, dev) = (if F AND 0x20 = 0 then (vnet_generate_mac tsc, m) else vnet_read_mac D m) in
      rbind (vnet_setup_queue heap D 0 True dev n) (\<lambda>(rxqueue, dev, n).
      rbind (vnet_setup_queue heap D 1 False dev n) (\<lambda>(txqueue, dev, n).
      rbind (vnet_setup_queue heap D 2 True dev n) (\<lambda>(cxqueue, dev, n).
      rbind (rx_fill heap (rx_buffer_size (F AND 0x8000 \<noteq> 0) (F AND 0x80 \<noteq> 0) (F AND 0x400 \<noteq> 0))
               (unat (vq_get_avail_free_size rxqueue div 3)) rxqueue n) (\<lambda>(rxqueue, n).
        Inr (Some
          \<lparr>vn_id = idn, vn_virtio = vnet_add_status D 0x04 (mmio_kick_queue 0 dev), vn_rxq = rxqueue, vn_txq = txqueue,
           vn_cxq = cxqueue, vn_macaddr = macaddr, vn_flag_csum = (F AND 0x000001 \<noteq> 0),
           vn_flag_guest_csum = (F AND 0x000002 \<noteq> 0), vn_flag_mac = (F AND 0x20 \<noteq> 0),
           vn_flag_guest_tso4 = (F AND 0x80 \<noteq> 0), vn_flag_guest_ecn = (F AND 0x000200 \<noteq> 0),
           vn_flag_guest_ufo = (F AND 0x400 \<noteq> 0), vn_flag_host_tso4 = (F AND 0x000800 \<noteq> 0),
           vn_flag_host_ecn = (F AND 0x002000 \<noteq> 0), vn_flag_mergeable_rxbufs = (F AND 0x8000 \<noteq> 0),
           vn_flag_status = (F AND 0x010000 \<noteq> 0)\<rparr>, n))))))"
proof -
  let ?m = "vnet_add_status D 0x02 (vnet_add_status D 0x01 (mmio_set_status 0 (mmio_touch 0x008 dev)))"
  have ty: "mmio_val D 0x008 dev = 1" using device_answers(1) [OF assms(1)] .
  have sel: "mmio_val D 0x010 (mmio_write 0x014 1 ?m) = feature_word 1 feats"
    "mmio_val D 0x010 (mmio_write 0x014 0 (mmio_touch 0x010 (mmio_write 0x014 1 ?m))) = feature_word 0 feats"
    using assms(1) by (simp_all add: device_answers(2) [where feats = feats] status_steps vdev_write_def)
  have neg: "virtio_registers D (mm_addr (vnet_negotiated D F dev)) feats"
    using assms(1) by (simp add: negotiated_steps(1) [OF assms(1,2)])
  have ok: "(ucast (mmio_val D 0x070 (vnet_negotiated D F dev)) :: u8) AND 0x08 = 0x08"
    unfolding device_answers(3) [OF neg] negotiated_steps(3) [OF assms(1,2)] by (simp add: agreed_def)
  show ?thesis
    unfolding vnet_new_def mmio_get_type_def mmio_get_available_features_def mmio_is_legacy_def mmio_get_status_def
      mmio_read_split Let_def prod.case
    using ty sel feature_words_read [of feats] ok assms(2) by (simp add: vnet_negotiated_def Let_def m_def)
qed

section \<open>The whole sequence\<close>

lemma mac_steps:
  assumes "X = (if F AND 0x20 = 0 then (vnet_generate_mac tsc, m) else vnet_read_mac D m)"
  shows "mmio_writes (snd X) = mmio_writes m" "device_of feats (snd X) = device_of feats m" "mm_addr (snd X) = mm_addr m"
  using assms by (simp_all add: read_mac_steps)

lemma vnet_new_sequence:
  assumes D: "virtio_registers D (mm_addr dev) feats" and F: "F = feats AND drv_features"
    and new: "vnet_new heap D tsc idn dev n = Inr (Some v, n')"
  shows "mmio_writes (vn_virtio v) = mmio_writes dev @ init_sequence F (vn_rxq v) (vn_txq v) (vn_cxq v)"
    "vd_status (device_of feats (vn_virtio v)) = 0x0f" "vd_driver_features (device_of feats (vn_virtio v)) = F"
    "vd_queue_ready (device_of feats (vn_virtio v)) = (\<lambda>_. 0)(0 := 1, 1 := 1, 2 := 1)"
proof -
  let ?m = "mmio_touch 0x070 (vnet_negotiated D F dev)"
  define X where "X = (if F AND 0x20 = 0 then (vnet_generate_mac tsc, ?m) else vnet_read_mac D ?m)"
  obtain rq dt nr tq dc nt cq dk nc where
    q: "vnet_setup_queue heap D 0 True (snd X) n = Inr (rq, dt, nr)" "vnet_setup_queue heap D 1 False dt nr = Inr (tq, dc, nt)"
      "vnet_setup_queue heap D 2 True dc nt = Inr (cq, dk, nc)"
    and fill: "rx_fill heap (rx_buffer_size (F AND 0x8000 \<noteq> 0) (F AND 0x80 \<noteq> 0) (F AND 0x400 \<noteq> 0))
        (unat (vq_get_avail_free_size rq div 3)) rq nc = Inr (vn_rxq v, n')"
    and v: "vn_virtio v = vnet_add_status D 0x04 (mmio_kick_queue 0 dk)" "vn_txq v = tq" "vn_cxq v = cq"
    using new unfolding vnet_new_negotiates [OF D F] X_def [symmetric]
    by (auto simp: rbind_eq_Inr Let_def case_prod_beta)
  note neg = negotiated_steps [OF D F] and mac = mac_steps [OF X_def]
  note s0 = setup_queue_steps [OF q(1)] and s1 = setup_queue_steps [OF q(2)] and s2 = setup_queue_steps [OF q(3)]
  have k: "virtio_registers D (mm_addr (mmio_kick_queue 0 dk)) feats"
    using D by (simp add: kick_steps s2(2) s1(2) s0(2) mac(3) neg(1))
  have dev: "device_of feats (mmio_kick_queue 0 dk) = (agreed F (device_of feats dev))
      \<lparr>vd_queue_sel := 2, vd_queue_ready := (\<lambda>_. 0)(0 := 1, 1 := 1, 2 := 1)\<rparr>"
    by (simp add: kick_steps s2(3) s1(3) s0(3) mac(2) neg(3) agreed_def)
  have pre: "mmio_writes dk = mmio_writes dev @ take 10 (init_sequence F (vn_rxq v) tq cq) @
      queue_writes 0 (vn_rxq v) @ queue_writes 1 tq @ queue_writes 2 cq"
    using rx_fill_place [OF fill] by (simp add: s2(1) s1(1) s0(1) mac(1) neg(2) [of "vn_rxq v" tq cq])
  show "mmio_writes (vn_virtio v) = mmio_writes dev @ init_sequence F (vn_rxq v) (vn_txq v) (vn_cxq v)"
    unfolding v status_steps(5) [OF k] dev by (simp add: kick_steps pre agreed_def) (simp add: init_sequence_def)
  have "F AND NOT feats = 0" unfolding F by (rule accepted_offered)
  then show "vd_status (device_of feats (vn_virtio v)) = 0x0f" "vd_driver_features (device_of feats (vn_virtio v)) = F"
    "vd_queue_ready (device_of feats (vn_virtio v)) = (\<lambda>_. 0)(0 := 1, 1 := 1, 2 := 1)"
    unfolding v status_steps(6) [OF k] dev by (simp_all add: agreed_def vdev_write_def)
qed

text \<open>
  C8.  Initialisation.  Against a device that answers as the specification says and offers the features \<open>feats\<close>, a
  driver that comes up has made exactly these writes to the registers of the device, in this order: it has reset the
  device, acknowledged it, selected and read both words of the offered features, selected and written both words
  of the features that the device offers and the driver knows, confirmed them, handed over the three queues with their addresses,
  notified the receive queue and only then set the driver-ready bit.
\<close>

theorem vnet_init_protocol:
  assumes "virtio_registers D (mm_addr dev) feats" and "vnet_new heap D tsc idn dev n = Inr (Some v, n')"
  shows "mmio_writes (vn_virtio v) = mmio_writes dev @ init_sequence (feats AND drv_features) (vn_rxq v) (vn_txq v) (vn_cxq v)"
  using vnet_new_sequence(1) [OF assms(1) refl assms(2)] .

section \<open>A driver that comes up\<close>

lemma vq_push_all_refines:
  assumes "vq_inv q" "vq_pending q + length bs \<le> unat (vq_size q)"
  shows "vq_inv (vq_push_all bs q) \<and> vq_items (vq_push_all bs q) = vq_items q @ bs"
  using assms
proof (induction bs arbitrary: q)
  case Nil
  then show ?case by simp
next
  case (Cons b bs)
  have push: "vq_inv (vq_after_push b False q)" "vq_items (vq_after_push b False q) = vq_items q @ [b]"
    using vq_push_refines [OF Cons.prems(1), of b False] Cons.prems(2) by simp_all
  have "vq_pending (vq_after_push b False q) = Suc (vq_pending q)"
    using push(2) length_vq_items by (metis length_append_singleton)
  with Cons push show ?case by simp
qed

lemma vnet_setup_queue_ok:
  assumes D: "virtio_net_device D (mm_addr m) feats k" and "k \<le> 15"
    and idx: "idx < 3" "vd_queue_ready (device_of feats m) idx = 0"
  shows "\<exists>q m'. vnet_setup_queue heap D idx intr m n = Inr (q, m', Suc n) \<and> vq_inv q \<and> vq_items q = [] \<and>
     vq_size q = 2 ^ k \<and> vq_used_idx q = 0 \<and> vq_avail_idx q = 0"
proof -
  let ?m1 = "mmio_write 0x030 idx m"
  let ?m2 = "mmio_touch 0x034 (mmio_touch 0x044 ?m1)"
  have "virtio_registers D (mm_addr ?m1) feats" using D by (simp add: virtio_net_device_def)
  then have ready: "mmio_val D 0x044 ?m1 = 0"
    using idx by (simp add: device_answers(4) [where feats = feats] vdev_write_def)
  have "vd_queue_sel (device_of feats (mmio_touch 0x044 ?m1)) < 3" using idx(1) by (simp add: vdev_write_def)
  then have sz: "mmio_val D 0x034 (mmio_touch 0x044 ?m1) = of_nat (2 ^ k)"
    using D unfolding virtio_net_device_def mmio_val_def device_of_def by simp
  have pow: "(ucast (2 ^ k :: u32) :: u16) = 2 ^ k"
    using assms(2) by (intro bit_word_eqI) (auto simp: bit_simps)
  obtain q where q: "vq_new heap (2 ^ k) (mm_indirect_buf_cap ?m2) intr n = Inr (q, Suc n)" "vq_inv q"
      "vq_items q = []" "vq_size q = 2 ^ k"
    using vq_new_ok [OF refl assms(2)] by blast
  have "vq_used_idx q = 0" "vq_avail_idx q = 0"
    using q(1) vq_layout_ok by (auto simp: vq_new_def Let_def)
  with q show ?thesis
    by (simp add: vnet_setup_queue_def mmio_select_queue_def mmio_get_queue_size_def mmio_read_split Let_def ready sz pow)
qed

text \<open>The first buffers of the receive queue: a third of an empty queue.\<close>

lemma first_fill_ok:
  fixes heap :: heap_source
  assumes "k \<le> 15" and q: "vq_inv q" "vq_items q = []" "vq_size q = 2 ^ k" "vq_used_idx q = 0" "vq_avail_idx q = 0"
  defines "bs x y z n \<equiv> map (fresh_buffer heap (rx_buffer_size x y z)) [n..<n + 2 ^ k div 3]"
  shows "rx_fill heap (rx_buffer_size x y z) (unat (vq_get_avail_free_size q div 3)) q n =
      Inr (vq_push_all (bs x y z n) q, n + 2 ^ k div 3)"
    "vq_inv (vq_push_all (bs x y z n) q)" "vq_items (vq_push_all (bs x y z n) q) = bs x y z n"
proof -
  have wf: "vq_wf q" using q(1) by (simp add: vq_inv_def)
  have "(2::nat) ^ k < 2 ^ 16" using assms(1) by (intro power_strict_increasing) simp_all
  then have sz: "unat (vq_size q) = 2 ^ k"
    using q(3) unat_of_nat_small [of "2 ^ k", where 'a = 16] by simp
  have p: "vq_pending q = 0" using q(2) by (metis length_vq_items list.size(3))
  have free: "unat (vq_get_avail_free_size q div 3) = 2 ^ k div 3"
    using q sz by (simp add: vq_get_avail_free_size_def unat_div)
  show "rx_fill heap (rx_buffer_size x y z) (unat (vq_get_avail_free_size q div 3)) q n =
      Inr (vq_push_all (bs x y z n) q, n + 2 ^ k div 3)"
    unfolding free bs_def by (rule rx_fill_ok [OF wf rx_buffer_size_bounds])
  have "vq_pending q + length (bs x y z n) \<le> unat (vq_size q)" using p sz by (simp add: bs_def)
  from vq_push_all_refines [OF q(1) this] q(2)
  show "vq_inv (vq_push_all (bs x y z n) q)" "vq_items (vq_push_all (bs x y z n) q) = bs x y z n" by simp_all
qed

lemma vnet_new_ok:
  assumes dev: "virtio_net_device D (mm_addr dev) feats k" and "k \<le> 15"
  shows "\<exists>v n'. vnet_new heap D tsc idn dev n = Inr (Some v, n') \<and>
    vq_inv (vn_rxq v) \<and> vq_inv (vn_txq v) \<and> vq_inv (vn_cxq v) \<and> vn_id v = idn \<and>
    vq_items (vn_rxq v) = map (fresh_buffer heap (vn_buffer_size v)) [n + 3..<n + 3 + 2 ^ k div 3] \<and>
    vq_items (vn_txq v) = [] \<and> vq_items (vn_cxq v) = []"
proof -
  have D: "virtio_registers D (mm_addr dev) feats" using dev by (simp add: virtio_net_device_def)
  define F where "F = feats AND drv_features"
  let ?m = "mmio_touch 0x070 (vnet_negotiated D F dev)"
  define X where "X = (if F AND 0x20 = 0 then (vnet_generate_mac tsc, ?m) else vnet_read_mac D ?m)"
  note neg = negotiated_steps [OF D F_def] and mac = mac_steps [OF X_def]
  have X: "virtio_net_device D (mm_addr (snd X)) feats k" "device_of feats (snd X) = agreed F (device_of feats dev)"
    using dev by (simp_all add: mac neg)
  obtain rq m1 where q0: "vnet_setup_queue heap D 0 True (snd X) n = Inr (rq, m1, Suc n)" "vq_inv rq"
      "vq_items rq = []" "vq_size rq = 2 ^ k" "vq_used_idx rq = 0" "vq_avail_idx rq = 0"
    using vnet_setup_queue_ok [OF X(1) assms(2), of 0 heap True n] X(2) by (auto simp: agreed_def)
  note s0 = setup_queue_steps [OF q0(1)]
  obtain tq m2 where q1: "vnet_setup_queue heap D 1 False m1 (Suc n) = Inr (tq, m2, Suc (Suc n))" "vq_inv tq" "vq_items tq = []"
    using vnet_setup_queue_ok [of D m1 feats k 1 heap False "Suc n"] X assms(2) by (auto simp: s0(2,3) agreed_def)
  note s1 = setup_queue_steps [OF q1(1)]
  obtain cq m3 where q2: "vnet_setup_queue heap D 2 True m2 (Suc (Suc n)) = Inr (cq, m3, n + 3)" "vq_inv cq" "vq_items cq = []"
    using vnet_setup_queue_ok [of D m2 feats k 2 heap True "Suc (Suc n)"] X assms(2)
    by (auto simp: s1(2,3) s0(2,3) agreed_def numeral_3_eq_3)
  show ?thesis
    unfolding vnet_new_negotiates [OF D F_def] X_def [symmetric]
    by (simp add: case_prod_beta q0 q1 q2 first_fill_ok [OF assms(2) q0(2-6), where heap = heap])
qed

text \<open>
  C6.  The driver comes up.  For a network device that answers as the virtio specification says, accepts every
  part of the features that it offers and has three queues of a power of two of entries, \<open>VirtioNet::new\<close> does not panic and gives a driver whose three queues satisfy the ring
  invariant, with a third of the receive queue filled with fresh buffers and the others empty.  The device then has
  all its status bits set, has the features that it offers and the driver knows, and has exactly the three queues ready.
\<close>

theorem vnet_new_comes_up:
  assumes "virtio_net_device D (mm_addr dev) feats k" and "k \<le> 15"
  shows "\<exists>v n' d. vnet_new heap D tsc idn dev n = Inr (Some v, n') \<and>
    vq_inv (vn_rxq v) \<and> vq_inv (vn_txq v) \<and> vq_inv (vn_cxq v) \<and> vn_id v = idn \<and>
    vq_items (vn_rxq v) = map (fresh_buffer heap (vn_buffer_size v)) [n + 3..<n + 3 + 2 ^ k div 3] \<and>
    vq_items (vn_txq v) = [] \<and> vq_items (vn_cxq v) = [] \<and>
    d = device_of feats (vn_virtio v) \<and> vd_status d = 0x0f \<and> vd_driver_features d = feats AND drv_features \<and>
    vd_queue_ready d = (\<lambda>_. 0)(0 := 1, 1 := 1, 2 := 1)"
proof -
  have D: "virtio_registers D (mm_addr dev) feats" using assms(1) by (simp add: virtio_net_device_def)
  obtain v n' where v: "vnet_new heap D tsc idn dev n = Inr (Some v, n')" "vq_inv (vn_rxq v)" "vq_inv (vn_txq v)"
    "vq_inv (vn_cxq v)" "vn_id v = idn" "vq_items (vn_txq v) = []" "vq_items (vn_cxq v) = []"
    "vq_items (vn_rxq v) = map (fresh_buffer heap (vn_buffer_size v)) [n + 3..<n + 3 + 2 ^ k div 3]"
    using vnet_new_ok [OF assms] by blast
  then show ?thesis using vnet_new_sequence(2-4) [OF D refl v(1)] by (intro exI [of _ v] exI [of _ n']) simp
qed

section \<open>Witnesses\<close>

lemma sample_device_complies: "virtio_net_device sample_device (mm_addr sample_mmio) 0x100000023 1"
  using emulated_device_complies by (simp add: sample_device_def sample_mmio_def)

theorem vnet_new_comes_up_witness:
  "\<exists>v n'. vnet_new sample_heap sample_device 0 0 sample_mmio 0 = Inr (Some v, n') \<and> vq_inv (vn_rxq v) \<and>
     vd_driver_features (device_of 0x100000023 (vn_virtio v)) = 0x23"
  using vnet_new_comes_up [OF sample_device_complies, of sample_heap 0 0 0] by (auto simp: drv_features_def)

theorem vnet_init_protocol_witness:
  "\<exists>v n'. vnet_new sample_heap sample_device 0 0 sample_mmio 0 = Inr (Some v, n') \<and>
     mmio_writes (vn_virtio v) = init_sequence 0x23 (vn_rxq v) (vn_txq v) (vn_cxq v)"
proof -
  have D: "virtio_registers sample_device (mm_addr sample_mmio) 0x100000023"
    using sample_device_complies by (simp add: virtio_net_device_def)
  obtain v n' where v: "vnet_new sample_heap sample_device 0 0 sample_mmio 0 = Inr (Some v, n')"
    using vnet_new_ok [OF sample_device_complies, of sample_heap 0 0 0] by auto
  have "mmio_writes sample_mmio = []" by (simp add: mmio_writes_def sample_mmio_def)
  with v vnet_init_protocol [OF D v] show ?thesis by (simp add: drv_features_def)
qed

end
