(* ===== verification/Async_Laws.thy ===== *)
theory Async_Laws
  imports Async_Tasks
begin

text \<open>
  What the timers, the executor and the tasks of \<^verbatim>\<open>Async_Tasks\<close> do together: the interrupt fires
  exactly the timers that are due, no task is ever lost between the two queues, nothing panics, and
  the main loop gets through its tasks.  The queue package enters through a locale, which the ring
  buffer of the kernel satisfies.
\<close>

section \<open>The contract of the queue package\<close>

locale array_queue = bounded_fifo "qo_push Q" "qo_pop Q" items inv cap
  for Q :: "'q queue_ops" and items :: "'q \<Rightarrow> nat list" and inv :: "'q \<Rightarrow> bool" and cap :: nat +
  assumes len_items: "inv q \<Longrightarrow> qo_len Q q = length (items q)"

definition ring_ops :: "nat ring queue_ops" where
  "ring_ops = \<lparr>qo_push = ring_push, qo_pop = ring_pop, qo_len = ring_count\<rparr>"

interpretation ringa: array_queue ring_ops ring_items ring_inv "ringbuf_length - 1"
proof -
  have "bounded_fifo (qo_push ring_ops) (qo_pop ring_ops) ring_items ring_inv (ringbuf_length - 1)"
    using ringq.bounded_fifo_axioms by (simp add: ring_ops_def)
  then show "array_queue ring_ops ring_items ring_inv (ringbuf_length - 1)"
    by (intro array_queue.intro array_queue_axioms.intro) (simp_all add: ring_ops_def)
qed

section \<open>Firing timers\<close>

definition timer_due :: "u64 \<Rightarrow> shared_state list \<Rightarrow> nat \<Rightarrow> bool" where
  "timer_due now ts tid \<longleftrightarrow> ss_expired_monotonic (ts ! tid) < now"

definition fire :: "shared_state \<Rightarrow> shared_state" where
  "fire ss = ss\<lparr>ss_completed := True, ss_waker := None\<rparr>"

definition fire_all :: "u64 \<Rightarrow> nat list \<Rightarrow> shared_state list \<Rightarrow> shared_state list" where
  "fire_all now xs ts = map (\<lambda>i. if i \<in> set xs \<and> timer_due now ts i then fire (ts ! i) else ts ! i) [0..<length ts]"

definition due_wakers :: "u64 \<Rightarrow> shared_state list \<Rightarrow> nat list \<Rightarrow> nat list" where
  "due_wakers now ts xs = List.map_filter (\<lambda>tid. if timer_due now ts tid then ss_waker (ts ! tid) else None) xs"

lemma length_fire_all [simp]: "length (fire_all now xs ts) = length ts"
  by (simp add: fire_all_def)

lemma nth_fire_all: "i < length ts \<Longrightarrow>
  fire_all now xs ts ! i = (if i \<in> set xs \<and> timer_due now ts i then fire (ts ! i) else ts ! i)"
  by (simp add: fire_all_def)

lemma fire_all_Nil: "fire_all now [] ts = ts"
  by (simp add: fire_all_def map_nth)

text \<open>Firing the first timer of the list, then the rest.\<close>

lemma fire_all_Cons_due:
  assumes "x < length ts" "x \<notin> set xs" "timer_due now ts x"
  shows "fire_all now xs (ts[x := fire (ts ! x)]) = fire_all now (x # xs) ts"
  using assms by (intro nth_equalityI) (auto simp: nth_fire_all nth_list_update timer_due_def)

lemma fire_all_Cons_early: "\<not> timer_due now ts x \<Longrightarrow> fire_all now (x # xs) ts = fire_all now xs ts"
  by (intro nth_equalityI) (auto simp: nth_fire_all)

lemma due_unchanged:
  "x \<notin> set xs \<Longrightarrow> due_wakers now (ts[x := y]) xs = due_wakers now ts xs"
  "x \<notin> set xs \<Longrightarrow> filter (\<lambda>t. \<not> timer_due now (ts[x := y]) t) xs = filter (\<lambda>t. \<not> timer_due now ts t) xs"
  by (induction xs) (auto simp: due_wakers_def map_filter_simps timer_due_def split: option.split)

lemma due_wakers_Cons: "due_wakers now ts (x # xs) =
  (if timer_due now ts x then case ss_waker (ts ! x) of Some k \<Rightarrow> k # due_wakers now ts xs | None \<Rightarrow> due_wakers now ts xs
   else due_wakers now ts xs)"
  by (simp add: due_wakers_def map_filter_simps split: option.split)

context array_queue
begin

lemma check_timer_due:
  assumes "inv (as_registered s)" "items (as_registered s) = x # xs" "x < length (as_timers s)"
    and "timer_due now (as_timers s) x" "inv (as_queue s)" "length (items (as_queue s)) < cap"
  shows "\<exists>q1 q2. check_timer Q now s =
      Inr (s\<lparr>as_registered := q1, as_timers := (as_timers s)[x := fire (as_timers s ! x)], as_queue := q2\<rparr>) \<and>
    inv q1 \<and> items q1 = xs \<and> inv q2 \<and>
    items q2 = items (as_queue s) @ (case ss_waker (as_timers s ! x) of Some k \<Rightarrow> [k] | None \<Rightarrow> [])"
proof -
  obtain q1 where q1: "qo_pop Q (as_registered s) = Some (x, q1)" "inv q1" "items q1 = xs"
    using pop_Cons [OF assms(1,2)] by blast
  show ?thesis
  proof (cases "ss_waker (as_timers s ! x)")
    case None
    then show ?thesis
      using q1 assms
      by (intro exI [of _ q1] exI [of _ "as_queue s"]) (simp add: check_timer_def get_at_ok timer_due_def fire_def)
  next
    case (Some k)
    obtain q2 where "qo_push Q k (as_queue s) = Some q2" "inv q2" "items q2 = items (as_queue s) @ [k]"
      using push_room [OF assms(5,6)] by blast
    then show ?thesis
      using q1 Some assms by (auto simp: check_timer_def get_at_ok timer_due_def fire_def task_wake_def)
  qed
qed

lemma check_timer_early:
  assumes "inv (as_registered s)" "items (as_registered s) = x # xs" "x < length (as_timers s)"
    and "\<not> timer_due now (as_timers s) x"
  shows "\<exists>q1. check_timer Q now s = Inr (s\<lparr>as_registered := q1\<rparr>) \<and> inv q1 \<and> items q1 = xs @ [x]"
proof -
  obtain q1 where q1: "qo_pop Q (as_registered s) = Some (x, q1)" "inv q1" "items q1 = xs"
    using pop_Cons [OF assms(1,2)] by blast
  have "length xs < cap" using items_le [OF assms(1)] assms(2) by simp
  then obtain q2 where "qo_push Q x q1 = Some q2" "inv q2" "items q2 = xs @ [x]"
    using push_room [OF q1(2), of x] q1(3) by auto
  then show ?thesis
    using q1 assms by (intro exI [of _ q2]) (simp add: check_timer_def get_at_ok timer_due_def)
qed

lemma check_loop_correct:
  assumes "inv (as_registered s)" "items (as_registered s) = xs @ ys" "distinct xs"
    and "\<And>x. x \<in> set xs \<Longrightarrow> x < length (as_timers s)"
    and "inv (as_queue s)" "length (items (as_queue s)) + length xs \<le> cap"
  shows "\<exists>q1 q2. check_loop Q now (length xs) s =
      Inr (s\<lparr>as_registered := q1, as_timers := fire_all now xs (as_timers s), as_queue := q2\<rparr>) \<and>
    inv q1 \<and> items q1 = ys @ filter (\<lambda>x. \<not> timer_due now (as_timers s) x) xs \<and>
    inv q2 \<and> items q2 = items (as_queue s) @ due_wakers now (as_timers s) xs"
  using assms
proof (induction xs arbitrary: s ys)
  case Nil
  then show ?case
    by (intro exI [of _ "as_registered s"] exI [of _ "as_queue s"]) (simp add: fire_all_Nil due_wakers_def)
next
  case (Cons x xs)
  have x: "x < length (as_timers s)" "x \<notin> set xs" using Cons.prems by auto
  show ?case
  proof (cases "timer_due now (as_timers s) x")
    case True
    obtain q1 q2 where c: "check_timer Q now s =
        Inr (s\<lparr>as_registered := q1, as_timers := (as_timers s)[x := fire (as_timers s ! x)], as_queue := q2\<rparr>)"
      and q: "inv q1" "items q1 = xs @ ys" "inv q2"
        "items q2 = items (as_queue s) @ (case ss_waker (as_timers s ! x) of Some k \<Rightarrow> [k] | None \<Rightarrow> [])"
      using check_timer_due [of s x "xs @ ys" now] Cons.prems True by auto
    let ?s = "s\<lparr>as_registered := q1, as_timers := (as_timers s)[x := fire (as_timers s ! x)], as_queue := q2\<rparr>"
    have "length (items q2) + length xs \<le> cap" using Cons.prems(6) q(4) by (auto split: option.splits)
    then have IH: "\<exists>q1 q2. check_loop Q now (length xs) ?s =
        Inr (?s\<lparr>as_registered := q1, as_timers := fire_all now xs (as_timers ?s), as_queue := q2\<rparr>) \<and>
      inv q1 \<and> items q1 = ys @ filter (\<lambda>x. \<not> timer_due now (as_timers ?s) x) xs \<and>
      inv q2 \<and> items q2 = items (as_queue ?s) @ due_wakers now (as_timers ?s) xs"
      using Cons.prems q by (intro Cons.IH) auto
    then show ?thesis
      using c q x True fire_all_Cons_due [OF x True] by (auto simp: due_unchanged due_wakers_Cons split: option.splits)
  next
    case False
    obtain q1 where c: "check_timer Q now s = Inr (s\<lparr>as_registered := q1\<rparr>)" "inv q1" "items q1 = xs @ ys @ [x]"
      using check_timer_early [of s x "xs @ ys" now] Cons.prems False by auto
    have "\<exists>q1' q2. check_loop Q now (length xs) (s\<lparr>as_registered := q1\<rparr>) =
        Inr (s\<lparr>as_registered := q1\<rparr>\<lparr>as_registered := q1', as_timers := fire_all now xs (as_timers (s\<lparr>as_registered := q1\<rparr>)), as_queue := q2\<rparr>) \<and>
      inv q1' \<and> items q1' = (ys @ [x]) @ filter (\<lambda>x. \<not> timer_due now (as_timers (s\<lparr>as_registered := q1\<rparr>)) x) xs \<and>
      inv q2 \<and> items q2 = items (as_queue (s\<lparr>as_registered := q1\<rparr>)) @ due_wakers now (as_timers (s\<lparr>as_registered := q1\<rparr>)) xs"
      using Cons.prems c by (intro Cons.IH) auto
    then show ?thesis
      using c False by (auto simp: due_wakers_Cons fire_all_Cons_early)
  qed
qed

lemma check_timerfutures_correct:
  assumes "inv (as_registered s)" "distinct (items (as_registered s))"
    and "\<And>x. x \<in> set (items (as_registered s)) \<Longrightarrow> x < length (as_timers s)"
    and "inv (as_queue s)" "length (items (as_queue s)) + length (items (as_registered s)) \<le> cap"
    and "get_monotonic_time C (as_clock s) = Some (now, p)" "xs = items (as_registered s)"
  shows "\<exists>q1 q2. check_timerfutures Q C s = Some (Inr (s\<lparr>as_clock := p, as_registered := q1,
        as_timers := fire_all now xs (as_timers s), as_queue := q2\<rparr>)) \<and>
    inv q1 \<and> items q1 = filter (\<lambda>x. \<not> timer_due now (as_timers s) x) xs \<and>
    inv q2 \<and> items q2 = items (as_queue s) @ due_wakers now (as_timers s) xs"
  using check_loop_correct [of "s\<lparr>as_clock := p\<rparr>" xs "[]" now] assms len_items [OF assms(1)]
  by (simp add: check_timerfutures_def)

end

section \<open>The tasks and the two queues\<close>

text \<open>
  A task is either queued, because it has not started yet or its timer has fired, or it waits for a
  registered timer that has not fired and that knows the task.
\<close>

definition task_ok :: "('q \<Rightarrow> nat list) \<Rightarrow> (test_future, 'q) async_state \<Rightarrow> nat \<Rightarrow> bool" where
  "task_ok items s k \<longleftrightarrow> (case as_tasks s ! k of
      None \<Rightarrow> False
    | Some (Test_Start d) \<Rightarrow> k \<in> set (items (as_queue s))
    | Some (Test_Wait d tid) \<Rightarrow> tid < length (as_timers s) \<and>
        (if k \<in> set (items (as_queue s)) then ss_completed (as_timers s ! tid)
         else tid \<in> set (items (as_registered s)) \<and> ss_waker (as_timers s ! tid) = Some k))"

definition timer_ok :: "(test_future, 'q) async_state \<Rightarrow> nat \<Rightarrow> bool" where
  "timer_ok s tid \<longleftrightarrow> tid < length (as_timers s) \<and> \<not> ss_completed (as_timers s ! tid) \<and>
     (\<exists>k d. ss_waker (as_timers s ! tid) = Some k \<and> k < length (as_tasks s) \<and> as_tasks s ! k = Some (Test_Wait d tid))"

definition async_inv ::
  "('q \<Rightarrow> nat list) \<Rightarrow> ('q \<Rightarrow> bool) \<Rightarrow> nat \<Rightarrow> (test_future, 'q) async_state \<Rightarrow> bool"
where
  "async_inv items qinv cap s \<longleftrightarrow> qinv (as_registered s) \<and> qinv (as_queue s) \<and>
     distinct (items (as_registered s)) \<and> distinct (items (as_queue s)) \<and>
     (\<forall>k\<in>set (items (as_queue s)). k < length (as_tasks s)) \<and>
     (\<forall>tid\<in>set (items (as_registered s)). timer_ok s tid) \<and>
     (\<forall>k<length (as_tasks s). task_ok items s k) \<and> length (as_tasks s) \<le> cap"

text \<open>The task that waits for a registered timer.\<close>

definition owner :: "('f, 'q) async_state \<Rightarrow> nat \<Rightarrow> nat" where
  "owner s tid = the (ss_waker (as_timers s ! tid))"

context array_queue
begin

abbreviation ok :: "(test_future, 'q) async_state \<Rightarrow> bool" where
  "ok s \<equiv> async_inv items inv cap s"

lemma owner_facts:
  assumes "ok s" "tid \<in> set (items (as_registered s))"
  shows "ss_waker (as_timers s ! tid) = Some (owner s tid)" "owner s tid < length (as_tasks s)"
    "\<exists>d. as_tasks s ! owner s tid = Some (Test_Wait d tid)" "owner s tid \<notin> set (items (as_queue s))"
    "tid < length (as_timers s)" "\<not> ss_completed (as_timers s ! tid)"
proof -
  obtain k d where k: "ss_waker (as_timers s ! tid) = Some k" "k < length (as_tasks s)"
    "as_tasks s ! k = Some (Test_Wait d tid)" "\<not> ss_completed (as_timers s ! tid)" "tid < length (as_timers s)"
    using assms by (auto simp: async_inv_def timer_ok_def)
  then have o: "owner s tid = k" by (simp add: owner_def)
  have "task_ok items s k" using assms(1) k(2) by (simp add: async_inv_def)
  with k show "ss_waker (as_timers s ! tid) = Some (owner s tid)" "owner s tid < length (as_tasks s)"
    "\<exists>d. as_tasks s ! owner s tid = Some (Test_Wait d tid)" "owner s tid \<notin> set (items (as_queue s))"
    "tid < length (as_timers s)" "\<not> ss_completed (as_timers s ! tid)"
    by (auto simp: o task_ok_def split: if_splits)
qed

lemma owner_inj: "ok s \<Longrightarrow> inj_on (owner s) (set (items (as_registered s)))"
  by (intro inj_onI) (metis owner_facts(3) option.inject test_future.inject(2))

text \<open>There is room in both queues for every task.\<close>

lemma queues_fit:
  assumes "ok s"
  shows "length (items (as_registered s)) + length (items (as_queue s)) \<le> length (as_tasks s)"
proof -
  let ?R = "set (items (as_registered s))" and ?K = "set (items (as_queue s))"
  have d: "distinct (items (as_registered s))" "distinct (items (as_queue s))" "?K \<subseteq> {..<length (as_tasks s)}"
    using assms by (auto simp: async_inv_def)
  have "card (owner s ` ?R) + card ?K = card (owner s ` ?R \<union> ?K)"
    using owner_facts(4) [OF assms] by (intro card_Un_disjoint [symmetric]) auto
  also have "\<dots> \<le> card {..<length (as_tasks s)}"
    using owner_facts(2) [OF assms] d(3) by (intro card_mono) auto
  finally show ?thesis
    using card_image [OF owner_inj [OF assms]] d by (simp add: distinct_card)
qed

section \<open>The timer interrupt\<close>

lemma due_wakers_owners:
  assumes "ok s"
  shows "due_wakers now (as_timers s) (items (as_registered s)) =
    map (owner s) (filter (timer_due now (as_timers s)) (items (as_registered s)))"
proof -
  have "due_wakers now (as_timers s) xs = map (owner s) (filter (timer_due now (as_timers s)) xs)"
    if "set xs \<subseteq> set (items (as_registered s))" for xs
    using that owner_facts(1) [OF assms] by (induction xs) (simp_all add: due_wakers_def)
  then show ?thesis by simp
qed

text \<open>A waiting task is woken exactly when its timer is among those that fire.\<close>

lemma waiting_task:
  assumes "ok s" "k < length (as_tasks s)" "as_tasks s ! k = Some (Test_Wait d tid)" "k \<notin> set (items (as_queue s))"
  shows "tid \<in> set (items (as_registered s))" "owner s tid = k" "tid < length (as_timers s)"
    "k \<in> owner s ` {x \<in> set (items (as_registered s)). P x} \<longleftrightarrow> P tid"
proof -
  have "task_ok items s k" using assms(1,2) by (simp add: async_inv_def)
  then show *: "tid \<in> set (items (as_registered s))" "owner s tid = k" "tid < length (as_timers s)"
    using assms(3,4) by (simp_all add: task_ok_def owner_def)
  show "k \<in> owner s ` {x \<in> set (items (as_registered s)). P x} \<longleftrightarrow> P tid"
    using inj_onD [OF owner_inj [OF assms(1)], of tid] * by auto
qed

lemma interrupt_task_ok:
  assumes ok: "ok s" and k: "k < length (as_tasks s)"
    and s': "as_tasks s' = as_tasks s" "as_timers s' = fire_all now (items (as_registered s)) (as_timers s)"
      "items (as_registered s') = filter (\<lambda>x. \<not> timer_due now (as_timers s) x) (items (as_registered s))"
      "items (as_queue s') = items (as_queue s) @ map (owner s) (filter (timer_due now (as_timers s)) (items (as_registered s)))"
  shows "task_ok items s' k"
proof -
  have before: "task_ok items s k" using ok k by (simp add: async_inv_def)
  show ?thesis
  proof (cases "k \<in> set (items (as_queue s))")
    case True
    then show ?thesis
      using before by (auto simp: task_ok_def s' nth_fire_all fire_def split: option.splits test_future.splits)
  next
    case False
    then obtain d tid where w: "as_tasks s ! k = Some (Test_Wait d tid)"
      using before by (auto simp: task_ok_def split: option.splits test_future.splits)
    note wt = waiting_task [OF ok k w False]
    have "k \<in> set (items (as_queue s')) \<longleftrightarrow> timer_due now (as_timers s) tid"
      using False wt(4) [of "timer_due now (as_timers s)"] by (simp add: s')
    moreover have "ss_waker (as_timers s ! tid) = Some k" using owner_facts(1) [OF ok wt(1)] wt(2) by simp
    ultimately show ?thesis
      using w wt(1,3) by (simp add: task_ok_def s' nth_fire_all fire_def)
  qed
qed

lemma interrupt_keeps:
  assumes ok: "ok s" and clock: "get_monotonic_time C (as_clock s) = Some (now, p)"
  shows "\<exists>s'. check_timerfutures Q C s = Some (Inr s') \<and> ok s' \<and> as_tasks s' = as_tasks s \<and>
    as_timers s' = fire_all now (items (as_registered s)) (as_timers s) \<and>
    items (as_registered s') = filter (\<lambda>x. \<not> timer_due now (as_timers s) x) (items (as_registered s)) \<and>
    items (as_queue s') = items (as_queue s) @
      map (owner s) (filter (timer_due now (as_timers s)) (items (as_registered s))) \<and>
    as_clock s' = p"
proof -
  define R K where "R = items (as_registered s)" and "K = items (as_queue s)"
  let ?due = "timer_due now (as_timers s)"
  note owner = owner_facts [OF ok, folded R_def K_def]
  have inv: "inv (as_registered s)" "inv (as_queue s)" "distinct R" "distinct K" "\<forall>k\<in>set K. k < length (as_tasks s)"
    "\<forall>k<length (as_tasks s). task_ok items s k" "length (as_tasks s) \<le> cap"
    using ok by (simp_all add: async_inv_def R_def K_def)
  obtain q1 q2 where c: "check_timerfutures Q C s = Some (Inr (s\<lparr>as_clock := p, as_registered := q1,
        as_timers := fire_all now R (as_timers s), as_queue := q2\<rparr>))"
    and q: "inv q1" "items q1 = filter (\<lambda>x. \<not> ?due x) R" "inv q2" "items q2 = K @ map (owner s) (filter ?due R)"
    using check_timerfutures_correct [of s C now p R] inv queues_fit [OF ok] owner(5) due_wakers_owners [OF ok, of now] clock
    by (auto simp: R_def K_def)
  define s' where "s' = s\<lparr>as_clock := p, as_registered := q1, as_timers := fire_all now R (as_timers s), as_queue := q2\<rparr>"
  have sel: "as_registered s' = q1" "as_queue s' = q2" "as_tasks s' = as_tasks s"
    "as_timers s' = fire_all now R (as_timers s)" by (simp_all add: s'_def)
  have "distinct (items q2)"
    using inv(3,4) owner(4) inj_on_subset [OF owner_inj [OF ok, folded R_def], of "set (filter ?due R)"]
    by (auto simp: q(4) distinct_map)
  moreover have "\<forall>k\<in>set (items q2). k < length (as_tasks s)"
    using inv(5) owner(2) by (auto simp: q(4))
  moreover have "timer_ok s' tid" if "tid \<in> set (items q1)" for tid
    using owner [of tid] that by (auto simp: timer_ok_def sel q(2) nth_fire_all)
  moreover have "task_ok items s' k" if "k < length (as_tasks s)" for k
    using interrupt_task_ok [OF ok that, of s' now] sel q(2,4) by (simp add: R_def K_def)
  ultimately have "ok s'"
    using inv q(1,2,3) by (simp add: async_inv_def sel)
  then show ?thesis using c q by (auto simp: s'_def R_def K_def)
qed

end

section \<open>The main loop\<close>

fun test_duration :: "test_future \<Rightarrow> u64" where
  "test_duration (Test_Start d) = d"
| "test_duration (Test_Wait d tid) = d"

text \<open>
  The state after a queued task has run: it waits for a new timer, which expires \<open>d\<close> after the time \<open>t\<close>; \<open>p\<close> is how
  far the clock has been read.
\<close>

definition arm ::
  "u64 \<Rightarrow> clock_pos \<Rightarrow> nat \<Rightarrow> u64 \<Rightarrow> 'q \<Rightarrow> 'q \<Rightarrow> (test_future, 'q) async_state \<Rightarrow> (test_future, 'q) async_state"
where
  "arm t p k d q1 q2 s = s\<lparr>as_timers := as_timers s @
        [\<lparr>ss_completed = False, ss_expired_monotonic = t + d, ss_waker = Some k\<rparr>],
     as_registered := q1, as_tasks := (as_tasks s)[k := Some (Test_Wait d (length (as_timers s)))],
     as_queue := q2, as_clock := p\<rparr>"

text \<open>A reading of the clock that comes no earlier than the position \<open>p\<close>, and the time that it gives.\<close>

definition clock_reading :: "clock_source \<Rightarrow> clock_pos \<Rightarrow> u64 \<Rightarrow> clock_pos \<Rightarrow> bool" where
  "clock_reading C p t p' \<longleftrightarrow> (\<exists>p0. pos_tsc p \<le> pos_tsc p0 \<and> get_monotonic_time C p0 = Some (t, p'))"

lemma clock_reading_later: "clock_reading C p t p' \<Longrightarrow> pos_tsc p < pos_tsc p'"
  by (auto simp: clock_reading_def dest: get_monotonic_time_pos)

lemma clock_reading_trans: "pos_tsc p \<le> pos_tsc p' \<Longrightarrow> clock_reading C p' t p'' \<Longrightarrow> clock_reading C p t p''"
  by (auto simp: clock_reading_def intro: order_trans)

context array_queue
begin

lemma test_loop_arms:
  assumes "inv (as_registered s)" "length (items (as_registered s)) < cap" "clock_live C"
  shows "\<exists>q t p. test_loop Q C d k s = Some (Inr (Pending (Test_Wait d (length (as_timers s))),
      s\<lparr>as_timers := as_timers s @ [\<lparr>ss_completed = False, ss_expired_monotonic = t + d, ss_waker = Some k\<rparr>],
        as_registered := q, as_clock := p\<rparr>)) \<and> clock_reading C (as_clock s) t p \<and>
    inv q \<and> items q = items (as_registered s) @ [length (as_timers s)]"
proof -
  obtain q where q: "qo_push Q (length (as_timers s)) (as_registered s) = Some q" "inv q"
    "items q = items (as_registered s) @ [length (as_timers s)]"
    using push_room [OF assms(1,2)] by blast
  obtain c p1 where c: "get_calendar C (as_clock s) = Some (Inr c, p1)" "pos_tsc (as_clock s) \<le> pos_tsc p1"
    using get_calendar_live [OF assms(3)] by blast
  obtain t p where t: "get_monotonic_time C p1 = Some (t, p)" using get_monotonic_time_live [OF assms(3)] by blast
  have "test_loop Q C d k s = Some (Inr (Pending (Test_Wait d (length (as_timers s))),
      s\<lparr>as_timers := as_timers s @ [\<lparr>ss_completed = False, ss_expired_monotonic = t + d, ss_waker = Some k\<rparr>],
        as_registered := q, as_clock := p\<rparr>))"
    using q(1) c(1) t by (subst test_loop.simps) (simp add: timer_new_def timer_poll_def get_at_ok Let_def)
  then show ?thesis using q c(2) t by (auto simp: clock_reading_def)
qed

lemma run_task_arms:
  assumes ok: "ok s" and k: "items (as_queue s) = k # ks" and q: "inv q2" "items q2 = ks" and live: "clock_live C"
  shows "\<exists>f q1 t p. as_tasks s ! k = Some f \<and>
    run_task (test_poll Q C) k (s\<lparr>as_queue := q2\<rparr>) = Some (Inr (arm t p k (test_duration f) q1 q2 s)) \<and>
    clock_reading C (as_clock s) t p \<and> inv q1 \<and> items q1 = items (as_registered s) @ [length (as_timers s)]"
proof -
  let ?s = "s\<lparr>as_queue := q2, as_tasks := (as_tasks s)[k := None]\<rparr>"
  have inv: "inv (as_registered s)" "k < length (as_tasks s)" "task_ok items s k" "length (as_tasks s) \<le> cap"
    using ok k by (auto simp: async_inv_def)
  have room: "length (items (as_registered s)) < cap" using queues_fit [OF ok] k inv(4) by simp
  obtain f where f: "as_tasks s ! k = Some f" using inv(3) by (auto simp: task_ok_def split: option.splits)
  have "test_poll Q C f k ?s = test_loop Q C (test_duration f) k ?s"
    using inv(3) k f by (cases f) (auto simp: task_ok_def timer_poll_def get_at_ok)
  moreover obtain q1 t p where "test_loop Q C (test_duration f) k ?s =
      Some (Inr (Pending (Test_Wait (test_duration f) (length (as_timers s))),
        ?s\<lparr>as_timers := as_timers s @ [\<lparr>ss_completed = False, ss_expired_monotonic = t + test_duration f, ss_waker = Some k\<rparr>],
          as_registered := q1, as_clock := p\<rparr>))"
    and q1: "clock_reading C (as_clock s) t p" "inv q1" "items q1 = items (as_registered s) @ [length (as_timers s)]"
    using test_loop_arms [of ?s C "test_duration f" k] inv(1) room live by auto
  ultimately have "run_task (test_poll Q C) k (s\<lparr>as_queue := q2\<rparr>) = Some (Inr (arm t p k (test_duration f) q1 q2 s))"
    using inv(2) f by (simp add: run_task_def get_at_ok arm_def)
  then show ?thesis using f q1 by blast
qed

lemma arm_keeps:
  assumes ok: "ok s" and k: "items (as_queue s) = k # ks" and q: "inv q2" "items q2 = ks"
    "inv q1" "items q1 = items (as_registered s) @ [length (as_timers s)]"
  shows "ok (arm t p k d q1 q2 s)"
proof -
  let ?s' = "arm t p k d q1 q2 s"
  have inv: "distinct (items (as_registered s))" "distinct (k # ks)" "\<forall>j\<in>set (k # ks). j < length (as_tasks s)"
    "\<forall>j<length (as_tasks s). task_ok items s j" "length (as_tasks s) \<le> cap"
    using ok k by (simp_all add: async_inv_def)
  have new: "length (as_timers s) \<notin> set (items (as_registered s))" using owner_facts(5) [OF ok] by blast
  have "timer_ok ?s' tid" if "tid \<in> set (items q1)" for tid
  proof (cases "tid = length (as_timers s)")
    case True
    then show ?thesis using inv(3) by (auto simp: timer_ok_def arm_def)
  next
    case False
    then have tid: "tid \<in> set (items (as_registered s))" using that q(4) by simp
    then have "owner s tid \<noteq> k" using owner_facts(4) [OF ok tid] k by auto
    then show ?thesis
      using owner_facts [OF ok tid] by (auto simp: timer_ok_def arm_def nth_append nth_list_update)
  qed
  moreover have "task_ok items ?s' j" if "j < length (as_tasks s)" for j
  proof (cases "j = k")
    case True
    then show ?thesis using inv(2) that q by (simp add: task_ok_def arm_def)
  next
    case False
    have "task_ok items s j" using inv(4) that by simp
    then show ?thesis
      using False q k by (auto simp: task_ok_def arm_def nth_append split: option.splits test_future.splits if_splits)
  qed
  ultimately show ?thesis
    using inv new q by (auto simp: async_inv_def arm_def)
qed

end

text \<open>
  What a run of the executor leaves behind: the tasks in \<open>K\<close> wait for new timers that expire their
  durations after a reading of the clock, everything else is as before.
\<close>

definition rearmed ::
  "clock_source \<Rightarrow> nat set \<Rightarrow> (test_future, 'q) async_state \<Rightarrow> (test_future, 'q) async_state \<Rightarrow> bool"
where
  "rearmed C K s s' \<longleftrightarrow> length (as_tasks s') = length (as_tasks s) \<and>
     length (as_timers s) \<le> length (as_timers s') \<and> pos_tsc (as_clock s) \<le> pos_tsc (as_clock s') \<and>
     (\<forall>tid<length (as_timers s). as_timers s' ! tid = as_timers s ! tid) \<and>
     (\<forall>k. k \<notin> K \<longrightarrow> as_tasks s' ! k = as_tasks s ! k) \<and>
     (\<forall>k\<in>K. \<exists>f t p tid. as_tasks s ! k = Some f \<and> as_tasks s' ! k = Some (Test_Wait (test_duration f) tid) \<and>
        length (as_timers s) \<le> tid \<and> tid < length (as_timers s') \<and> clock_reading C (as_clock s) t p \<and>
        ss_expired_monotonic (as_timers s' ! tid) = t + test_duration f)"

lemma rearmed_arm:
  assumes "as_tasks s ! k = Some f" "k < length (as_tasks s)" "clock_reading C (as_clock s) t p"
  shows "rearmed C {k} s (arm t p k (test_duration f) q1 q2 s)"
  using assms less_imp_le [OF clock_reading_later [OF assms(3)]] by (auto simp: rearmed_def arm_def nth_append)

lemma rearmed_trans:
  assumes 1: "rearmed C K s s'" and 2: "rearmed C L s' s''" and "K \<inter> L = {}"
  shows "rearmed C (K \<union> L) s s''"
proof -
  have "\<exists>f t p tid. as_tasks s ! k = Some f \<and> as_tasks s'' ! k = Some (Test_Wait (test_duration f) tid) \<and>
        length (as_timers s) \<le> tid \<and> tid < length (as_timers s'') \<and> clock_reading C (as_clock s) t p \<and>
        ss_expired_monotonic (as_timers s'' ! tid) = t + test_duration f" if "k \<in> K \<union> L" for k
  proof (cases "k \<in> K")
    case True
    then have "as_tasks s'' ! k = as_tasks s' ! k" using assms by (auto simp: rearmed_def)
    moreover obtain f t p tid where "as_tasks s ! k = Some f" "as_tasks s' ! k = Some (Test_Wait (test_duration f) tid)"
      "length (as_timers s) \<le> tid" "tid < length (as_timers s')" "clock_reading C (as_clock s) t p"
      "ss_expired_monotonic (as_timers s' ! tid) = t + test_duration f"
      using 1 True by (auto simp: rearmed_def)
    ultimately show ?thesis using 2 by (intro exI [of _ f] exI [of _ t] exI [of _ p] exI [of _ tid]) (auto simp: rearmed_def)
  next
    case False
    then have L: "k \<in> L" and same: "as_tasks s' ! k = as_tasks s ! k" using that 1 by (auto simp: rearmed_def)
    obtain f t p tid where r: "as_tasks s' ! k = Some f" "as_tasks s'' ! k = Some (Test_Wait (test_duration f) tid)"
      "length (as_timers s') \<le> tid" "tid < length (as_timers s'')" "clock_reading C (as_clock s') t p"
      "ss_expired_monotonic (as_timers s'' ! tid) = t + test_duration f"
      using 2 L unfolding rearmed_def by blast
    have "clock_reading C (as_clock s) t p" using clock_reading_trans [OF _ r(5)] 1 by (simp add: rearmed_def)
    moreover have "as_tasks s ! k = Some f" using same r(1) by simp
    ultimately show ?thesis using 1 r by (intro exI [of _ f] exI [of _ t] exI [of _ p] exI [of _ tid]) (auto simp: rearmed_def)
  qed
  then show ?thesis using 1 2 by (auto simp: rearmed_def)
qed

context array_queue
begin

lemma run_tasks_correct:
  assumes "ok s" "clock_live C"
  shows "\<exists>s'. run_tasks Q C s = Some (Inr s') \<and> ok s' \<and> items (as_queue s') = [] \<and>
    rearmed C (set (items (as_queue s))) s s'"
  using assms(1)
proof (induction "items (as_queue s)" arbitrary: s)
  case Nil
  then have "qo_pop Q (as_queue s) = None" by (simp add: async_inv_def pop_Nil)
  then have "run_tasks Q C s = Some (Inr s)" by (subst executor_run.simps) simp
  then show ?case using Nil by (simp add: rearmed_def)
next
  case (Cons k ks)
  have k: "items (as_queue s) = k # ks" "inv (as_queue s)" "k < length (as_tasks s)" "k \<notin> set ks"
    using Cons.hyps(2) Cons.prems by (auto simp: async_inv_def dest: sym)
  obtain q2 where q2: "qo_pop Q (as_queue s) = Some (k, q2)" "inv q2" "items q2 = ks"
    using pop_Cons [OF k(2,1)] by blast
  obtain f q1 t p where f: "as_tasks s ! k = Some f"
    and run: "run_task (test_poll Q C) k (s\<lparr>as_queue := q2\<rparr>) = Some (Inr (arm t p k (test_duration f) q1 q2 s))"
    and t: "clock_reading C (as_clock s) t p" and q1: "inv q1" "items q1 = items (as_registered s) @ [length (as_timers s)]"
    using run_task_arms [OF Cons.prems k(1) q2(2,3) assms(2)] by blast
  let ?s = "arm t p k (test_duration f) q1 q2 s"
  have "ok ?s" using arm_keeps [OF Cons.prems k(1) q2(2,3) q1] .
  moreover have ks: "items (as_queue ?s) = ks" using q2 by (simp add: arm_def)
  ultimately obtain s' where s': "run_tasks Q C ?s = Some (Inr s')" "ok s'" "items (as_queue s') = []" "rearmed C (set ks) ?s s'"
    using Cons.hyps(1) [of ?s] by auto
  have "run_tasks Q C s = Some (Inr s')"
    using s'(1) run q2(1) by (subst executor_run.simps) simp
  moreover have "rearmed C (set (items (as_queue s))) s s'"
    using rearmed_trans [OF rearmed_arm [OF f k(3) t] s'(4)] k(1,4) by simp
  ultimately show ?case using s' by blast
qed

text \<open>A timer interrupt followed by an iteration of the main loop, seen by one waiting task.\<close>

lemma tick_then_iterate:
  assumes ok: "ok s" and k: "k < length (as_tasks s)" and w: "as_tasks s ! k = Some (Test_Wait d tid)"
    and idle: "k \<notin> set (items (as_queue s))" and live: "clock_live C"
  shows "\<exists>now p s1 s2. get_monotonic_time C (as_clock s) = Some (now, p) \<and>
    check_timerfutures Q C s = Some (Inr s1) \<and> run_tasks Q C s1 = Some (Inr s2) \<and>
    (if timer_due now (as_timers s) tid
     then \<exists>t p' tid'. as_tasks s2 ! k = Some (Test_Wait d tid') \<and> length (as_timers s) \<le> tid' \<and>
       clock_reading C p t p' \<and> ss_expired_monotonic (as_timers s2 ! tid') = t + d
     else as_tasks s2 ! k = Some (Test_Wait d tid) \<and> as_timers s2 ! tid = as_timers s ! tid)"
proof -
  note wt = waiting_task [OF ok k w idle]
  obtain now p where now: "get_monotonic_time C (as_clock s) = Some (now, p)" using get_monotonic_time_live [OF live] by blast
  let ?due = "timer_due now (as_timers s)"
  obtain s1 where s1: "check_timerfutures Q C s = Some (Inr s1)" "ok s1" "as_tasks s1 = as_tasks s"
    "as_timers s1 = fire_all now (items (as_registered s)) (as_timers s)"
    "items (as_queue s1) = items (as_queue s) @ map (owner s) (filter ?due (items (as_registered s)))" "as_clock s1 = p"
    using interrupt_keeps [OF ok now] by blast
  obtain s2 where s2: "run_tasks Q C s1 = Some (Inr s2)" "rearmed C (set (items (as_queue s1))) s1 s2"
    using run_tasks_correct [OF s1(2) live] by blast
  have woken: "k \<in> set (items (as_queue s1)) \<longleftrightarrow> ?due tid"
    using idle wt(4) [of ?due] by (simp add: s1(5))
  show ?thesis
  proof (cases "?due tid")
    case True
    then obtain f t p' tid' where "as_tasks s1 ! k = Some f" "as_tasks s2 ! k = Some (Test_Wait (test_duration f) tid')"
      "length (as_timers s1) \<le> tid'" "clock_reading C (as_clock s1) t p'" "ss_expired_monotonic (as_timers s2 ! tid') = t + test_duration f"
      using woken s2(2) unfolding rearmed_def by blast
    then have "as_tasks s2 ! k = Some (Test_Wait d tid')" "length (as_timers s) \<le> tid'" "clock_reading C p t p'"
      "ss_expired_monotonic (as_timers s2 ! tid') = t + d"
      using w by (auto simp: s1)
    then show ?thesis using True s1(1) s2(1) now by auto
  next
    case False
    then have "as_tasks s2 ! k = Some (Test_Wait d tid)" "as_timers s2 ! tid = as_timers s ! tid"
      using woken s2(2) w wt(3) by (simp_all add: rearmed_def s1 nth_fire_all)
    then show ?thesis using False s1(1) s2(1) now by auto
  qed
qed

lemma task_wake_room:
  assumes "inv (as_queue s)" "length (items (as_queue s)) < cap"
  shows "\<exists>q. task_wake Q k s = Inr (s\<lparr>as_queue := q\<rparr>) \<and> inv q \<and> items q = items (as_queue s) @ [k]"
  using push_room [OF assms, of k] by (auto simp: task_wake_def)

lemma spawn_ok:
  assumes "inv e" "items e = []" "2 \<le> cap"
  shows "\<exists>s. spawn_test_tasks Q ((executor_new e e)\<lparr>as_clock := p\<rparr>) = Inr s \<and> ok s \<and>
    as_tasks s = [Some (Test_Start 5000000000), Some (Test_Start 8000000000)]"
proof -
  let ?s = "(executor_new e e)\<lparr>as_clock := p, as_tasks := [Some (Test_Start 5000000000)]\<rparr>"
  obtain q where q: "task_wake Q 0 ?s = Inr (?s\<lparr>as_queue := q\<rparr>)" "inv q" "items q = [0]"
    using task_wake_room [of ?s 0] assms by (auto simp: executor_new_def)
  let ?s' = "?s\<lparr>as_queue := q, as_tasks := [Some (Test_Start 5000000000), Some (Test_Start 8000000000)]\<rparr>"
  obtain q' where q': "task_wake Q 1 ?s' = Inr (?s'\<lparr>as_queue := q'\<rparr>)" "inv q'" "items q' = [0, 1]"
    using task_wake_room [of ?s' 1] q(2,3) assms(3) by auto
  have "ok (?s'\<lparr>as_queue := q'\<rparr>)"
    using assms q'(2,3) by (auto simp: async_inv_def task_ok_def executor_new_def less_Suc_eq)
  then show ?thesis
    using q q' by (simp add: spawn_test_tasks_def executor_spawn_def executor_new_def)
qed

end

section \<open>The running kernel\<close>

text \<open>
  From the state in which the tasks are spawned, with any part of the clock read: runs of the executor, as the
  iterations of the main loop make them, and timer interrupts.
\<close>

inductive async_reach ::
  "'q queue_ops \<Rightarrow> clock_source \<Rightarrow> 'q \<Rightarrow> (test_future, 'q) async_state \<Rightarrow> bool"
  for Q C e
where
  spawned: "spawn_test_tasks Q ((executor_new e e)\<lparr>as_clock := p\<rparr>) = Inr s \<Longrightarrow> async_reach Q C e s"
| iteration: "async_reach Q C e s \<Longrightarrow> run_tasks Q C s = Some (Inr s') \<Longrightarrow> async_reach Q C e s'"
| interrupt: "async_reach Q C e s \<Longrightarrow> check_timerfutures Q C s = Some (Inr s') \<Longrightarrow> async_reach Q C e s'"

lemma async_reach_inv:
  assumes queue: "array_queue Q items qinv cap" "2 \<le> cap" "qinv e" "items e = []" and live: "clock_live C"
    and "async_reach Q C e s"
  shows "async_inv items qinv cap s \<and> length (as_tasks s) = 2"
  using assms(6)
proof (induction rule: async_reach.induct)
  case (spawned p s)
  then show ?case using array_queue.spawn_ok [OF queue(1,3,4,2), of p] by auto
next
  case (iteration s s')
  then show ?case
    using array_queue.run_tasks_correct [OF queue(1) _ live, of s] by (auto simp: rearmed_def)
next
  case (interrupt s s')
  obtain now p where "get_monotonic_time C (as_clock s) = Some (now, p)" using get_monotonic_time_live [OF live] by blast
  then show ?case
    using array_queue.interrupt_keeps [OF queue(1), of s C now p] interrupt by auto
qed

lemma async_reach_returns:
  assumes "array_queue Q items qinv cap" "2 \<le> cap" "qinv e" "items e = []" "clock_live C" "async_reach Q C e s"
  shows "\<exists>s'. check_timerfutures Q C s = Some (Inr s')" "\<exists>s'. run_tasks Q C s = Some (Inr s') \<and> items (as_queue s') = []"
proof -
  have inv: "async_inv items qinv cap s" using async_reach_inv [OF assms] by simp
  obtain now p where "get_monotonic_time C (as_clock s) = Some (now, p)" using get_monotonic_time_live [OF assms(5)] by blast
  then show "\<exists>s'. check_timerfutures Q C s = Some (Inr s')" using array_queue.interrupt_keeps [OF assms(1) inv] by blast
  show "\<exists>s'. run_tasks Q C s = Some (Inr s') \<and> items (as_queue s') = []"
    using array_queue.run_tasks_correct [OF assms(1) inv assms(5)] by blast
qed

text \<open>
  C30. No task is lost and nothing panics or hangs, in whatever order iterations of the main loop and timer
  interrupts follow each other and whatever the clock shows, as long as the hypervisor again and again leaves
  its structures alone for two successive readings: each of the two tasks is queued or waits for a
  registered timer that has not fired and will wake it, every interrupt is handled, and every run of the executor
  returns with an empty task queue.  The output of the tasks to the console is not part of the model.
\<close>

theorem tasks_never_lost:
  assumes "array_queue Q items qinv cap" "2 \<le> cap" "qinv e" "items e = []" "clock_live C" "async_reach Q C e s"
  shows "length (as_tasks s) = 2 \<and> (\<forall>k<2. task_ok items s k) \<and>
    (\<exists>s'. check_timerfutures Q C s = Some (Inr s')) \<and>
    (\<exists>s'. executor_run (test_poll Q C) Q s = Some (Inr s') \<and> items (as_queue s') = [])"
proof -
  have inv: "async_inv items qinv cap s" "length (as_tasks s) = 2" using async_reach_inv [OF assms] by simp_all
  then have "\<forall>k<2. task_ok items s k" by (simp add: async_inv_def)
  then show ?thesis using inv(2) async_reach_returns [OF assms] by blast
qed

text \<open>
  C31. Timers fire when they are due and not before: after a timer interrupt and a run of the executor
  a task whose timer had expired at the time that the interrupt read waits for a new timer that expires its duration
  after a later reading of the clock, and a task whose timer had not expired still waits for it.
\<close>

theorem timers_wake_tasks:
  assumes "array_queue Q items qinv cap" "2 \<le> cap" "qinv e" "items e = []" "clock_live C" "async_reach Q C e s"
    and "k < 2" "as_tasks s ! k = Some (Test_Wait d tid)" "k \<notin> set (items (as_queue s))"
  shows "\<exists>now p s1 s2. get_monotonic_time C (as_clock s) = Some (now, p) \<and>
    check_timerfutures Q C s = Some (Inr s1) \<and> executor_run (test_poll Q C) Q s1 = Some (Inr s2) \<and>
    (if timer_due now (as_timers s) tid
     then \<exists>t p' tid'. as_tasks s2 ! k = Some (Test_Wait d tid') \<and> length (as_timers s) \<le> tid' \<and>
       clock_reading C p t p' \<and> ss_expired_monotonic (as_timers s2 ! tid') = t + d
     else as_tasks s2 ! k = Some (Test_Wait d tid) \<and> as_timers s2 ! tid = as_timers s ! tid)"
  using array_queue.tick_then_iterate [OF assms(1)] async_reach_inv [OF assms(1-6)] assms(5,7-9) by simp

section \<open>Witnesses on the ring buffer of the kernel\<close>

text \<open>A clock that the hypervisor updates at every third reading; it stands still otherwise.\<close>

definition busy_clock :: clock_source where
  "busy_clock = \<lparr>src_tsc = (\<lambda>n. of_nat n * 3000000000),
     src_info = (\<lambda>i. pvclock_vcpu_time_info_new\<lparr>pvc_version := 2 * of_nat (i div 3), pvc_tsc_to_system_mul := 0x80000000, pvc_tsc_shift := 1\<rparr>),
     src_wall = (\<lambda>_. pvclock_wall_clock_new)\<rparr>"

lemma busy_clock_live: "clock_live busy_clock"
proof -
  have even: "(2 * x :: u32) AND 1 = 0" "(2 * x :: u32) AND NOT 1 = 2 * x" for x
  proof -
    have p: "2 * x = push_bit 1 x" by (simp add: push_bit_eq_mult)
    show "(2 * x :: u32) AND 1 = 0" "(2 * x :: u32) AND NOT 1 = 2 * x"
      unfolding p by (rule bit_word_eqI, auto simp: bit_simps simp del: push_bit_Suc push_bit_of_1)+
  qed
  have quiet: "quiet_info (src_info busy_clock) i" if "i mod 3 < 2" for i
  proof -
    have "(i + 1) div 3 = i div 3" using that by presburger
    then show ?thesis by (simp add: quiet_info_def busy_clock_def even(1) even(2) [simplified])
  qed
  have "\<exists>k. (i + 2 * k) mod 3 < 2" for i :: nat
    by (cases "i mod 3 < 2") (auto intro: exI [of _ 0] exI [of _ 1], presburger)
  moreover have "quiet_wall (src_wall busy_clock) i" for i
    by (simp add: quiet_wall_def busy_clock_def pvclock_wall_clock_new_def)
  ultimately show ?thesis unfolding clock_live_def using quiet by blast
qed

lemma ring_reach_waiting:
  "\<exists>s tid. async_reach ring_ops busy_clock ring_new s \<and> as_tasks s ! 0 = Some (Test_Wait 5000000000 tid) \<and>
     0 \<notin> set (ring_items (as_queue s))"
proof -
  have cap: "2 \<le> ringbuf_length - 1" by (simp add: ringbuf_length_def)
  obtain p s0 where s0: "spawn_test_tasks ring_ops ((executor_new ring_new ring_new)\<lparr>as_clock := p\<rparr>) = Inr s0"
    "async_inv ring_items ring_inv (ringbuf_length - 1) s0"
    "as_tasks s0 = [Some (Test_Start 5000000000), Some (Test_Start 8000000000)]"
    using ringa.spawn_ok [OF ring_inv_new ring_items_new cap] by blast
  obtain s where s: "run_tasks ring_ops busy_clock s0 = Some (Inr s)" "ring_items (as_queue s) = []"
    "rearmed busy_clock (set (ring_items (as_queue s0))) s0 s"
    using ringa.run_tasks_correct [OF s0(2) busy_clock_live] by blast
  have "task_ok ring_items s0 0" using s0(2,3) by (simp add: async_inv_def)
  then have "0 \<in> set (ring_items (as_queue s0))" by (simp add: task_ok_def s0(3))
  then obtain f tid where "as_tasks s0 ! 0 = Some f" "as_tasks s ! 0 = Some (Test_Wait (test_duration f) tid)"
    using s(3) unfolding rearmed_def by blast
  then have "as_tasks s ! 0 = Some (Test_Wait 5000000000 tid)" by (auto simp: s0(3))
  moreover have "async_reach ring_ops busy_clock ring_new s"
    using async_reach.iteration [OF async_reach.spawned [OF s0(1)] s(1)] .
  ultimately show ?thesis using s(2) by auto
qed

theorem tasks_never_lost_witness:
  "\<exists>s. async_reach ring_ops busy_clock ring_new s \<and> length (as_tasks s) = 2 \<and> task_ok ring_items s 0"
proof -
  obtain s where s: "async_reach ring_ops busy_clock ring_new s" using ring_reach_waiting by blast
  then show ?thesis
    using tasks_never_lost [OF ringa.array_queue_axioms _ ring_inv_new ring_items_new busy_clock_live s] by (auto simp: ringbuf_length_def)
qed

theorem timers_wake_tasks_witness:
  "\<exists>s s1 s2. async_reach ring_ops busy_clock ring_new s \<and> check_timerfutures ring_ops busy_clock s = Some (Inr s1) \<and>
     executor_run (test_poll ring_ops busy_clock) ring_ops s1 = Some (Inr s2)"
proof -
  obtain s tid where s: "async_reach ring_ops busy_clock ring_new s" "as_tasks s ! 0 = Some (Test_Wait 5000000000 tid)"
    "0 \<notin> set (ring_items (as_queue s))" using ring_reach_waiting by blast
  then show ?thesis
    using timers_wake_tasks [OF ringa.array_queue_axioms _ ring_inv_new ring_items_new busy_clock_live s(1) _ s(2,3)]
    by (auto simp: ringbuf_length_def)
qed

end
