(* ===== verification/Interrupt_Laws.thy ===== *)
theory Interrupt_Laws
  imports Interrupts Async_Laws
begin

text \<open>
  What the interrupt code of \<^verbatim>\<open>Interrupts\<close> achieves: a handler that was set is the one that runs for
  its vector, every interrupt is ended exactly once, the descriptor table leads each vector to its stub,
  and the timer runs at the rate it is meant to.  The registers of the I/O APIC are read off the log of
  accesses by the documented indirection: a write selects a register, the next one sets it.
\<close>

section \<open>The registers of the I/O APIC\<close>

fun ioapic_step :: "u8 \<times> (u8 \<Rightarrow> u32) \<Rightarrow> io_event \<Rightarrow> u8 \<times> (u8 \<Rightarrow> u32)" where
  "ioapic_step (sel, regs) (Mem_Write a v) =
     (if a = 0xfec00000 then (ucast v, regs) else if a = 0xfec00010 then (sel, regs(sel := v)) else (sel, regs))"
| "ioapic_step st _ = st"

definition ioapic_regs :: "io_log \<Rightarrow> u8 \<Rightarrow> u32" where
  "ioapic_regs l = snd (foldl ioapic_step (0, \<lambda>_. 0) l)"

lemma ioapic_regs_write: "ioapic_regs (ioapic_write reg data l) = (ioapic_regs l)(reg := data)"
  by (cases "foldl ioapic_step (0, \<lambda>_. 0) l") (simp add: ioapic_regs_def ioapic_write_def low_byte_ucast)

lemma reg_low_high: "ioapic_reg_low n \<noteq> ioapic_reg_high n"
  by (simp add: ioapic_reg_low_def ioapic_reg_high_def)

lemma ioapic_regs_enable:
  "ioapic_regs (enable_irq irq l) = (ioapic_regs l)(ioapic_reg_high irq := 0, ioapic_reg_low irq := 48 + ucast irq)"
  by (simp add: enable_irq_def ioapic_regs_write)

section \<open>Ending an interrupt\<close>

definition eoi_writes :: "io_log \<Rightarrow> nat" where
  "eoi_writes l = length (filter (\<lambda>e. e = Mem_Write 0xfee000b0 0) l)"

text \<open>
  The end of an interrupt is signalled once: through the hypervisor's bit of the processor when it
  is set, through the register of the local APIC otherwise.
\<close>

definition eoi_once :: "hardware \<Rightarrow> machine \<Rightarrow> machine \<Rightarrow> bool" where
  "eoi_once H m m' \<longleftrightarrow>
     (let i = unat (fst (get_lapic_id H (mc_io m))) in
      \<not> bit (mc_pv_eoi m' ! i) 0 \<and>
      eoi_writes (mc_io m') = eoi_writes (mc_io m) + (if bit (mc_pv_eoi m ! i) 0 then 0 else 1))"

lemma lapic_id_index: "unat (fst (get_lapic_id H l)) < 256"
  using unsigned_less [of "fst (get_lapic_id H l)", where 'a = nat] by simp

lemma ack_irq_once:
  assumes "length (mc_pv_eoi m) = 256"
  shows "\<exists>m'. ack_irq H m = Inr m' \<and> eoi_once H m (on_io disable_interrupt m') \<and> mc_idt m' = mc_idt m"
proof -
  let ?i = "unat (fst (get_lapic_id H (mc_io m)))"
  have i: "?i < length (mc_pv_eoi m)" using assms lapic_id_index by simp
  have "\<not> bit (w AND NOT 1) 0" for w :: u32 by (simp add: bit_simps)
  then show ?thesis
    using i by (simp add: ack_irq_def eoi_once_def get_lapic_id_def apic_read_def Let_def get_at_ok
      eoi_writes_def apic_write_def disable_interrupt_def io_disable_interrupt_def)
qed

text \<open>The way from a vector to the handler of its line.\<close>

lemma interrupt_runs_handler:
  assumes "length (k_handlers k) = 256" "length (mc_pv_eoi (k_machine k)) = 256" "unat irq < 208"
    and "k_handlers k ! unat irq = Some h"
  shows "\<exists>m. interrupt_handler E (48 + irq) k = handle_interrupt E h (k\<lparr>k_machine := m\<rparr>) \<and>
    eoi_once (en_hardware E) (k_machine k) m \<and> mc_idt m = mc_idt (k_machine k) \<and> length (mc_pv_eoi m) = 256"
proof -
  obtain m where m: "ack_irq (en_hardware E) (k_machine k) = Inr m" "mc_idt m = mc_idt (k_machine k)"
    "eoi_once (en_hardware E) (k_machine k) (on_io disable_interrupt m)"
    using ack_irq_once [OF assms(2)] by blast
  have len: "length (mc_pv_eoi m) = 256"
    using m(1) assms(2) by (auto simp: ack_irq_def get_lapic_id_def apic_read_def Let_def rbind_eq_Inr)
  have v: "unat (48 + irq) = 48 + unat irq" using assms(3) by (simp add: unat_add_nowrap)
  have "interrupt_handler E (48 + irq) k = irq_handler E irq k"
    using v by (simp add: interrupt_handler_def word_le_nat_alt)
  also have "\<dots> = handle_interrupt E h (k\<lparr>k_machine := on_io disable_interrupt m\<rparr>)"
    using m(1) assms(1,3,4) by (simp add: irq_handler_def get_handler_def get_at_ok)
  finally show ?thesis using m(2,3) len by (intro exI [of _ "on_io disable_interrupt m"]) simp
qed

text \<open>
  C13. A handler that is set is the handler that runs: after \<^verbatim>\<open>set_handler\<close> the I/O APIC sends the interrupt
  line of the handler, and no other line, to its vector, unmasked and to the first processor; the interrupt
  with that vector signals its end exactly once and runs exactly that handler.
\<close>

theorem irq_dispatch:
  assumes "length (k_handlers k) = 256" "length (mc_pv_eoi (k_machine k)) = 256" "unat (get_irq h) < 120"
  shows "\<exists>k' m. set_handler h k = Inr k' \<and>
    ioapic_regs (mc_io (k_machine k')) = (ioapic_regs (mc_io (k_machine k)))
      (ioapic_reg_high (get_irq h) := 0, ioapic_reg_low (get_irq h) := 48 + ucast (get_irq h)) \<and>
    eoi_once (en_hardware E) (k_machine k') m \<and>
    interrupt_handler E (48 + get_irq h) k' = handle_interrupt E h (k'\<lparr>k_machine := m\<rparr>)"
proof -
  let ?irq = "get_irq h"
  define k' where "k' = k\<lparr>k_handlers := (k_handlers k)[unat ?irq := Some h], k_machine := on_io (enable_irq ?irq) (k_machine k)\<rparr>"
  have "set_handler h k = Inr k'" using assms by (simp add: set_handler_def set_at_ok k'_def Let_def)
  moreover obtain m where "interrupt_handler E (48 + ?irq) k' = handle_interrupt E h (k'\<lparr>k_machine := m\<rparr>)"
    "eoi_once (en_hardware E) (k_machine k') m"
    using interrupt_runs_handler [of k' ?irq h E] assms by (auto simp: k'_def)
  ultimately show ?thesis
    by (intro exI [of _ k'] exI [of _ m]) (simp add: k'_def ioapic_regs_enable)
qed

section \<open>The descriptor table\<close>

definition idt_target :: "idt_entry \<Rightarrow> u64" where
  "idt_target e = ucast (idt_offsetl e) OR push_bit 16 (ucast (idt_offsetm e)) OR push_bit 32 (ucast (idt_offseth e))"

lemma idt_set_offset_target:
  "idt_target (idt_set_offset off e) = off" "idt_attribute (idt_set_offset off e) = 0x8e" "idt_selector (idt_set_offset off e) = 8"
proof -
  have masks: "(0x000000000000ffff :: u64) = mask 16" "(0x00000000ffff0000 :: u64) = push_bit 16 (mask 16)"
    "(0xffffffff00000000 :: u64) = push_bit 32 (mask 32)"
    by (simp_all add: mask_eq_exp_minus_1)
  have parts: "ucast (drop_bit 0 (off AND 0x000000000000ffff)) = (ucast off :: u16)"
    "ucast (drop_bit 16 (off AND 0x00000000ffff0000)) = (ucast (drop_bit 16 off) :: u16)"
    "ucast (drop_bit 32 (off AND 0xffffffff00000000)) = (ucast (drop_bit 32 off) :: u32)"
    unfolding masks by (rule bit_word_eqI, auto simp: bit_simps)+
  show "idt_target (idt_set_offset off e) = off"
    unfolding idt_target_def idt_set_offset_def by (simp only: idt_entry.simps parts) (rule bit_word_eqI, rename_tac n, case_tac "n < 32", auto simp: bit_simps)
qed (simp_all add: idt_set_offset_def)

lemma idt_install_entries:
  assumes "length (mc_idt m) = 256" "i < 256"
  shows "mc_idt (idt_install stubs a m) ! i = idt_set_offset (stubs + 16 * of_nat i) (mc_idt m ! i)"
proof -
  let ?f = "\<lambda>i idt. idt[i := idt_set_offset (stubs + 16 * of_nat i) (idt ! i)]"
  have "length (fold ?f [0..<n] idt) = length idt \<and>
      (i < length idt \<longrightarrow> fold ?f [0..<n] idt ! i = (if i < n then idt_set_offset (stubs + 16 * of_nat i) (idt ! i) else idt ! i))"
    for n idt by (induction n) (auto simp: nth_list_update less_Suc_eq)
  then show ?thesis using assms by (simp add: idt_install_def Let_def)
qed

section \<open>The registers of the local APIC\<close>

text \<open>The last value that a log writes to an address of memory.\<close>

fun last_write :: "u64 \<Rightarrow> io_log \<Rightarrow> u32 option" where
  "last_write a [] = None"
| "last_write a (Mem_Write b v # l) = (case last_write a l of Some w \<Rightarrow> Some w | None \<Rightarrow> if b = a then Some v else None)"
| "last_write a (_ # l) = last_write a l"

lemma last_write_append:
  "last_write a (l @ l') = (case last_write a l' of Some w \<Rightarrow> Some w | None \<Rightarrow> last_write a l)"
  by (induction a l rule: last_write.induct) (auto split: option.split)

lemma last_write_ioapic:
  "a \<noteq> 0xfec00000 \<Longrightarrow> a \<noteq> 0xfec00010 \<Longrightarrow> last_write a (ioapic_write reg data l) = last_write a l"
  by (simp add: ioapic_write_def last_write_append)

text \<open>The loop of the calibration ends as soon as the counter has gone down far enough.\<close>

definition timer_runs :: "hardware \<Rightarrow> io_log \<Rightarrow> bool" where
  "timer_runs H l \<longleftrightarrow> (\<exists>n. hw_mem H (l @ replicate n (Mem_Read 0xfee00390)) 0xfee00390 < 0xfff00000)"

lemma timer_wait_returns:
  assumes "timer_runs H l"
  shows "\<exists>n. timer_wait H l = Some (l @ replicate n (Mem_Read 0xfee00390))"
proof -
  obtain n where "hw_mem H (l @ replicate n (Mem_Read 0xfee00390)) 0xfee00390 < 0xfff00000"
    using assms by (auto simp: timer_runs_def)
  then show ?thesis
  proof (induction n arbitrary: l)
    case 0
    then have "timer_wait H l = Some (l @ replicate 1 (Mem_Read 0xfee00390))"
      by (subst timer_wait.simps) (simp add: apic_read_def)
    then show ?case by blast
  next
    case (Suc n)
    let ?l = "l @ [Mem_Read 0xfee00390]"
    have "hw_mem H (?l @ replicate n (Mem_Read 0xfee00390)) 0xfee00390 < 0xfff00000"
      using Suc.prems by (simp add: replicate_app_Cons_same)
    then obtain k where "timer_wait H ?l = Some (?l @ replicate k (Mem_Read 0xfee00390))" using Suc.IH by blast
    then have "timer_wait H l = Some (l @ replicate (if hw_mem H l 0xfee00390 < 0xfff00000 then 1 else Suc k) (Mem_Read 0xfee00390))"
      by (subst timer_wait.simps) (simp add: apic_read_def)
    then show ?case by blast
  qed
qed

lemma last_write_reads: "last_write a (replicate n (Mem_Read b)) = None"
  by (induction n) simp_all

text \<open>The number that the calibration writes into the counter of the timer.\<close>

definition timer_count :: "u64 \<Rightarrow> u64 \<Rightarrow> u32" where
  "timer_count before after = of_nat (2000000 * 0xfffff div unat (after - before))"

lemma timer_start_ok:
  assumes "before < after"
  shows "timer_start before after l =
    Inr (l @ [Mem_Write 0xfee00380 (timer_count before after), Mem_Write 0xfee00320 0x20030])"
proof -
  have "(2000000 * 0xfffff :: u64) div (after - before) = of_nat (2000000 * 0xfffff div unat (after - before))"
    by (simp add: word_arith_nat_div)
  moreover have "ucast (of_nat n :: u64) = (of_nat n :: u32)" for n
    by (rule bit_word_eqI) (simp add: bit_simps)
  ultimately show ?thesis
    using assms by (simp add: timer_start_def timer_count_def apic_write_def)
qed

lemma timer_start_late: "\<not> before < after \<Longrightarrow> timer_start before after l = Inl Assert_failed"
  by (simp add: timer_start_def)

abbreviation calibration_log :: "hardware \<Rightarrow> machine \<Rightarrow> io_log" where
  "calibration_log H m \<equiv> apic_enable_local H (mc_io m) @ [Mem_Write 0xfee00380 0xffffffff, Mem_Write 0xfee003e0 3]"

lemma timer_calibrate_eq:
  assumes "get_monotonic_time C p = Some (before, p1)" "get_monotonic_time C p1 = Some (after, p2)"
    and "timer_wait H (l @ [Mem_Write 0xfee00380 0xffffffff, Mem_Write 0xfee003e0 3]) = Some l'"
  shows "timer_calibrate H C (l, p) = Some (rbind (timer_start before after l') (\<lambda>l. Inr (l, p2)))"
  using assms by (simp add: timer_calibrate_def apic_write_def)

section \<open>Masking every interrupt line\<close>

lemma reg_low_even: "\<not> bit (ioapic_reg_low n) 0" and reg_high_odd: "bit (ioapic_reg_high n) 0"
  by (simp_all add: ioapic_reg_low_def ioapic_reg_high_def bit_0)

lemma ioapic_masks:
  assumes "n < k"
  shows "ioapic_regs (fold (\<lambda>i l. ioapic_write (ioapic_reg_low (of_nat i)) (rust_shl 1 16)
      (ioapic_write (ioapic_reg_high (of_nat i)) 0 l)) [0..<k] l) (ioapic_reg_low (of_nat n)) = 0x10000"
  using assms
proof (induction k)
  case (Suc k)
  have "ioapic_reg_low (of_nat n) \<noteq> ioapic_reg_high (of_nat k)" using reg_low_even reg_high_odd by metis
  then show ?case using Suc by (auto simp: ioapic_regs_write less_Suc_eq rust_shl_def)
qed simp

lemma ioapic_masks_keep:
  assumes "a \<noteq> 0xfec00000" "a \<noteq> 0xfec00010"
  shows "last_write a (fold (\<lambda>i l. ioapic_write (ioapic_reg_low (of_nat i)) (rust_shl 1 16)
      (ioapic_write (ioapic_reg_high (of_nat i)) 0 l)) [0..<k] l) = last_write a l"
  by (induction k) (simp_all add: last_write_ioapic assms)

lemma ack_irq_keeps:
  assumes "ack_irq H m = Inr m'"
  shows "mc_idt m' = mc_idt m" "mc_idtr m' = mc_idtr m" "ioapic_regs (mc_io m') = ioapic_regs (mc_io m)"
    "a \<noteq> 0xfee000b0 \<Longrightarrow> last_write a (mc_io m') = last_write a (mc_io m)" "length (mc_pv_eoi m') = length (mc_pv_eoi m)"
proof -
  have "ioapic_regs (l @ [Mem_Read b]) = ioapic_regs l" "ioapic_regs (l @ [Mem_Write 0xfee000b0 0]) = ioapic_regs l"
    "ioapic_regs (l @ [Mem_Read b, Mem_Write 0xfee000b0 0]) = ioapic_regs l" for l b
    by (cases "foldl ioapic_step (0, \<lambda>_. 0) l"; simp add: ioapic_regs_def)+
  then show "mc_idt m' = mc_idt m" "mc_idtr m' = mc_idtr m" "ioapic_regs (mc_io m') = ioapic_regs (mc_io m)"
    "a \<noteq> 0xfee000b0 \<Longrightarrow> last_write a (mc_io m') = last_write a (mc_io m)" "length (mc_pv_eoi m') = length (mc_pv_eoi m)"
    using assms by (auto simp: ack_irq_def get_lapic_id_def apic_read_def apic_write_def Let_def rbind_eq_Inr last_write_append)
qed

lemma ioapic_init_ok:
  assumes "length (mc_pv_eoi m) = 256" and ver: "\<And>l. fst (ioapic_read H 1 l) = ver"
  shows "\<exists>m'. ioapic_init H m = Inr m' \<and> mc_idt m' = mc_idt m \<and> mc_idtr m' = mc_idtr m \<and> length (mc_pv_eoi m') = 256 \<and>
    (\<forall>n \<le> unat (drop_bit 16 ver). ioapic_regs (mc_io m') (ioapic_reg_low (of_nat n)) = 0x10000) \<and>
    (\<forall>a. a \<notin> {0xfec00000, 0xfec00010, 0xfee000b0} \<longrightarrow> last_write a (mc_io m') = last_write a (mc_io m))"
proof -
  obtain l where l: "ioapic_read H 1 (outb 0x23 1 (outb 0x22 0x70 (mc_io m))) = (ver, l)"
    using ver by (metis prod.collapse)
  have keep: "last_write a l = last_write a (mc_io m)" if "a \<noteq> 0xfec00000" for a
    using l that by (auto simp: ioapic_read_def outb_def Let_def last_write_append)
  let ?k = "unat (drop_bit 16 ver + 1)"
  have "unat (drop_bit 16 ver) < 2 ^ 16" using unsigned_less [of ver, where 'a = nat] by (simp add: unat_drop_bit less_mult_imp_div_less)
  then have k: "?k = Suc (unat (drop_bit 16 ver))" by (simp add: unat_add_nowrap)
  define l' where "l' = fold (\<lambda>i l. ioapic_write (ioapic_reg_low (of_nat i)) (rust_shl 1 16)
      (ioapic_write (ioapic_reg_high (of_nat i)) 0 l)) [0..<?k] l"
  have eq: "ioapic_init H m = ack_irq H (m\<lparr>mc_io := l'\<rparr>)" using l by (simp add: ioapic_init_def l'_def Let_def)
  obtain m' where m': "ack_irq H (m\<lparr>mc_io := l'\<rparr>) = Inr m'" using ack_irq_once [of "m\<lparr>mc_io := l'\<rparr>" H] assms(1) by auto
  have "ioapic_regs l' (ioapic_reg_low (of_nat n)) = 0x10000" if "n \<le> unat (drop_bit 16 ver)" for n
    using that ioapic_masks [of n ?k l] by (simp add: l'_def k)
  moreover have "last_write a l' = last_write a (mc_io m)" if "a \<noteq> 0xfec00000" "a \<noteq> 0xfec00010" for a
    using that ioapic_masks_keep [of a ?k l] keep by (simp add: l'_def)
  ultimately show ?thesis using eq m' ack_irq_keeps [OF m'] assms(1) by auto
qed

section \<open>Initialisation\<close>

lemma timer_count_value:
  assumes "489 \<le> unat (after - before)"
  shows "unat (timer_count before after) * unat (after - before) \<le> 2000000 * 0xfffff \<and>
    2000000 * 0xfffff < Suc (unat (timer_count before after)) * unat (after - before)"
proof -
  let ?d = "unat (after - before)"
  have "(2000000 * 0xfffff) div ?d \<le> 2000000 * 0xfffff div 489" using assms by (intro div_le_mono2) simp_all
  then have "unat (timer_count before after) = 2000000 * 0xfffff div ?d"
    by (simp add: timer_count_def unat_of_nat_small)
  moreover have "2000000 * 0xfffff div ?d * ?d \<le> 2000000 * 0xfffff" by (rule div_times_less_eq_dividend)
  moreover have "2000000 * 0xfffff < Suc (2000000 * 0xfffff div ?d) * ?d"
    using assms dividend_less_div_times [of ?d "2000000 * 0xfffff"] by (simp add: add.commute)
  ultimately show ?thesis by simp
qed

lemma pv_eoi_enable_keeps:
  "mc_idt (pv_eoi_enable H a m) = mc_idt m" "mc_idtr (pv_eoi_enable H a m) = mc_idtr m"
  "mc_pv_eoi (pv_eoi_enable H a m) = mc_pv_eoi m" "last_write b (mc_io (pv_eoi_enable H a m)) = last_write b (mc_io m)"
  by (simp_all add: pv_eoi_enable_def get_kvm_features_def get_lapic_id_def apic_read_def wrmsr_def Let_def last_write_append)

lemma idt_install_keeps:
  "mc_pv_eoi (idt_install stubs a m) = mc_pv_eoi m" "mc_idtr (idt_install stubs a m) = (4095, a)"
  "last_write b (mc_io (idt_install stubs a m)) = last_write b (mc_io m)"
  by (simp_all add: idt_install_def Let_def last_write_append)

lemma apic_init_ok:
  assumes "length (mc_idt m) = 256" "length (mc_pv_eoi m) = 256"
    and "timer_runs H (calibration_log H m)" "\<And>l. fst (ioapic_read H 1 l) = ver"
    and "get_monotonic_time C p = Some (before, p1)" "get_monotonic_time C p1 = Some (after, p2)"
    and "before < after" "489 \<le> unat (after - before)"
  shows "\<exists>m' count. apic_init H C stubs idt_addr pv_eoi_addr (m, p) = Some (Inr (m', p2)) \<and>
    (\<forall>i<256. idt_target (mc_idt m' ! i) = stubs + 16 * of_nat i \<and> idt_attribute (mc_idt m' ! i) = 0x8e \<and>
       idt_selector (mc_idt m' ! i) = 8) \<and>
    length (mc_pv_eoi m') = 256 \<and> mc_idtr m' = (4095, idt_addr) \<and>
    (\<forall>n \<le> unat (drop_bit 16 ver). ioapic_regs (mc_io m') (ioapic_reg_low (of_nat n)) = 0x10000) \<and>
    last_write 0xfee00320 (mc_io m') = Some (48 OR 0x20000) \<and> last_write 0xfee00380 (mc_io m') = Some count \<and>
    unat count * unat (after - before) \<le> 2000000 * 0xfffff \<and>
    2000000 * 0xfffff < Suc (unat count) * unat (after - before)"
proof -
  obtain n where wait: "timer_wait H (calibration_log H m) = Some (calibration_log H m @ replicate n (Mem_Read 0xfee00390))"
    using timer_wait_returns [OF assms(3)] by blast
  define l where "l = calibration_log H m @ replicate n (Mem_Read 0xfee00390) @
    [Mem_Write 0xfee00380 (timer_count before after), Mem_Write 0xfee00320 0x20030]"
  define m1 where "m1 = pv_eoi_enable H pv_eoi_addr (idt_install stubs idt_addr (m\<lparr>mc_io := l\<rparr>))"
  have cal: "timer_calibrate H C (apic_enable_local H (mc_io m), p) = Some (Inr (l, p2))"
    using timer_calibrate_eq [OF assms(5,6) wait] timer_start_ok [OF assms(7)] by (simp add: l_def)
  have m1: "length (mc_pv_eoi m1) = 256" "mc_idtr m1 = (4095, idt_addr)"
    "last_write 0xfee00380 (mc_io m1) = Some (timer_count before after)" "last_write 0xfee00320 (mc_io m1) = Some (48 OR 0x20000)"
    using assms(2) by (simp_all add: m1_def pv_eoi_enable_keeps idt_install_keeps l_def last_write_append)
  have idt: "mc_idt m1 ! i = idt_set_offset (stubs + 16 * of_nat i) (mc_idt m ! i)" if "i < 256" for i
    using that assms(1) idt_install_entries [of "m\<lparr>mc_io := l\<rparr>"] by (simp add: m1_def pv_eoi_enable_keeps)
  obtain m' where m': "ioapic_init H m1 = Inr m'" "mc_idt m' = mc_idt m1" "mc_idtr m' = mc_idtr m1" "length (mc_pv_eoi m') = 256"
    "\<forall>n \<le> unat (drop_bit 16 ver). ioapic_regs (mc_io m') (ioapic_reg_low (of_nat n)) = 0x10000"
    "\<forall>a. a \<notin> {0xfec00000, 0xfec00010, 0xfee000b0} \<longrightarrow> last_write a (mc_io m') = last_write a (mc_io m1)"
    using ioapic_init_ok [OF m1(1) assms(4)] by blast
  have "apic_init H C stubs idt_addr pv_eoi_addr (m, p) = Some (Inr (m', p2))"
    using cal m'(1) by (simp add: apic_init_def m1_def)
  then show ?thesis
    using m' m1 idt timer_count_value [OF assms(8)]
    by (intro exI [of _ m'] exI [of _ "timer_count before after"]) (simp add: idt_set_offset_target)
qed

text \<open>
  C37. The interrupt hardware is set up as intended: when the counter of the timer runs and the clock
  advances meanwhile, initialisation returns; every vector of the descriptor table leads to its own stub
  of sixteen bytes, the table register covers the 256 entries, every line of the I/O APIC is masked, and
  the timer counts to the number of its ticks in two milliseconds, rounded down, with vector 48.
\<close>

theorem apic_init_correct:
  assumes "length (mc_idt m) = 256" "length (mc_pv_eoi m) = 256"
    and "timer_runs H (calibration_log H m)" "\<And>l. fst (ioapic_read H 1 l) = ver"
    and "get_monotonic_time C p = Some (before, p1)" "get_monotonic_time C p1 = Some (after, p2)"
    and "before < after" "489 \<le> unat (after - before)"
  shows "\<exists>m' count. apic_init H C stubs idt_addr pv_eoi_addr (m, p) = Some (Inr (m', p2)) \<and>
    (\<forall>i<256. idt_target (mc_idt m' ! i) = stubs + 16 * of_nat i \<and> idt_attribute (mc_idt m' ! i) = 0x8e \<and>
       idt_selector (mc_idt m' ! i) = 8) \<and>
    mc_idtr m' = (4095, idt_addr) \<and>
    (\<forall>n \<le> unat (drop_bit 16 ver). ioapic_regs (mc_io m') (ioapic_reg_low (of_nat n)) = 0x10000) \<and>
    last_write 0xfee00320 (mc_io m') = Some (48 OR 0x20000) \<and> last_write 0xfee00380 (mc_io m') = Some count \<and>
    unat count * unat (after - before) \<le> 2000000 * 0xfffff \<and>
    2000000 * 0xfffff < Suc (unat count) * unat (after - before)"
  using apic_init_ok [OF assms] by blast

text \<open>
  A failing \<^verbatim>\<open>init_kvmclock\<close> is fatal although the kernel only reports it: when the hypervisor never
  fills in the clock structure, both readings of the calibration are 0 and the assertion of the
  initialisation fails.
\<close>

theorem apic_needs_kvmclock:
  assumes "timer_runs H (calibration_log H m)" "src_info C = (\<lambda>_. pvclock_vcpu_time_info_new)"
  shows "apic_init H C stubs idt_addr pv_eoi_addr (m, p) = Some (Inl Assert_failed)"
proof -
  obtain l where wait: "timer_wait H (calibration_log H m) = Some l" using timer_wait_returns [OF assms(1)] by blast
  have "timer_calibrate H C (apic_enable_local H (mc_io m), p) = Some (Inl Assert_failed)"
    using timer_calibrate_eq [OF unregistered_clock unregistered_clock wait] assms(2) by (simp add: timer_start_late)
  then show ?thesis by (simp add: apic_init_def)
qed

section \<open>Witnesses\<close>

text \<open>A machine with an I/O APIC of 24 lines, whose timer has run down at once, and two clocks.\<close>

definition sample_hardware :: hardware where
  "sample_hardware = \<lparr>hw_in8 = (\<lambda>_ _. 0), hw_in16 = (\<lambda>_ _. 0), hw_in32 = (\<lambda>_ _. 0), hw_rdtsc = (\<lambda>_. (0, 0)),
     hw_cpuid = (\<lambda>_ _. (0, 0, 0, 0)), hw_rdmsr = (\<lambda>_ _. (0, 0)),
     hw_mem = (\<lambda>_ a. if a = 0xfec00010 then 0x00170011 else 0)\<rparr>"

definition sample_clock :: clock_source where
  "sample_clock = \<lparr>src_tsc = (\<lambda>n. of_nat n * 16000000),
     src_info = (\<lambda>_. pvclock_vcpu_time_info_new\<lparr>pvc_version := 2, pvc_tsc_to_system_mul := 0x80000000, pvc_tsc_shift := 1\<rparr>),
     src_wall = (\<lambda>_. pvclock_wall_clock_new)\<rparr>"

definition sample_pos :: clock_pos where
  "sample_pos = \<lparr>pos_tsc = 0, pos_info = 0, pos_wall = 0\<rparr>"

definition sample_environment :: "nat ring environment" where
  "sample_environment = \<lparr>en_hardware = sample_hardware, en_heap = (\<lambda>_. (0, \<lambda>_. 0)), en_devices = (\<lambda>_ _ _. 0),
     en_queue = ring_ops, en_clock = sample_clock\<rparr>"

lemma sample_timer_runs: "timer_runs sample_hardware l"
  by (simp add: timer_runs_def sample_hardware_def)

lemma sample_clock_live: "clock_live sample_clock"
  by (simp add: clock_live_def quiet_info_def quiet_wall_def sample_clock_def pvclock_wall_clock_new_def)

lemma sample_clock_reads:
  "get_monotonic_time sample_clock sample_pos = Some (0, \<lparr>pos_tsc = 1, pos_info = 2, pos_wall = 0\<rparr>)"
  "get_monotonic_time sample_clock \<lparr>pos_tsc = 1, pos_info = 2, pos_wall = 0\<rparr> =
     Some (16000000, \<lparr>pos_tsc = 2, pos_info = 4, pos_wall = 0\<rparr>)"
proof -
  have "quiet_info (src_info sample_clock) i" for i by (simp add: quiet_info_def sample_clock_def)
  then have loop: "monotonic_loop (src_info sample_clock) t i = Some (scaled_delta t (src_info sample_clock i), i + 2)" for t i
    by (rule monotonic_loop_quiet)
  show "get_monotonic_time sample_clock sample_pos = Some (0, \<lparr>pos_tsc = 1, pos_info = 2, pos_wall = 0\<rparr>)"
    "get_monotonic_time sample_clock \<lparr>pos_tsc = 1, pos_info = 2, pos_wall = 0\<rparr> =
     Some (16000000, \<lparr>pos_tsc = 2, pos_info = 4, pos_wall = 0\<rparr>)"
    unfolding get_monotonic_time_def loop
    by (simp_all add: sample_clock_def sample_pos_def scaled_delta_def pvclock_vcpu_time_info_new_def rust_shl_def)
qed

theorem irq_dispatch_witness:
  "\<exists>k' m. set_handler Timer \<lparr>k_machine = machine_new, k_handlers = irq_handlers_new,
      k_net = \<lparr>ns_tables = empty_tables, ns_ifaces = [], ns_nodes = [], ns_allocs = 0\<rparr>,
      k_async = executor_new ring_new ring_new\<rparr> = Inr k' \<and>
    ioapic_regs (mc_io (k_machine k')) 0x10 = 48 \<and> eoi_once sample_hardware (k_machine k') m \<and>
    interrupt_handler sample_environment 48 k' = handle_interrupt sample_environment Timer (k'\<lparr>k_machine := m\<rparr>)"
  using irq_dispatch [of "\<lparr>k_machine = machine_new, k_handlers = irq_handlers_new,
      k_net = \<lparr>ns_tables = empty_tables, ns_ifaces = [], ns_nodes = [], ns_allocs = 0\<rparr>,
      k_async = executor_new ring_new ring_new\<rparr>" Timer sample_environment]
  by (auto simp: irq_handlers_new_def machine_new_def sample_environment_def ioapic_reg_low_def)

theorem apic_init_correct_witness:
  "\<exists>m' count. apic_init sample_hardware sample_clock 0x200000 0x300000 0x400000 (machine_new, sample_pos) =
      Some (Inr (m', \<lparr>pos_tsc = 2, pos_info = 4, pos_wall = 0\<rparr>)) \<and>
    idt_target (mc_idt m' ! 48) = 0x200300 \<and> last_write 0xfee00380 (mc_io m') = Some count \<and> unat count = 131071"
proof -
  have "fst (ioapic_read sample_hardware 1 l) = 0x00170011" for l by (simp add: ioapic_read_def sample_hardware_def)
  from apic_init_correct [OF _ _ sample_timer_runs this sample_clock_reads, of machine_new "0x200000" "0x300000" "0x400000"]
  obtain m' count where m': "apic_init sample_hardware sample_clock 0x200000 0x300000 0x400000 (machine_new, sample_pos) =
      Some (Inr (m', \<lparr>pos_tsc = 2, pos_info = 4, pos_wall = 0\<rparr>))"
    "\<forall>i<256. idt_target (mc_idt m' ! i) = 0x200000 + 16 * of_nat i" "last_write 0xfee00380 (mc_io m') = Some count"
    "unat count * 16000000 \<le> 2000000 * 0xfffff" "2000000 * 0xfffff < Suc (unat count) * 16000000"
    by (auto simp: machine_new_def)
  then have "unat count = 131071" "idt_target (mc_idt m' ! 48) = 0x200300" by simp_all
  with m' show ?thesis by blast
qed

theorem apic_needs_kvmclock_witness:
  "apic_init sample_hardware \<lparr>src_tsc = of_nat, src_info = (\<lambda>_. pvclock_vcpu_time_info_new),
      src_wall = (\<lambda>_. pvclock_wall_clock_new)\<rparr> 0x200000 0x300000 0x400000 (machine_new, sample_pos) = Some (Inl Assert_failed)"
  by (rule apic_needs_kvmclock [OF sample_timer_runs]) simp

end
