(* ===== verification/Echo_Reply.thy ===== *)
theory Echo_Reply
  imports Packet_Headers
begin

text \<open>
  The contents of the ICMP echo replies.  The specification of a reply is stated on its bytes; the
  lemmas follow the steps of the code, each of which leaves a concatenation of header, message and
  the rest of the transmit buffer, and conclude that both checksums are valid.
\<close>

section \<open>The steps on concatenations\<close>

lemma write_at_front:
  assumes "bs \<noteq> []" "length bs \<le> length r"
  shows "write_at r 0 bs = Inr (bs @ drop (length bs) r)"
  using assms by (auto simp: write_at_def splice_def)

lemma with_tail_write:
  assumes "bs \<noteq> []" "length a = n" "length bs \<le> length r"
  shows "with_tail (a @ r) n (\<lambda>t. write_at t 0 bs) = Inr (a @ bs @ drop (length bs) r)"
  using assms by (auto simp: with_tail_def write_at_front)

lemma write_at_middle:
  assumes "bs \<noteq> []" "length a = n" "length bs \<le> length r"
  shows "write_at (a @ r) n bs = Inr (a @ bs @ drop (length bs) r)"
  using assms by (auto simp: write_at_def splice_def)

lemma splice_middle:
  assumes "length a = n" "length cs = length bs"
  shows "splice n bs (a @ cs @ r) = a @ bs @ r"
  using assms by (simp add: splice_def)

text \<open>The copy loop replaces a range by the range of the request.\<close>

lemma copy_payload_ok:
  assumes "lo \<le> hi" "hi \<le> length req" "hi \<le> length r"
  shows "copy_payload req lo hi r = Inr (take lo r @ take (hi - lo) (drop lo req) @ drop hi r)"
  using assms
proof (induction "hi - lo" arbitrary: lo r)
  case 0
  then show ?case by (simp add: copy_payload_def rfor.simps [of lo])
next
  case (Suc k)
  have lt: "lo < hi" and k: "k = hi - Suc lo" using Suc.hyps(2) by simp_all
  have "copy_payload req lo hi r = copy_payload req (Suc lo) hi (r[lo := req ! lo])"
    using lt Suc.prems by (simp add: copy_payload_def rfor.simps [of lo] slice_simps)
  also have "\<dots> = Inr (take (Suc lo) (r[lo := req ! lo]) @ take (hi - Suc lo) (drop (Suc lo) req) @ drop hi r)"
    using Suc.hyps(1) [OF k] lt Suc.prems by simp
  also have "take (Suc lo) (r[lo := req ! lo]) = take lo r @ [req ! lo]"
    using lt Suc.prems by (simp add: take_Suc_conv_app_nth)
  finally have "copy_payload req lo hi r =
      Inr (take lo r @ (req ! lo # take (hi - Suc lo) (drop (Suc lo) req)) @ drop hi r)" by simp
  also have "req ! lo # take (hi - Suc lo) (drop (Suc lo) req) = take (hi - lo) (drop lo req)"
    using lt Suc.prems by (simp add: Cons_nth_drop_Suc [symmetric] take_Cons' Suc_diff_Suc [symmetric])
  finally show ?case .
qed

lemma copy_payload_append:
  assumes "length a = lo" "lo \<le> hi" "hi \<le> length req" "hi \<le> lo + length r"
  shows "copy_payload req lo hi (a @ r) = Inr (a @ take (hi - lo) (drop lo req) @ drop (hi - lo) r)"
  using copy_payload_ok [of lo hi req "a @ r"] assms by simp

section \<open>Checksums of messages\<close>

lemma csum_loop_append:
  assumes "length a = 2 * lo" "hi = lo + n" "2 * n \<le> length b" "hi \<le> 40000" "unat c + 65535 * n < 2 ^ 32"
  shows "\<exists>c'. csum_loop (a @ b @ r) lo hi c = Inr c' \<and> unat c' = unat c + inet_sum (take (2 * n) b)"
  using csum_loop_sum [of lo hi "a @ b @ r" c] assms by simp

text \<open>The bytes that \<open>k\<close> words of a message cover.\<close>

lemma inet_sum_take_bound: "inet_sum (take (2 * k) m) \<le> 65535 * k"
proof -
  have "length (take (2 * k) m) \<le> 2 * k" by simp
  then have "(length (take (2 * k) m) + 1) div 2 \<le> k" by linarith
  then have "65535 * ((length (take (2 * k) m) + 1) div 2) \<le> 65535 * k" by (rule mult_le_mono2)
  with inet_sum_bound [of "take (2 * k) m"] show ?thesis by linarith
qed

text \<open>
  A message whose checksum field, the second 16-bit word, is zero: filling in the two bytes that
  the code computes makes the covered words valid, for any start value of the sum.
\<close>

lemma checksum_field_valid:
  assumes "2 \<le> k" "unat c = p + inet_sum (take (2 * k) (a # b # 0 # 0 # m))" "unat c < 2 ^ 32 - 2 ^ 16"
  defines "m' \<equiv> a # b # byte_at 8 (csum_finish c) # ucast (csum_finish c) # m"
  shows "(p + inet_sum (take (2 * k) m')) mod 65535 = 0 \<and> p + inet_sum (take (2 * k) m') \<noteq> 0"
proof -
  obtain j where k: "2 * k = Suc (Suc (Suc (Suc j)))" using assms(1) by (metis Suc_diff_Suc numeral_2_eq_2 le_add_diff_inverse mult_2 add_Suc_right add_Suc)
  have "p + inet_sum (take (2 * k) m') =
      unat c + be16 (byte_at 8 (csum_finish c)) (ucast (csum_finish c))"
    unfolding assms(2) m'_def k by (simp add: be16_def)
  with csum_bytes [OF assms(3)] show ?thesis by simp
qed

section \<open>The IPv4 echo reply\<close>

text \<open>
  The specification.  The reply \<open>r\<close> to the request \<open>req\<close> goes back to the sender's MAC address,
  carries the addresses exchanged under a valid header checksum, and repeats identifier, sequence
  number and data of the request in an echo reply message with a valid checksum, that of RFC 1071, in
  which a message of an odd number of bytes is padded with a zero byte.
\<close>

definition reply_message4 :: "u8 list \<Rightarrow> u8 list \<Rightarrow> u8 list" where
  "reply_message4 req r = take (be16 (req ! 16) (req ! 17) - 20) (drop 34 r)"

definition echo_fields4 :: "mac_address \<Rightarrow> u8 list \<Rightarrow> u8 list \<Rightarrow> bool" where
  "echo_fields4 mac req r \<longleftrightarrow>
     (let ip = take 20 (drop 14 req); tot = be16 (req ! 16) (req ! 17);
          h = take 20 (drop 14 r); m = reply_message4 req r in
      take 14 r = eth_src req @ mac_array mac @ [0x08, 0x00] \<and>
      h ! 0 = 0x45 \<and> ip4_length h = ip4_length ip \<and> ip4_proto h = 1 \<and>
      ip4_src_ip h = ip4_dest_ip ip \<and> ip4_dest_ip h = ip4_src_ip ip \<and> valid_csum h \<and>
      length m = tot - 20 \<and> take 2 m = [0, 0] \<and> drop 4 m = drop 4 (take (tot - 20) (drop 34 req)))"

definition echo_reply4 :: "mac_address \<Rightarrow> u8 list \<Rightarrow> u8 list \<Rightarrow> bool" where
  "echo_reply4 mac req r \<longleftrightarrow> echo_fields4 mac req r \<and> valid_csum (reply_message4 req r)"

text \<open>What the code achieves for every length: the checksum is that of the whole words of the message.\<close>

definition echo_answer4 :: "mac_address \<Rightarrow> u8 list \<Rightarrow> u8 list \<Rightarrow> bool" where
  "echo_answer4 mac req r \<longleftrightarrow> echo_fields4 mac req r \<and> valid_csum (whole_words (reply_message4 req r))"

lemma echo_answer4_even:
  assumes "echo_answer4 mac req r" "20 \<le> be16 (req ! 16) (req ! 17)" "even (be16 (req ! 16) (req ! 17))"
  shows "echo_reply4 mac req r"
proof -
  have "even (length (reply_message4 req r))" using assms by (simp add: echo_answer4_def echo_fields4_def Let_def)
  then show ?thesis using assms(1) by (simp add: echo_answer4_def echo_reply4_def whole_words_even)
qed

lemma list_of_length_2: "length xs = 2 \<Longrightarrow> \<exists>a b. xs = [a, b]"
  by (auto simp: numeral_eq_Suc length_Suc_conv)

lemma mod_add_cancel_0: "(a + p) mod k = 0 \<Longrightarrow> p mod k = 0 \<Longrightarrow> a mod k = (0::nat)"
  by (simp add: mod_eq_0_iff_dvd dvd_add_left_iff)

text \<open>The header that is summed together with a message whose own sum is a multiple of 65535.\<close>

lemma header_csum_valid:
  assumes "unat c = inet_sum [0x45, 0, l0, l1, 0, 0, 0x40, 0, 64, 1, 0, 0, d0, d1, d2, d3, s0, s1, s2, s3] + p"
    and "p mod 65535 = 0" "unat c < 2 ^ 32 - 2 ^ 16"
  shows "valid_csum [0x45, 0, l0, l1, 0, 0, 0x40, 0, 64, 1, byte_at 8 (csum_finish c), ucast (csum_finish c),
           d0, d1, d2, d3, s0, s1, s2, s3]" (is "valid_csum ?h")
proof -
  have "inet_sum ?h + p = unat c + be16 (byte_at 8 (csum_finish c)) (ucast (csum_finish c))"
    unfolding assms(1) by (simp add: be16_def)
  then have "(inet_sum ?h + p) mod 65535 = 0" using csum_bytes(1) [OF assms(3)] by (simp only:)
  then have "inet_sum ?h mod 65535 = 0" using assms(2) by (rule mod_add_cancel_0)
  moreover have "inet_sum ?h \<noteq> 0" by (simp add: be16_def)
  ultimately show ?thesis by (simp only: valid_csum_def simp_thms)
qed

lemma unat_frame_len:
  assumes "20 \<le> tot" "tot < 65536"
  shows "unat (14 + 20 + of_nat (tot - 20) :: usize) = 14 + tot"
    and "unat ((14 + 20 + of_nat (tot - 20) :: usize) div 2) = (14 + tot) div 2"
proof -
  have "(14 + 20 + of_nat (tot - 20) :: usize) = of_nat (14 + tot)" using assms(1) by simp
  moreover have "unat (of_nat (14 + tot) :: usize) = 14 + tot"
    using assms(2) by (intro unat_of_nat_small) simp
  ultimately show "unat (14 + 20 + of_nat (tot - 20) :: usize) = 14 + tot" by (simp only:)
  then show "unat ((14 + 20 + of_nat (tot - 20) :: usize) div 2) = (14 + tot) div 2"
    by (simp add: unat_div)
qed

text \<open>
  The steps of the code up to the headers, for any headers: an Ethernet header of 14 bytes,
  a network header \<open>iph\<close> behind it and an ICMP header \<open>ich\<close> of 8 bytes.
\<close>

lemma reply_headers:
  assumes "length (mac_array mac) = 6" "length ty = 2" "length req \<ge> 12"
    and "iph \<noteq> []" "h = 14 + length iph" "length ich = 8" "h + 8 \<le> length resp"
  shows "rbind (subslice req 6 12) (\<lambda>src.
     rbind (generate_ether_header resp mac (mac_new src) ty) (\<lambda>r.
     rbind (with_tail r 14 (\<lambda>t. write_at t 0 iph)) (\<lambda>r.
     rbind (write_at r h ich) f))) =
   f (((eth_src req @ mac_array mac @ ty) @ iph @ ich) @ drop (h + 8) resp)"
proof -
  let ?eth = "eth_src req @ mac_array mac @ ty"
  have eth: "length ?eth = 14" using assms(1-3) by (simp add: eth_src_def)
  then have ne: "?eth \<noteq> []" by auto
  have lens: "length iph \<le> length (drop 14 resp)" "length ich \<le> length (drop h resp)"
    using assms by simp_all
  have s1: "subslice req 6 12 = Inr (eth_src req)" using assms(3) by (simp add: subslice_def eth_src_def)
  have s2: "generate_ether_header resp mac (mac_new (eth_src req)) ty = Inr (?eth @ drop 14 resp)"
    using write_at_front [OF ne, of resp] eth assms by (simp add: generate_ether_header_def)
  have s3: "with_tail (?eth @ drop 14 resp) 14 (\<lambda>t. write_at t 0 iph) = Inr ((?eth @ iph) @ drop h resp)"
    using with_tail_write [OF assms(4) eth lens(1)] assms(5) by (simp add: add.commute)
  have ne2: "ich \<noteq> []" using assms(6) by auto
  have s4: "write_at ((?eth @ iph) @ drop h resp) h ich = Inr ((?eth @ iph @ ich) @ drop (h + 8) resp)"
    using write_at_middle [OF ne2, of "?eth @ iph" h "drop h resp"] eth lens(2) assms(5,6) by (auto simp: add.commute)
  show ?thesis unfolding s1 rbind_Inr s2 s3 s4 ..
qed

text \<open>The same with the payload copied.\<close>

lemma reply_steps:
  assumes "length (mac_array mac) = 6" "length ty = 2" "length req \<ge> 12"
    and "iph \<noteq> []" "h = 14 + length iph" "length ich = 8" "h + 8 \<le> fin"
    and "fin \<le> length req" "fin \<le> length resp"
  shows "rbind (subslice req 6 12) (\<lambda>src.
     rbind (generate_ether_header resp mac (mac_new src) ty) (\<lambda>r.
     rbind (with_tail r 14 (\<lambda>t. write_at t 0 iph)) (\<lambda>r.
     rbind (write_at r h ich) (\<lambda>r. rbind (copy_payload req (h + 8) fin r) f)))) =
   f ((eth_src req @ mac_array mac @ ty) @ iph @ ich @ take (fin - (h + 8)) (drop (h + 8) req) @ drop fin resp)"
proof -
  let ?pre = "(eth_src req @ mac_array mac @ ty) @ iph @ ich"
  have le: "h + 8 \<le> length resp" using assms(7,9) by simp
  have pre: "length ?pre = h + 8" using assms(1-3,5,6) by (simp add: eth_src_def)
  have "copy_payload req (h + 8) fin (?pre @ drop (h + 8) resp) =
      Inr (?pre @ take (fin - (h + 8)) (drop (h + 8) req) @ drop fin resp)"
    using copy_payload_append [OF pre, of fin req "drop (h + 8) resp"] assms(7-9) by simp
  then show ?thesis unfolding reply_headers [OF assms(1-6) le] by simp
qed

text \<open>The IPv4 header of the reply, with the two bytes of its checksum, and an ICMP message with those of its own.\<close>

definition reply_ip4 :: "u8 list \<Rightarrow> u8 \<Rightarrow> u8 \<Rightarrow> u8 list" where
  "reply_ip4 ip u w = [0x45, 0] @ ip4_length ip @ [0, 0, 0x40, 0, 64, 1, u, w] @ ip4_dest_ip ip @ ip4_src_ip ip"

definition echo_message :: "u8 \<Rightarrow> u8 \<Rightarrow> u8 list \<Rightarrow> u8 \<Rightarrow> u8 \<Rightarrow> u8 list" where
  "echo_message ty code body x y = ty # code # x # y # body"

lemma reply_ip4_list:
  assumes "length ip = 20"
  shows "\<exists>l0 l1 d0 d1 d2 d3 s0 s1 s2 s3. ip4_length ip = [l0, l1] \<and> ip4_dest_ip ip = [d0, d1, d2, d3] \<and> ip4_src_ip ip = [s0, s1, s2, s3] \<and>
    reply_ip4 ip = (\<lambda>u w. [0x45, 0, l0, l1, 0, 0, 0x40, 0, 64, 1, u, w, d0, d1, d2, d3, s0, s1, s2, s3])"
proof -
  obtain l0 l1 where l: "ip4_length ip = [l0, l1]"
    using list_of_length_2 [of "ip4_length ip"] assms by (auto simp: ip4_length_def)
  obtain d0 d1 d2 d3 where d: "ip4_dest_ip ip = [d0, d1, d2, d3]"
    using list_of_length_4 [of "ip4_dest_ip ip"] assms by (auto simp: ip4_dest_ip_def)
  obtain s0 s1 s2 s3 where s: "ip4_src_ip ip = [s0, s1, s2, s3]"
    using list_of_length_4 [of "ip4_src_ip ip"] assms by (auto simp: ip4_src_ip_def)
  show ?thesis by (simp add: l d s reply_ip4_def fun_eq_iff)
qed

lemma reply_ip4_fields:
  assumes "length ip = 20"
  shows "length (reply_ip4 ip u w) = 20" "reply_ip4 ip u w ! 0 = 0x45" "ip4_length (reply_ip4 ip u w) = ip4_length ip"
    "ip4_proto (reply_ip4 ip u w) = 1" "ip4_src_ip (reply_ip4 ip u w) = ip4_dest_ip ip" "ip4_dest_ip (reply_ip4 ip u w) = ip4_src_ip ip"
    "ipv4_header (ip4_length ip) 1 (ipv4_from_array (ip4_dest_ip ip)) (ipv4_from_array (ip4_src_ip ip)) = reply_ip4 ip 0 0"
    "(reply_ip4 ip 0 0)[10 := u, 11 := w] = reply_ip4 ip u w"
  using reply_ip4_list [OF assms]
  by (auto simp: ip4_length_def [of "_ # _"] ip4_proto_def ip4_src_ip_def [of "_ # _"] ip4_dest_ip_def [of "_ # _"]
      ipv4_header_def ipv4_get_from_array le16_def)

lemma reply_ip4_valid:
  assumes "length ip = 20" "unat c = inet_sum (reply_ip4 ip 0 0) + p" "p mod 65535 = 0" "unat c < 2 ^ 32 - 2 ^ 16"
  shows "valid_csum (reply_ip4 ip (byte_at 8 (csum_finish c)) (ucast (csum_finish c)))"
proof -
  obtain l0 l1 d0 d1 d2 d3 s0 s1 s2 s3 where
    h: "reply_ip4 ip = (\<lambda>u w. [0x45, 0, l0, l1, 0, 0, 0x40, 0, 64, 1, u, w, d0, d1, d2, d3, s0, s1, s2, s3])"
    using reply_ip4_list [OF assms(1)] by blast
  show ?thesis using assms(2) unfolding h by (rule header_csum_valid [OF _ assms(3,4)])
qed

text \<open>The message as the code writes it: type, code and an empty checksum, the fields of the request, its data.\<close>

lemma echo_message_written:
  assumes "icmp = take 8 (drop h req)" "8 \<le> n" "h + n \<le> length req"
  shows "[ty, code] @ le16 0 @ icmp_identifier icmp @ icmp_sequence icmp @ take (n - 8) (drop (h + 8) req) =
    echo_message ty code (take (n - 4) (drop (h + 4) req)) 0 0"
proof -
  have "icmp_identifier icmp @ icmp_sequence icmp = take 4 (drop (h + 4) req)"
    using take_add [of 2 2 "drop (h + 4) req"] assms
    by (simp add: icmp_identifier_def icmp_sequence_def drop_take take_drop [symmetric] take_take add.commute)
  then have "icmp_identifier icmp @ icmp_sequence icmp @ take (n - 8) (drop (h + 8) req) = take (n - 4) (drop (h + 4) req)"
    using take_add [of 4 "n - 8" "drop (h + 4) req"] assms(2) by (simp add: add.commute)
  then show ?thesis by (simp add: echo_message_def le16_def)
qed

text \<open>Both loops run, and the bytes they lead to make message and header valid.\<close>

lemma reply_checksums4:
  fixes rest :: "u8 list"
  assumes "length eth = 14" "length ip = 20" "n = length body + 4" "8 \<le> n" "n < 65516"
  defines "F u w x y \<equiv> eth @ reply_ip4 ip u w @ echo_message 0 0 body x y @ rest"
  shows "\<exists>c1 c2 x y. x = byte_at 8 (csum_finish c1) \<and> y = ucast (csum_finish c1) \<and>
    csum_loop (F 0 0 0 0) 17 (17 + n div 2) 0 = Inr c1 \<and> csum_loop (F 0 0 x y) 7 (17 + n div 2) 0 = Inr c2 \<and>
    valid_csum (take (2 * (n div 2)) (echo_message 0 0 body x y)) \<and>
    valid_csum (reply_ip4 ip (byte_at 8 (csum_finish c2)) (ucast (csum_finish c2)))"
proof -
  let ?m = "n div 2" and ?M = "echo_message 0 0 body" and ?h = "reply_ip4 ip 0 0"
  have lh: "length ?h = 20" by (rule reply_ip4_fields(1) [OF assms(2)])
  have lm: "length (?M x y) = n" for x y using assms(3) by (simp add: echo_message_def)
  have m: "4 \<le> ?m" "2 * ?m \<le> n" "?m \<le> 32757" using assms(4,5) by simp_all
  obtain c1 where c1: "csum_loop (F 0 0 0 0) 17 (17 + ?m) 0 = Inr c1" "unat c1 = inet_sum (take (2 * ?m) (?M 0 0))"
    using csum_loop_append [of "eth @ ?h" 17 "17 + ?m" ?m "?M 0 0" 0 rest] assms(1) lh lm m by (auto simp: F_def)
  define x y where "x = (byte_at 8 (csum_finish c1) :: u8)" and "y = (ucast (csum_finish c1) :: u8)"
  have "unat c1 < 2 ^ 32 - 2 ^ 16" using inet_sum_take_bound [of ?m "?M 0 0"] m(3) unfolding c1(2) by simp
  then have v1: "inet_sum (take (2 * ?m) (?M x y)) mod 65535 = 0" "inet_sum (take (2 * ?m) (?M x y)) \<noteq> 0"
    using checksum_field_valid [of ?m c1 0 0 0 body] m(1) c1(2) by (simp_all add: echo_message_def x_def y_def)
  obtain c2 where c2: "csum_loop (F 0 0 x y) 7 (17 + ?m) 0 = Inr c2" "unat c2 = inet_sum (?h @ take (2 * ?m) (?M x y))"
    using csum_loop_append [of eth 7 "17 + ?m" "10 + ?m" "?h @ ?M x y" 0 rest] assms(1) lh lm m by (auto simp: F_def)
  have c2s: "unat c2 = inet_sum ?h + inet_sum (take (2 * ?m) (?M x y))"
    unfolding c2(2) by (rule inet_sum_append) (simp add: lh)
  have "unat c2 < 2 ^ 32 - 2 ^ 16"
    using inet_sum_take_bound [of ?m "?M x y"] inet_sum_bound [of ?h] m(3) lh unfolding c2s by simp
  then have "valid_csum (reply_ip4 ip (byte_at 8 (csum_finish c2)) (ucast (csum_finish c2)))"
    by (rule reply_ip4_valid [OF assms(2) c2s v1(1)])
  then show ?thesis
    using c1(1) c2(1) v1 by (intro exI [of _ c1] exI [of _ c2] exI [of _ x] exI [of _ y]) (simp add: x_def y_def valid_csum_def)
qed

lemma header_update:
  assumes "length a = 14" "length h = 20"
  shows "(a @ h @ r)[24 := u, 25 := w] = a @ h[10 := u, 11 := w] @ r"
  using assms by (simp add: list_update_append)

lemma echo_answer4_frame:
  assumes "ip = take 20 (drop 14 req)" "tot = be16 (req ! 16) (req ! 17)" "28 \<le> tot" "14 + tot \<le> length req"
    and "length (mac_array mac) = 6" "valid_csum (reply_ip4 ip u w)" "m = echo_message 0 0 (take (tot - 24) (drop 38 req)) x y"
    and "valid_csum (take (2 * ((tot - 20) div 2)) m)"
  shows "echo_answer4 mac req ((eth_src req @ mac_array mac @ [0x08, 0x00]) @ reply_ip4 ip u w @ m @ rest)"
proof -
  let ?eth = "eth_src req @ mac_array mac @ [0x08, 0x00]"
  let ?r = "?eth @ reply_ip4 ip u w @ m @ rest"
  have ip: "length ip = 20" using assms(1,3,4) by simp
  note f = reply_ip4_fields [OF ip]
  have eth: "length ?eth = 14" using assms(3-5) by (simp add: eth_src_def)
  have lm: "length m = tot - 20" using assms(3,4) by (simp add: assms(7) echo_message_def)
  have parts: "take 14 ?r = ?eth" "take 20 (drop 14 ?r) = reply_ip4 ip u w" "reply_message4 req ?r = m"
    using eth f(1) lm by (simp_all add: reply_message4_def assms(2) [symmetric])
  have body: "drop 4 (take (tot - 20) (drop 34 req)) = take (tot - 24) (drop 38 req)" using assms(3) by (simp add: drop_take)
  show ?thesis
    unfolding echo_answer4_def echo_fields4_def Let_def whole_words_def assms(1) [symmetric] assms(2) [symmetric] parts f body lm
    using assms(6,8) by (simp add: assms(7) echo_message_def)
qed

lemma icmpv4_fill_reply_correct:
  assumes ip: "ip = take 20 (drop 14 req)" and icmp: "icmp = take 8 (drop 34 req)"
    and tot: "tot = be16 (ip ! 2) (ip ! 3)" "28 \<le> tot" "14 + tot \<le> length req" "14 + tot \<le> length resp"
    and mac: "length (mac_array mac) = 6"
  shows "\<exists>r. icmpv4_fill_reply mac req ip icmp (of_nat (tot - 20)) resp = Inr r \<and>
     length r = length resp \<and> echo_answer4 mac req r"
proof -
  let ?eth = "eth_src req @ mac_array mac @ [0x08, 0x00]" and ?body = "take (tot - 24) (drop 38 req)"
  define F where "F u w x y = ?eth @ reply_ip4 ip u w @ echo_message 0 0 ?body x y @ drop (14 + tot) resp" for u w x y
  have t: "tot < 65536" "20 \<le> tot" using tot be16_less by simp_all
  have lens: "length ip = 20" "length icmp = 8" "length ?eth = 14" using ip icmp tot mac by (simp_all add: eth_src_def)
  have tot': "tot = be16 (req ! 16) (req ! 17)" using tot(1-3) ip by simp
  note f = reply_ip4_fields [OF lens(1)] and fl = unat_frame_len [OF t(2,1)]
  have k: "(14 + tot) div 2 = 17 + (tot - 20) div 2" using tot(2) by simp
  have "tot - 20 = length ?body + 4" "8 \<le> tot - 20" "tot - 20 < 65516" using tot t by simp_all
  from reply_checksums4 [OF lens(3,1) this, of "drop (14 + tot) resp"]
  obtain c1 c2 x y where c: "x = byte_at 8 (csum_finish c1)" "y = ucast (csum_finish c1)"
      "csum_loop (F 0 0 0 0) 17 ((14 + tot) div 2) 0 = Inr c1" "csum_loop (F 0 0 x y) 7 ((14 + tot) div 2) 0 = Inr c2"
      "valid_csum (take (2 * ((tot - 20) div 2)) (echo_message 0 0 ?body x y))"
      "valid_csum (reply_ip4 ip (byte_at 8 (csum_finish c2)) (ucast (csum_finish c2)))"
    unfolding F_def k by blast
  define u w where "u = (byte_at 8 (csum_finish c2) :: u8)" and "w = (ucast (csum_finish c2) :: u8)"
  let ?ich = "[0x00, 0x00] @ le16 0 @ icmp_identifier icmp @ icmp_sequence icmp"
  have p: "length [0x08, 0x00 :: u8] = 2" "12 \<le> length req" "reply_ip4 ip 0 0 \<noteq> []" "14 + 20 = 14 + length (reply_ip4 ip 0 0)"
    "14 + 20 + 8 \<le> 14 + tot" "length ?ich = 8" using tot(2,3) f(1) lens(2) by (simp_all add: icmp_identifier_def icmp_sequence_def) (simp add: reply_ip4_def)
  have r4: "?eth @ reply_ip4 ip 0 0 @ ?ich @ take (14 + tot - (14 + 20 + 8)) (drop (14 + 20 + 8) req) @ drop (14 + tot) resp = F 0 0 0 0"
    using echo_message_written [OF icmp, of "tot - 20" 0 0] tot by (simp add: F_def)
  note S = reply_steps [OF mac p(1-4,6,5) tot(3,4), unfolded r4]
  have sp: "splice 36 [x, y] (F 0 0 0 0) = F 0 0 x y"
    using splice_middle [of "?eth @ reply_ip4 ip 0 0 @ [0, 0]" 36 "[0, 0]" "[x, y]" "?body @ drop (14 + tot) resp"] lens(3) f(1)
    by (simp add: F_def echo_message_def)
  have len: "length (F a b x y) = length resp" for a b x y using tot lens(3) f(1) by (simp add: F_def echo_message_def)
  have upd: "(F 0 0 x y)[24 := u, 25 := w] = F u w x y"
    unfolding F_def header_update [OF lens(3) f(1)] f(8) ..
  have "icmpv4_fill_reply mac req ip icmp (of_nat (tot - 20)) resp = Inr (F u w x y)"
    unfolding icmpv4_fill_reply_def Let_def generate_ipv4_header_def f(7) fl
    unfolding S using c(1-4) sp len upd tot(2,4) by (simp add: csum_finish_field set_at_ok u_def w_def)
  moreover have "echo_answer4 mac req (F u w x y)"
    unfolding F_def using echo_answer4_frame [OF ip tot' tot(2,3) mac _ refl c(5)] c(6) by (simp add: u_def w_def)
  ultimately show ?thesis using len by blast
qed

section \<open>The IPv6 echo reply\<close>

text \<open>
  The specification.  The reply goes back to the sender; its source address is a constant of the
  code.  Its checksum covers the pseudo header of the addresses the reply really carries, the
  length and the protocol number, and the message, padded with a zero byte to whole 16-bit words.
\<close>

definition reply_message6 :: "u8 list \<Rightarrow> u8 list \<Rightarrow> u8 list" where
  "reply_message6 req r = take (be16 (req ! 18) (req ! 19)) (drop 54 r)"

definition echo_fields6 :: "mac_address \<Rightarrow> u8 list \<Rightarrow> u8 list \<Rightarrow> bool" where
  "echo_fields6 mac req r \<longleftrightarrow>
     (let ip = take 40 (drop 14 req); len = be16 (req ! 18) (req ! 19);
          h = take 40 (drop 14 r); m = reply_message6 req r in
      take 14 r = eth_src req @ mac_array mac @ [0x86, 0xdd] \<and>
      h ! 0 = 0x60 \<and> ip6_length h = ip6_length ip \<and> ip6_nexthdr h = 58 \<and>
      ip6_src_ip h = replicate 16 0x02 \<and> ip6_dest_ip h = ip6_src_ip ip \<and>
      length m = len \<and> m ! 0 = 0x81 \<and> m ! 1 = req ! 55 \<and> drop 4 m = drop 4 (take len (drop 54 req)))"

definition valid_csum6 :: "u8 list \<Rightarrow> u8 list \<Rightarrow> u8 list \<Rightarrow> bool" where
  "valid_csum6 req r m \<longleftrightarrow>
     (let h = take 40 (drop 14 r);
          csum = inet_sum (ip6_src_ip h) + inet_sum (ip6_dest_ip h) + be16 (req ! 18) (req ! 19) + 58 + inet_sum m
      in csum mod 65535 = 0 \<and> csum \<noteq> 0)"

definition echo_reply6 :: "mac_address \<Rightarrow> u8 list \<Rightarrow> u8 list \<Rightarrow> bool" where
  "echo_reply6 mac req r \<longleftrightarrow> echo_fields6 mac req r \<and> valid_csum6 req r (reply_message6 req r)"

definition echo_answer6 :: "mac_address \<Rightarrow> u8 list \<Rightarrow> u8 list \<Rightarrow> bool" where
  "echo_answer6 mac req r \<longleftrightarrow> echo_fields6 mac req r \<and> valid_csum6 req r (whole_words (reply_message6 req r))"

lemma echo_answer6_even:
  assumes "echo_answer6 mac req r" "even (be16 (req ! 18) (req ! 19))"
  shows "echo_reply6 mac req r"
proof -
  have "even (length (reply_message6 req r))" using assms by (simp add: echo_answer6_def echo_fields6_def Let_def)
  then show ?thesis using assms(1) by (simp add: echo_answer6_def echo_reply6_def whole_words_even)
qed

lemma be16_of_nat: "(push_bit 8 (ucast a) OR ucast b :: u32) = of_nat (be16 a b)"
  by (metis be16_word of_nat_unat ucast_id)

lemma pseudo_sum_unat:
  assumes "length src = 16" "n < 65536"
  shows "unat (icmpv6_pseudo_sum src (of_nat n)) = inet_sum (replicate 16 0x02) + inet_sum src + n + 58"
proof -
  let ?S = "inet_sum (replicate 16 0x02) + inet_sum src + n + 58"
  have src: "inet_sum src = be16 (src ! 0) (src ! 1) + be16 (src ! 2) (src ! 3) + be16 (src ! 4) (src ! 5) +
      be16 (src ! 6) (src ! 7) + be16 (src ! 8) (src ! 9) + be16 (src ! 10) (src ! 11) +
      be16 (src ! 12) (src ! 13) + be16 (src ! 14) (src ! 15)"
    by (subst list_of_length_16 [OF assms(1)]) simp
  have two: "inet_sum (replicate 16 0x02) = 4112" by code_simp
  have n: "(ucast (of_nat n :: usize) :: u32) = of_nat n"
  proof -
    have "unat (of_nat n :: usize) = n" using assms(2) by (intro unat_of_nat_small) simp
    then show ?thesis by (metis of_nat_unat)
  qed
  have "icmpv6_pseudo_sum src (of_nat n) = of_nat ?S"
    unfolding icmpv6_pseudo_sum_def Let_def be16_of_nat n two src by (simp add: upt_conv_Cons)
  moreover have "?S < 2 ^ 32" using inet_sum_bound [of src] assms two by simp
  ultimately show ?thesis using unat_of_nat_small [of ?S, where 'a = 32] by simp
qed

lemma unat_frame_len6:
  assumes "n < 65536"
  shows "unat (14 + 40 + of_nat n :: usize) = 54 + n"
    and "unat ((14 + 40 + of_nat n :: usize) div 2) = 27 + n div 2"
proof -
  have "(14 + 40 + of_nat n :: usize) = of_nat (54 + n)" by simp
  moreover have "unat (of_nat (54 + n) :: usize) = 54 + n" using assms by (intro unat_of_nat_small) simp
  ultimately show l: "unat (14 + 40 + of_nat n :: usize) = 54 + n" by (simp only:)
  then show "unat ((14 + 40 + of_nat n :: usize) div 2) = 27 + n div 2" by (simp add: unat_div)
qed

definition reply_ip6 :: "u8 list \<Rightarrow> u8 list" where
  "reply_ip6 ip = ([0x60, 0, 0, 0] @ ip6_length ip @ [58, 0x80]) @ replicate 16 0x02 @ ip6_src_ip ip"

lemma reply_ip6_fields:
  assumes "length ip = 40"
  shows "length (reply_ip6 ip) = 40" "reply_ip6 ip ! 0 = 0x60" "ip6_length (reply_ip6 ip) = ip6_length ip" "ip6_nexthdr (reply_ip6 ip) = 58"
    "ip6_src_ip (reply_ip6 ip) = replicate 16 0x02" "ip6_dest_ip (reply_ip6 ip) = ip6_src_ip ip"
    "ipv6_header (ip6_length ip) 58 (ipv6_from_array (replicate 16 0x02)) (ipv6_from_array (ip6_src_ip ip)) = reply_ip6 ip"
  using assms by (simp_all add: reply_ip6_def ip6_length_def ip6_nexthdr_def ip6_src_ip_def ip6_dest_ip_def nth_append
      ipv6_header_def ipv6_get_from_array)

lemma reply_checksum6:
  fixes rest :: "u8 list"
  assumes "length pre = 54" "length src = 16" "n = length body + 4" "8 \<le> n" "n < 65536"
  defines "ps \<equiv> icmpv6_pseudo_sum src (of_nat n)"
  shows "\<exists>c x y tsum. x = byte_at 8 (csum_finish c) \<and> y = ucast (csum_finish c) \<and>
    csum_loop (pre @ echo_message ty code body 0 0 @ rest) 27 (27 + n div 2) ps = Inr c \<and>
    tsum = inet_sum (replicate 16 0x02) + inet_sum src + n + 58 + inet_sum (take (2 * (n div 2)) (echo_message ty code body x y)) \<and>
    tsum mod 65535 = 0 \<and> tsum \<noteq> 0"
proof -
  let ?m = "n div 2" and ?M = "echo_message ty code body"
  have lm: "length (?M x y) = n" for x y using assms(3) by (simp add: echo_message_def)
  have ps: "unat ps = inet_sum (replicate 16 0x02) + inet_sum src + n + 58" unfolding ps_def by (rule pseudo_sum_unat [OF assms(2,5)])
  have "inet_sum (replicate 16 0x02) = 4112" by code_simp
  then have psb: "unat ps < 600000" using ps inet_sum_bound [of src] assms(2,5) by simp
  have m: "2 \<le> ?m" "2 * ?m \<le> n" "?m \<le> 32767" using assms(4,5) by simp_all
  obtain c where c: "csum_loop (pre @ ?M 0 0 @ rest) 27 (27 + ?m) ps = Inr c" "unat c = unat ps + inet_sum (take (2 * ?m) (?M 0 0))"
    using csum_loop_append [of pre 27 "27 + ?m" ?m "?M 0 0" ps rest] assms(1) lm m psb by auto
  have "unat c < 2 ^ 32 - 2 ^ 16" using inet_sum_take_bound [of ?m "?M 0 0"] m(3) psb unfolding c(2) by simp
  then show ?thesis
    using checksum_field_valid [of ?m c "unat ps" ty code body] m(1) c ps by (auto simp: echo_message_def)
qed

lemma echo_answer6_frame:
  assumes "ip = take 40 (drop 14 req)" "n = be16 (req ! 18) (req ! 19)" "8 \<le> n" "54 + n \<le> length req" "length (mac_array mac) = 6"
    and "m = echo_message 0x81 (req ! 55) (take (n - 4) (drop 58 req)) x y"
    and "tsum = inet_sum (replicate 16 0x02) + inet_sum (ip6_src_ip ip) + n + 58 + inet_sum (take (2 * (n div 2)) m)"
    and "tsum mod 65535 = 0" "tsum \<noteq> 0"
  shows "echo_answer6 mac req ((eth_src req @ mac_array mac @ [0x86, 0xdd]) @ reply_ip6 ip @ m @ rest)"
proof -
  let ?eth = "eth_src req @ mac_array mac @ [0x86, 0xdd]"
  let ?r = "?eth @ reply_ip6 ip @ m @ rest"
  have ip: "length ip = 40" using assms(1,3,4) by simp
  note f = reply_ip6_fields [OF ip]
  have eth: "length ?eth = 14" using assms(3-5) by (simp add: eth_src_def)
  have lm: "length m = n" using assms(3,4) by (simp add: assms(6) echo_message_def)
  have parts: "take 14 ?r = ?eth" "take 40 (drop 14 ?r) = reply_ip6 ip" "reply_message6 req ?r = m"
    using eth f(1) lm by (simp_all add: reply_message6_def assms(2) [symmetric])
  have body: "drop 4 (take n (drop 54 req)) = take (n - 4) (drop 58 req)" using assms(3) by (simp add: drop_take)
  show ?thesis
    unfolding echo_answer6_def echo_fields6_def valid_csum6_def Let_def whole_words_def assms(1) [symmetric] assms(2) [symmetric]
      parts f body lm assms(7) [symmetric]
    using assms(8,9) by (simp add: assms(6) echo_message_def)
qed

lemma icmpv6_fill_reply_correct:
  assumes ip: "ip = take 40 (drop 14 req)" and icmp: "icmp = take 8 (drop 54 req)"
    and n: "n = be16 (ip ! 4) (ip ! 5)" "8 \<le> n" "54 + n \<le> length req" "54 + n \<le> length resp"
    and mac: "length (mac_array mac) = 6"
  shows "\<exists>r. icmpv6_fill_reply mac req ip icmp (of_nat n) resp = Inr r \<and>
     length r = length resp \<and> echo_answer6 mac req r"
proof -
  let ?eth = "eth_src req @ mac_array mac @ [0x86, 0xdd]" and ?body = "take (n - 4) (drop 58 req)" and ?rest = "drop (54 + n) resp"
  let ?M = "echo_message 0x81 (req ! 55) ?body" and ?pre = "?eth @ reply_ip6 ip"
  have n16: "n < 65536" using n(1) be16_less by simp
  have lens: "length ip = 40" "length icmp = 8" "length ?eth = 14" "length (ip6_src_ip ip) = 16"
    using ip icmp n mac by (simp_all add: eth_src_def ip6_src_ip_def)
  have n': "n = be16 (req ! 18) (req ! 19)" using n(1-3) ip by simp
  note f = reply_ip6_fields [OF lens(1)]
  have code: "icmp_code icmp = req ! 55" using n by (simp add: icmp_code_def icmp)
  have "length ?pre = 54" "n = length ?body + 4" using lens(3) f(1) n by simp_all
  from reply_checksum6 [OF this(1) lens(4) this(2) n(2) n16, of "0x81" "req ! 55" ?rest]
  obtain c x y tsum where c: "x = byte_at 8 (csum_finish c)" "y = ucast (csum_finish c)"
    "csum_loop (?pre @ ?M 0 0 @ ?rest) 27 (27 + n div 2) (icmpv6_pseudo_sum (ip6_src_ip ip) (of_nat n)) = Inr c"
    "tsum = inet_sum (replicate 16 0x02) + inet_sum (ip6_src_ip ip) + n + 58 + inet_sum (take (2 * (n div 2)) (?M x y))"
    "tsum mod 65535 = 0" "tsum \<noteq> 0" by (elim exE conjE) (rule that)
  let ?ich = "[0x81, icmp_code icmp] @ le16 0 @ icmp_identifier icmp @ icmp_sequence icmp"
  have p: "length [0x86, 0xdd :: u8] = 2" "12 \<le> length req" "reply_ip6 ip \<noteq> []" "14 + 40 = 14 + length (reply_ip6 ip)"
    "14 + 40 + 8 \<le> 54 + n" "length ?ich = 8"
    using n(2,3) f(1) lens(2) by (simp_all add: icmp_identifier_def icmp_sequence_def) (simp add: reply_ip6_def)
  have r4: "?eth @ reply_ip6 ip @ ?ich @ take (54 + n - (14 + 40 + 8)) (drop (14 + 40 + 8) req) @ ?rest = ?pre @ ?M 0 0 @ ?rest"
    using echo_message_written [OF icmp n(2,3), of "0x81" "req ! 55"] n by (simp add: code)
  note S = reply_steps [OF mac p(1-4,6,5) n(3,4), unfolded r4]
  have sp: "splice 56 [x, y] (?pre @ ?M 0 0 @ ?rest) = ?pre @ ?M x y @ ?rest"
    using splice_middle [of "?pre @ [0x81, req ! 55]" 56 "[0, 0]" "[x, y]" "?body @ ?rest"] lens(3) f(1)
    by (simp add: echo_message_def)
  have "icmpv6_fill_reply mac req ip icmp (of_nat n) resp = Inr (?pre @ ?M x y @ ?rest)"
    unfolding icmpv6_fill_reply_def Let_def generate_ipv6_header_def f(7) unat_frame_len6 [OF n16] S
    using c(1-3) sp by (simp add: csum_finish_field)
  moreover have "length (?pre @ ?M x y @ ?rest) = length resp" using n lens(3) f(1) by (simp add: echo_message_def)
  moreover have "echo_answer6 mac req (?pre @ ?M x y @ ?rest)"
    using echo_answer6_frame [OF ip n' n(2,3) mac refl c(4-6)] by simp
  ultimately show ?thesis by blast
qed

end
