(* ===== verification/Stack_Behaviour.thy ===== *)
theory Stack_Behaviour
  imports Net_Stack Echo_Reply
begin

text \<open>
  What the processing nodes do with packets: the replies to ICMP echo requests and to ARP requests,
  what no packet can change in the tables, and the packets that bring the kernel down.
\<close>

section \<open>Well-formed states\<close>

text \<open>Interfaces have transmit queues in shape and addresses of six bytes, the tables are well formed.\<close>

definition iface_ok :: "virtio_net \<Rightarrow> bool" where
  "iface_ok v \<longleftrightarrow> vq_wf (vn_txq v) \<and> length (mac_array (vn_macaddr v)) = 6"

definition net_ok :: "net_state \<Rightarrow> bool" where
  "net_ok s \<longleftrightarrow> (\<forall>v\<in>set (ns_ifaces s). iface_ok v) \<and> wf4 (ns_tables s) \<and> wf6 (ns_tables s) \<and>
     (\<forall>ip adj. ipv4_adjacent (ns_tables s) ip = Some adj \<longrightarrow> adj_netif adj < length (ns_ifaces s))"

text \<open>The state of an interface after a frame was queued for transmission and the device notified.\<close>

definition vnet_sent :: "buffer \<Rightarrow> virtio_net \<Rightarrow> virtio_net" where
  "vnet_sent b v = v\<lparr>vn_txq := vq_after_push b True (vn_txq v), vn_virtio := mmio_kick_queue 1 (vn_virtio v)\<rparr>"

lemma vnet_sent_fields [simp]:
  "vn_id (vnet_sent b v) = vn_id v" "vn_macaddr (vnet_sent b v) = vn_macaddr v"
  "vn_rxq (vnet_sent b v) = vn_rxq v" "vn_txq (vnet_sent b v) = vq_after_push b True (vn_txq v)"
  by (simp_all add: vnet_sent_def)

lemma iface_ok_sent: "iface_ok v \<Longrightarrow> iface_ok (vnet_sent b v)"
  by (simp add: iface_ok_def vq_after_push_wf)

lemma netif_xmit_ok:
  assumes "k < length (ns_ifaces s)" "iface_ok (ns_ifaces s ! k)"
  shows "netif_xmit k b s = Inr (s\<lparr>ns_ifaces := (ns_ifaces s)[k := vnet_sent b (ns_ifaces s ! k)]\<rparr>)"
  using assms by (simp add: netif_xmit_def vnet_xmit_def get_at_ok iface_ok_def vq_push_ok vnet_sent_def)

text \<open>A frame of \<open>sz\<close> bytes is prepared, filled by \<open>fill\<close> and sent over the interface \<open>k\<close>.\<close>

lemma reply_is_sent:
  assumes k: "k < length (ns_ifaces s)" "iface_ok (ns_ifaces s ! k)" and sz: "unat sz + 12 \<le> 2 ^ 63"
    and fill: "\<And>resp. unat sz \<le> length resp \<Longrightarrow> length (mac_array mac) = 6 \<Longrightarrow> mac = vn_macaddr (ns_ifaces s ! k) \<Longrightarrow>
        \<exists>r. fill mac resp = Inr r \<and> length r = length resp \<and> P r"
    and mac: "mac = vn_macaddr (ns_ifaces s ! k)"
  shows "\<exists>b r. rbind (netif_pre_xmit heap sz s) (\<lambda>(respbuff, s).
       rbind (buffer_slice respbuff) (\<lambda>respslice.
       rbind (netif_macaddress k s) (\<lambda>mac.
       rbind (fill mac respslice) (\<lambda>r. netif_xmit k (buffer_put_slice r respbuff) s)))) =
     Inr (s\<lparr>ns_allocs := Suc (ns_allocs s), ns_ifaces := (ns_ifaces s)[k := vnet_sent b (ns_ifaces s ! k)]\<rparr>) \<and>
     buf_size b = sz + 12 \<and> buf_position b = 12 \<and> buf_mem b = replicate 12 0 @ r \<and> P r"
proof -
  obtain b sl where b: "vnet_pre_xmit heap sz (ns_allocs s) = Inr (b, Suc (ns_allocs s))"
    "buf_size b = sz + 12" "buf_position b = 12" "buf_mem b = replicate 12 0 @ sl" "buffer_slice b = Inr sl"
    "length sl = ((unat sz + 11) div 4096 + 1) * 4096 - 12"
    using vnet_pre_xmit_ok [OF sz, of heap "ns_allocs s"] by blast
  have "unat sz + 12 \<le> ((unat sz + 11) div 4096 + 1) * 4096"
    using div_mult_mod_eq [of "unat sz + 11" 4096] mod_less_divisor [of 4096 "unat sz + 11"] by simp
  then have len: "unat sz \<le> length sl" using b(6) by simp
  have "length (mac_array mac) = 6" using k(2) mac by (simp add: iface_ok_def)
  from fill [OF len this mac] obtain r where r: "fill mac sl = Inr r" "length r = length sl" "P r" by blast
  let ?s = "s\<lparr>ns_allocs := Suc (ns_allocs s)\<rparr>"
  have "netif_macaddress k ?s = Inr mac" using k mac by (simp add: netif_macaddress_def get_at_ok)
  moreover have "netif_xmit k (buffer_put_slice r b) ?s =
      Inr (?s\<lparr>ns_ifaces := (ns_ifaces s)[k := vnet_sent (buffer_put_slice r b) (ns_ifaces s ! k)]\<rparr>)"
    using netif_xmit_ok [of k ?s "buffer_put_slice r b"] k by simp
  moreover have "buf_mem (buffer_put_slice r b) = replicate 12 0 @ r" "buf_size (buffer_put_slice r b) = sz + 12"
    "buf_position (buffer_put_slice r b) = 12"
    using b by (simp_all add: buffer_put_slice_def)
  ultimately show ?thesis using b r
    by (intro exI [of _ "buffer_put_slice r b"] exI [of _ r]) (simp add: netif_pre_xmit_def)
qed

section \<open>Echo requests\<close>

lemma take_2_drop: "i + 2 \<le> length xs \<Longrightarrow> take 2 (drop i xs) = [xs ! i, xs ! Suc i]"
  by (simp add: numeral_2_eq_2 take_Suc_conv_app_nth)

lemma len_field_unat: "len_field [a, b] = of_nat (be16 a b)"
proof -
  have "unat (push_bit 8 (ucast a) OR ucast b :: usize) = be16 a b"
  proof -
    have disj: "(push_bit 8 (ucast a) :: usize) AND ucast b = 0"
      using bit_imp_le_length [of b] by (intro bit_word_eqI) (force simp: bit_simps)
    have "(push_bit 8 (ucast a) OR ucast b :: usize) = of_nat (be16 a b)"
      using disjunctive_add_eq_or [OF disj] by (simp add: be16_def push_bit_eq_mult)
    then show ?thesis using be16_less [of a b] by (simp add: unat_of_nat_small)
  qed
  then show ?thesis unfolding len_field_def by (metis nth_Cons_0 nth_Cons_Suc One_nat_def of_nat_unat ucast_id)
qed

text \<open>A frame that holds a well-formed IPv4 echo request without IP options.\<close>

definition echo_request4 :: "u8 list \<Rightarrow> bool" where
  "echo_request4 req \<longleftrightarrow>
     (let ip = take 20 (drop 14 req); tot = be16 (ip ! 2) (ip ! 3) in
      34 \<le> length req \<and> ip4_header_len ip = 20 \<and> 28 \<le> tot \<and> 14 + tot \<le> length req \<and> req ! 34 = 0x08)"

lemma icmpv4_echo_sent:
  assumes "buffer_slice (nd_buffer frame) = Inr req" and "echo_request4 req"
    and "nd_netif frame < length (ns_ifaces s)" and "iface_ok (ns_ifaces s ! nd_netif frame)"
  shows "\<exists>b r. icmpv4_in_frame heap frame s =
      Inr (s\<lparr>ns_allocs := Suc (ns_allocs s),
             ns_ifaces := (ns_ifaces s)[nd_netif frame := vnet_sent b (ns_ifaces s ! nd_netif frame)]\<rparr>) \<and>
    buf_position b = 12 \<and> buf_mem b = replicate 12 0 @ r \<and>
    unat (buf_size b) = 26 + be16 (req ! 16) (req ! 17) \<and>
    echo_answer4 (vn_macaddr (ns_ifaces s ! nd_netif frame)) req r"
proof -
  define ip where "ip = take 20 (drop 14 req)"
  define icmp where "icmp = take 8 (drop 34 req)"
  define tot where "tot = be16 (ip ! 2) (ip ! 3)"
  have req: "34 \<le> length req" "ip4_header_len ip = 20" "28 \<le> tot" "14 + tot \<le> length req" "req ! 34 = 0x08"
    using assms(2) unfolding echo_request4_def Let_def ip_def [symmetric] tot_def [symmetric] by simp_all
  have tot': "tot = be16 (req ! 16) (req ! 17)" using req(1) by (simp add: tot_def ip_def)
  have t16: "tot < 65536" using be16_less by (simp add: tot_def)
  have lip: "length ip = 20" using req(1) by (simp add: ip_def)
  have "ip4_length ip = [ip ! 2, ip ! 3]"
    using take_2_drop [of 2 ip] lip by (simp add: ip4_length_def)
  then have len: "len_field (ip4_length ip) - of_nat 20 = of_nat (tot - 20)"
    using req(3) by (simp add: len_field_unat tot_def [symmetric])
  have t20: "20 \<le> tot" using req(3) by simp
  note fl = unat_frame_len(1) [OF t20 t16, simplified]
  have views: "view_at req 14 20 = Inr ip" "view_at req (14 + 20) 8 = Inr icmp" "icmp_type icmp = 0x08"
    using req by (simp_all add: view_at_def ip_def icmp_def icmp_type_def)
  have "\<exists>b r. icmpv4_in_frame heap frame s =
      Inr (s\<lparr>ns_allocs := Suc (ns_allocs s),
             ns_ifaces := (ns_ifaces s)[nd_netif frame := vnet_sent b (ns_ifaces s ! nd_netif frame)]\<rparr>) \<and>
    buf_size b = (14 + 20 + of_nat (tot - 20)) + 12 \<and> buf_position b = 12 \<and> buf_mem b = replicate 12 0 @ r \<and>
    echo_answer4 (vn_macaddr (ns_ifaces s ! nd_netif frame)) req r"
    unfolding icmpv4_in_frame_def assms(1) rbind_Inr views(1) req(2) views(2) Let_def len
    using views(3) assms(3,4) t16 icmpv4_fill_reply_correct [OF ip_def icmp_def tot_def req(3,4)]
    by (simp only: simp_thms if_True, intro reply_is_sent) (simp_all add: fl)
  moreover have "unat ((14 + 20 + of_nat (tot - 20) :: usize) + 12) = 26 + tot"
    using fl t16 by (subst unat_word_ariths) simp
  ultimately show ?thesis unfolding tot' by metis
qed

lemma echo_request4_length:
  assumes "echo_request4 req"
  shows "28 \<le> be16 (req ! 16) (req ! 17) \<and> 14 + be16 (req ! 16) (req ! 17) \<le> length req"
proof -
  have "34 \<le> length req" using assms by (simp add: echo_request4_def Let_def)
  then have e: "take 20 (drop 14 req) ! 2 = req ! 16" "take 20 (drop 14 req) ! 3 = req ! 17" by simp_all
  show ?thesis using assms unfolding echo_request4_def Let_def e by blast
qed

text \<open>
  C1.  Answering an IPv4 echo request.  On an interface in shape, the ICMP node answers an echo request with an IP
  header of 20 bytes, lengths that fit the frame and an even number of bytes by queueing exactly one frame for
  transmission on the interface the request came from: 12 zero bytes of virtio header and a correct reply
  (addresses exchanged, identifier, sequence number and data repeated, both checksums valid).  Nothing else changes.
\<close>

theorem icmpv4_answers_echo:
  assumes "buffer_slice (nd_buffer frame) = Inr req" and "echo_request4 req" and "even (be16 (req ! 16) (req ! 17))"
    and "nd_netif frame < length (ns_ifaces s)" and "iface_ok (ns_ifaces s ! nd_netif frame)"
  shows "\<exists>b r. icmpv4_in_frame heap frame s =
      Inr (s\<lparr>ns_allocs := Suc (ns_allocs s),
             ns_ifaces := (ns_ifaces s)[nd_netif frame := vnet_sent b (ns_ifaces s ! nd_netif frame)]\<rparr>) \<and>
    buf_position b = 12 \<and> buf_mem b = replicate 12 0 @ r \<and>
    unat (buf_size b) = 26 + be16 (req ! 16) (req ! 17) \<and>
    echo_reply4 (vn_macaddr (ns_ifaces s ! nd_netif frame)) req r"
  using icmpv4_echo_sent [OF assms(1,2,4,5), of heap] echo_answer4_even [OF _ _ assms(3)] echo_request4_length [OF assms(2)] by fastforce

text \<open>
  The reply to a request of an odd number of bytes is the same in all fields, but its checksum leaves out the
  last byte: unless that byte is zero, the checksum of the reply is wrong.
\<close>

theorem icmpv4_odd_echo_invalid:
  assumes "buffer_slice (nd_buffer frame) = Inr req" and "echo_request4 req" and "odd (be16 (req ! 16) (req ! 17))"
    and "req ! (13 + be16 (req ! 16) (req ! 17)) \<noteq> 0"
    and "nd_netif frame < length (ns_ifaces s)" and "iface_ok (ns_ifaces s ! nd_netif frame)"
  shows "\<exists>b r. icmpv4_in_frame heap frame s =
      Inr (s\<lparr>ns_allocs := Suc (ns_allocs s),
             ns_ifaces := (ns_ifaces s)[nd_netif frame := vnet_sent b (ns_ifaces s ! nd_netif frame)]\<rparr>) \<and>
    buf_mem b = replicate 12 0 @ r \<and> echo_fields4 (vn_macaddr (ns_ifaces s ! nd_netif frame)) req r \<and>
    \<not> valid_csum (reply_message4 req r)"
proof -
  let ?tot = "be16 (req ! 16) (req ! 17)"
  have t: "28 \<le> ?tot" "14 + ?tot \<le> length req" using echo_request4_length [OF assms(2)] by simp_all
  obtain b r where b: "icmpv4_in_frame heap frame s =
      Inr (s\<lparr>ns_allocs := Suc (ns_allocs s),
             ns_ifaces := (ns_ifaces s)[nd_netif frame := vnet_sent b (ns_ifaces s ! nd_netif frame)]\<rparr>)"
    "buf_mem b = replicate 12 0 @ r" "echo_answer4 (vn_macaddr (ns_ifaces s ! nd_netif frame)) req r"
    using icmpv4_echo_sent [OF assms(1,2,5,6)] by blast
  let ?m = "reply_message4 req r"
  have m: "length ?m = ?tot - 20" "drop 4 ?m = drop 4 (take (?tot - 20) (drop 34 req))" "valid_csum (whole_words ?m)"
    using b(3) by (auto simp: echo_answer4_def echo_fields4_def Let_def)
  have "last ?m = last (drop 4 ?m)" using m(1) t(1) by (simp add: last_drop)
  also have "\<dots> = last (take (?tot - 20) (drop 34 req))" unfolding m(2) using t by (intro last_drop) simp
  also have "\<dots> = req ! (13 + ?tot)" using t by (subst last_conv_nth) auto
  finally have "last ?m \<noteq> 0" using assms(4) by simp
  moreover have "odd (length ?m)" using m(1) t(1) assms(3) by simp
  ultimately have "\<not> valid_csum ?m" using valid_csum_odd [OF _ m(3)] by simp
  then show ?thesis using b by (auto simp: echo_answer4_def)
qed

definition echo_request6 :: "u8 list \<Rightarrow> bool" where
  "echo_request6 req \<longleftrightarrow>
     (let ip = take 40 (drop 14 req); len = be16 (ip ! 4) (ip ! 5) in
      54 \<le> length req \<and> 8 \<le> len \<and> 54 + len \<le> length req \<and> req ! 54 = 0x80)"

lemma icmpv6_echo_sent:
  assumes "buffer_slice (nd_buffer frame) = Inr req" and "echo_request6 req"
    and "nd_netif frame < length (ns_ifaces s)" and "iface_ok (ns_ifaces s ! nd_netif frame)"
  shows "\<exists>b r. icmpv6_in_frame heap frame s =
      Inr (s\<lparr>ns_allocs := Suc (ns_allocs s),
             ns_ifaces := (ns_ifaces s)[nd_netif frame := vnet_sent b (ns_ifaces s ! nd_netif frame)]\<rparr>) \<and>
    buf_position b = 12 \<and> buf_mem b = replicate 12 0 @ r \<and>
    unat (buf_size b) = 66 + be16 (req ! 18) (req ! 19) \<and>
    echo_answer6 (vn_macaddr (ns_ifaces s ! nd_netif frame)) req r"
proof -
  define ip where "ip = take 40 (drop 14 req)"
  define icmp where "icmp = take 8 (drop 54 req)"
  define n where "n = be16 (ip ! 4) (ip ! 5)"
  have req: "54 \<le> length req" "8 \<le> n" "54 + n \<le> length req" "req ! 54 = 0x80"
    using assms(2) unfolding echo_request6_def Let_def ip_def [symmetric] n_def [symmetric] by simp_all
  have n': "n = be16 (req ! 18) (req ! 19)" using req(1) by (simp add: n_def ip_def)
  have n16: "n < 65536" using be16_less by (simp add: n_def)
  have lip: "length ip = 40" using req(1) by (simp add: ip_def)
  have "ip6_length ip = [ip ! 4, ip ! 5]"
    using take_2_drop [of 4 ip] lip by (simp add: ip6_length_def)
  then have len: "len_field (ip6_length ip) = of_nat n" by (simp add: len_field_unat n_def [symmetric])
  note fl = unat_frame_len6(1) [OF n16, simplified]
  have views: "view_at req 14 40 = Inr ip" "view_at req (14 + 40) 8 = Inr icmp" "icmp_type icmp = 0x80"
    using req by (simp_all add: view_at_def ip_def icmp_def icmp_type_def)
  have "\<exists>b r. icmpv6_in_frame heap frame s =
      Inr (s\<lparr>ns_allocs := Suc (ns_allocs s),
             ns_ifaces := (ns_ifaces s)[nd_netif frame := vnet_sent b (ns_ifaces s ! nd_netif frame)]\<rparr>) \<and>
    buf_size b = (14 + 40 + of_nat n) + 12 \<and> buf_position b = 12 \<and> buf_mem b = replicate 12 0 @ r \<and>
    echo_answer6 (vn_macaddr (ns_ifaces s ! nd_netif frame)) req r"
    unfolding icmpv6_in_frame_def assms(1) rbind_Inr views(1) views(2) Let_def len
    using views(3) assms(3,4) n16 icmpv6_fill_reply_correct [OF ip_def icmp_def n_def req(2,3)]
    by (simp only: simp_thms if_True, intro reply_is_sent) (simp_all add: fl)
  moreover have "unat ((14 + 40 + of_nat n :: usize) + 12) = 66 + n"
    using fl n16 by (subst unat_word_ariths) simp
  ultimately show ?thesis unfolding n' by metis
qed

text \<open>
  C15.  Answering an IPv6 echo request with lengths that fit the frame and an even number of bytes: one frame is
  queued on the interface the request came from, with the checksum valid for the addresses the reply carries.
\<close>

theorem icmpv6_answers_echo:
  assumes "buffer_slice (nd_buffer frame) = Inr req" and "echo_request6 req" and "even (be16 (req ! 18) (req ! 19))"
    and "nd_netif frame < length (ns_ifaces s)" and "iface_ok (ns_ifaces s ! nd_netif frame)"
  shows "\<exists>b r. icmpv6_in_frame heap frame s =
      Inr (s\<lparr>ns_allocs := Suc (ns_allocs s),
             ns_ifaces := (ns_ifaces s)[nd_netif frame := vnet_sent b (ns_ifaces s ! nd_netif frame)]\<rparr>) \<and>
    buf_position b = 12 \<and> buf_mem b = replicate 12 0 @ r \<and>
    unat (buf_size b) = 66 + be16 (req ! 18) (req ! 19) \<and>
    echo_reply6 (vn_macaddr (ns_ifaces s ! nd_netif frame)) req r"
  using icmpv6_echo_sent [OF assms(1,2,4,5), of heap] echo_answer6_even [OF _ assms(3)] by fastforce

section \<open>ARP requests\<close>

text \<open>The frame that answers the ARP packet \<open>arp\<close>, as bytes on the wire.\<close>

definition arp_reply :: "mac_address \<Rightarrow> u8 list \<Rightarrow> u8 list" where
  "arp_reply mac arp =
     arp_sha arp @ mac_array mac @ [0x08, 0x06] @
     [0x00, 0x01, 0x08, 0x00, 6, 4, 0x00, 0x02] @ mac_array mac @ arp_tpa arp @ arp_sha arp @ arp_spa arp"

text \<open>The tables after an ARP packet from \<open>req\<close> on the interface \<open>k\<close>: its sender is learnt.\<close>

definition arp_learn :: "netif_ref \<Rightarrow> u8 list \<Rightarrow> fib_tables \<Rightarrow> fib_tables" where
  "arp_learn k req t =
     (let arp = take 28 (drop 14 req); mac = mac_new (arp_sha arp); ip = ipv4_from_array (arp_spa arp) in
      register_ipv4_adjacent ip mac k False None
        (t\<lparr>ipv4_fib_index := (ipv4_fib_index t)[32 := (ipv4_fib_index t ! 32)(ip \<mapsto> mk_fib4 mac ip k AdjacentResolved)]\<rparr>))"

lemma arp_register:
  assumes "wf4 t"
  shows "register_ipv4_fib ip 0xffffffff mac ip k AdjacentResolved t =
    Inr (t\<lparr>ipv4_fib_index := (ipv4_fib_index t)[32 := (ipv4_fib_index t ! 32)(ip \<mapsto> mk_fib4 mac ip k AdjacentResolved)]\<rparr>)"
  using assms by (simp add: register_ipv4_fib_ok wf4_def)

lemma find_register_ipv4_adjacent:
  "ipv4_adjacent (register_ipv4_adjacent ip mac k l x t) a =
     (if ip = a \<and> (\<forall>e. ipv4_adjacent t ip = Some e \<longrightarrow> adj_expire_time e \<noteq> None)
      then Some (adj_new mac k l x) else ipv4_adjacent t a)"
  using adj4.find_register [of ip "adj_new mac k l x" t a]
  by (simp only: adj4_register_def adj_new_def adjacent_information.select_convs)

lemma arp_learn_adjacent:
  "ipv4_adjacent (arp_learn k req t) a =
     (let arp = take 28 (drop 14 req); ip = ipv4_from_array (arp_spa arp) in
      if ip = a \<and> (\<forall>e. ipv4_adjacent t ip = Some e \<longrightarrow> adj_expire_time e \<noteq> None)
      then Some (adj_new (mac_new (arp_sha arp)) k False None) else ipv4_adjacent t a)"
  by (auto simp: arp_learn_def Let_def find_register_ipv4_adjacent)

lemma arp_fill:
  assumes "length (mac_array mac) = 6" "length arp = 28" "42 \<le> length resp"
  shows "rbind (generate_ether_header resp mac (mac_new (arp_sha arp)) [0x08, 0x06]) (\<lambda>r.
      with_tail r 14 (\<lambda>t. generate_arp_packet t 0x0200 mac (ipv4_from_array (arp_tpa arp)) (mac_new (arp_sha arp))
        (ipv4_from_array (arp_spa arp)))) = Inr (arp_reply mac arp @ drop 42 resp)"
proof -
  have lens: "length (arp_sha arp) = 6" "length (arp_spa arp) = 4" "length (arp_tpa arp) = 4"
    using assms(2) by (simp_all add: arp_sha_def arp_spa_def arp_tpa_def)
  let ?eth = "arp_sha arp @ mac_array mac @ [0x08, 0x06]"
  let ?arp = "le16 0x0100 @ le16 0x0008 @ [6, 4] @ le16 0x0200 @ mac_array mac @
      ipv4_get_array (ipv4_from_array (arp_tpa arp)) @ arp_sha arp @ ipv4_get_array (ipv4_from_array (arp_spa arp))"
  have ne: "?eth \<noteq> []" "?arp \<noteq> []" by (auto simp: le16_def)
  have le: "length ?eth = 14" "length ?arp = 28" "length ?eth \<le> length resp" "length ?arp \<le> length (drop 14 resp)"
    using lens assms by (simp_all add: ipv4_get_from_array)
  have arp: "?arp = [0x00, 0x01, 0x08, 0x00, 6, 4, 0x00, 0x02] @ mac_array mac @ arp_tpa arp @ arp_sha arp @ arp_spa arp"
    using lens by (simp add: ipv4_get_from_array le16_def)
  have e: "generate_ether_header resp mac (mac_new (arp_sha arp)) [0x08, 0x06] = Inr (?eth @ drop 14 resp)"
    using write_at_front [OF ne(1) le(3)] le(1) by (simp add: generate_ether_header_def)
  have a: "with_tail (?eth @ drop 14 resp) 14 (\<lambda>t. generate_arp_packet t 0x0200 mac (ipv4_from_array (arp_tpa arp))
      (mac_new (arp_sha arp)) (ipv4_from_array (arp_spa arp))) = Inr (?eth @ ?arp @ drop 42 resp)"
    unfolding generate_arp_packet_def mac_array_new using with_tail_write [OF ne(2) le(1,4)] le(2) by simp
  show ?thesis unfolding e rbind_Inr a arp by (simp add: arp_reply_def)
qed

lemma length_arp_reply: "length (mac_array mac) = 6 \<Longrightarrow> length arp = 28 \<Longrightarrow> length (arp_reply mac arp) = 42"
  by (simp add: arp_reply_def arp_sha_def arp_spa_def arp_tpa_def)

text \<open>A request for a local address is answered on the interface of that address.\<close>

lemma arp_respond_sends:
  assumes "length arp = 28" "arp_oper arp = 0x0100" "adj_is_local adj"
    and "ipv4_adjacent (ns_tables s) (ipv4_from_array (arp_tpa arp)) = Some adj"
    and "adj_netif adj < length (ns_ifaces s)" "iface_ok (ns_ifaces s ! adj_netif adj)"
  shows "\<exists>b rest. arp_respond heap arp s =
      Inr (s\<lparr>ns_allocs := Suc (ns_allocs s),
             ns_ifaces := (ns_ifaces s)[adj_netif adj := vnet_sent b (ns_ifaces s ! adj_netif adj)]\<rparr>) \<and>
    buf_size b = 54 \<and> buf_position b = 12 \<and>
    buf_mem b = replicate 12 0 @ arp_reply (vn_macaddr (ns_ifaces s ! adj_netif adj)) arp @ rest"
proof -
  let ?k = "adj_netif adj" and ?mac = "vn_macaddr (ns_ifaces s ! adj_netif adj)"
  define fill where "fill mac resp = rbind (generate_ether_header resp mac (mac_new (arp_sha arp)) [0x08, 0x06]) (\<lambda>r.
      with_tail r 14 (\<lambda>t. generate_arp_packet t 0x0200 mac (ipv4_from_array (arp_tpa arp)) (mac_new (arp_sha arp))
        (ipv4_from_array (arp_spa arp))))" for mac resp
  have filled: "\<exists>r. fill ?mac resp = Inr r \<and> length r = length resp \<and> (\<exists>rest. r = arp_reply ?mac arp @ rest)"
    if "unat (14 + 28 :: usize) \<le> length resp" "length (mac_array ?mac) = 6" for resp
    using arp_fill [OF that(2) assms(1), of resp] that length_arp_reply [OF that(2) assms(1)]
    by (simp add: fill_def)
  have "\<exists>b r. rbind (netif_pre_xmit heap (14 + 28) s) (\<lambda>(respbuff, s).
       rbind (buffer_slice respbuff) (\<lambda>respslice.
       rbind (netif_macaddress ?k s) (\<lambda>mac.
       rbind (fill mac respslice) (\<lambda>r. netif_xmit ?k (buffer_put_slice r respbuff) s)))) =
     Inr (s\<lparr>ns_allocs := Suc (ns_allocs s), ns_ifaces := (ns_ifaces s)[?k := vnet_sent b (ns_ifaces s ! ?k)]\<rparr>) \<and>
     buf_size b = (14 + 28) + 12 \<and> buf_position b = 12 \<and> buf_mem b = replicate 12 0 @ r \<and>
     (\<exists>rest. r = arp_reply ?mac arp @ rest)"
    using assms(5,6) filled by (intro reply_is_sent) simp_all
  moreover have "arp_respond heap arp s = rbind (netif_pre_xmit heap (14 + 28) s) (\<lambda>(respbuff, s).
       rbind (buffer_slice respbuff) (\<lambda>respslice.
       rbind (netif_macaddress ?k s) (\<lambda>mac.
       rbind (fill mac respslice) (\<lambda>r. netif_xmit ?k (buffer_put_slice r respbuff) s))))"
    using assms(2-4) by (simp add: arp_respond_def Let_def fill_def rbind_assoc)
  ultimately show ?thesis by auto
qed

lemma arp_in_frame_learns:
  assumes "buffer_slice (nd_buffer frame) = Inr req" "42 \<le> length req" "wf4 (ns_tables s)"
  shows "arp_in_frame heap frame s =
     arp_respond heap (take 28 (drop 14 req)) (s\<lparr>ns_tables := arp_learn (nd_netif frame) req (ns_tables s)\<rparr>)"
  using assms by (simp add: arp_in_frame_def view_at_def Let_def arp_register arp_learn_def)

text \<open>
  C5.  Answering an ARP request.  For a request that asks for a permanent local address, the ARP
  node learns the sender and queues exactly the reply on the interface of that address; the sender
  cannot displace the local entry.
\<close>

theorem arp_answers_request:
  assumes "buffer_slice (nd_buffer frame) = Inr req" and "42 \<le> length req"
    and "arp_oper (take 28 (drop 14 req)) = 0x0100" and "net_ok s"
    and "ipv4_adjacent (ns_tables s) (ipv4_from_array (arp_tpa (take 28 (drop 14 req)))) = Some adj"
    and "adj_is_local adj" and "adj_expire_time adj = None"
  shows "\<exists>b rest. arp_in_frame heap frame s =
      Inr (s\<lparr>ns_tables := arp_learn (nd_netif frame) req (ns_tables s), ns_allocs := Suc (ns_allocs s),
             ns_ifaces := (ns_ifaces s)[adj_netif adj := vnet_sent b (ns_ifaces s ! adj_netif adj)]\<rparr>) \<and>
    buf_size b = 54 \<and> buf_position b = 12 \<and>
    buf_mem b = replicate 12 0 @ arp_reply (vn_macaddr (ns_ifaces s ! adj_netif adj)) (take 28 (drop 14 req)) @ rest"
proof -
  let ?s = "s\<lparr>ns_tables := arp_learn (nd_netif frame) req (ns_tables s)\<rparr>" and ?arp = "take 28 (drop 14 req)"
  have wf: "wf4 (ns_tables s)" and k: "adj_netif adj < length (ns_ifaces ?s)"
    and ok: "iface_ok (ns_ifaces ?s ! adj_netif adj)" using assms(4,5) by (auto simp: net_ok_def)
  have adj: "ipv4_adjacent (ns_tables ?s) (ipv4_from_array (arp_tpa ?arp)) = Some adj"
    using assms(5,7) by (auto simp: arp_learn_adjacent Let_def)
  have len: "length ?arp = 28" using assms(2) by simp
  show ?thesis
    unfolding arp_in_frame_learns [OF assms(1,2) wf]
    using arp_respond_sends [OF len assms(3,6) adj k ok, of heap] by simp
qed

section \<open>What no packet can change\<close>

text \<open>
  The permanent entries of the three adjacency tables, which include the ones the kernel made for
  its own addresses, are kept from one state of the tables to another.
\<close>

definition adj_kept :: "fib_tables \<Rightarrow> fib_tables \<Rightarrow> bool" where
  "adj_kept t t' \<longleftrightarrow>
     (\<forall>k e. ipv4_adjacent t k = Some e \<and> adj_expire_time e = None \<longrightarrow> ipv4_adjacent t' k = Some e) \<and>
     (\<forall>k e. ipv6_adjacent t k = Some e \<and> adj_expire_time e = None \<longrightarrow> ipv6_adjacent t' k = Some e) \<and>
     (\<forall>k e. mac_addr_table t k = Some e \<and> adj_expire_time e = None \<longrightarrow> mac_addr_table t' k = Some e)"

lemma adj_kept_refl [simp, intro]: "adj_kept t t"
  by (simp add: adj_kept_def)

lemma adj_kept_trans [trans]: "adj_kept t t' \<Longrightarrow> adj_kept t' t'' \<Longrightarrow> adj_kept t t''"
  by (auto simp: adj_kept_def)

lemma adj_kept_fib:
  "register_ipv4_fib a m mac nh k ft t = Inr t' \<Longrightarrow> adj_kept t t'"
  "register_ipv6_fib a6 p mac nh6 k ft t = Inr t' \<Longrightarrow> adj_kept t t'"
  by (auto simp: register_ipv4_fib_def register_ipv6_fib_def Let_def rbind_eq_Inr adj_kept_def)

lemma adj_kept_register:
  "adj_kept t (register_ipv4_adjacent a mac k l x t)"
  "adj_kept t (register_ipv6_adjacent a6 mac k l x t)"
  "adj_kept t (register_macaddress mac k l x t)"
  by (auto simp: adj_kept_def register_ipv4_adjacent_def register_ipv6_adjacent_def register_macaddress_def
      split: option.split)

text \<open>Sending and preparing a frame leave the tables alone.\<close>

lemma tables_send:
  "netif_xmit k b s = Inr s' \<Longrightarrow> ns_tables s' = ns_tables s"
  "netif_pre_xmit heap sz s = Inr (b, s') \<Longrightarrow> ns_tables s' = ns_tables s"
  by (auto simp: netif_xmit_def netif_pre_xmit_def rbind_eq_Inr)

lemma arp_respond_tables: "arp_respond heap arp s = Inr s' \<Longrightarrow> ns_tables s' = ns_tables s"
  by (auto simp: arp_respond_def Let_def rbind_eq_Inr split: option.splits if_splits dest!: tables_send)

lemma arp_in_frame_kept:
  "arp_in_frame heap frame s = Inr s' \<Longrightarrow> adj_kept (ns_tables s) (ns_tables s')"
  by (auto simp: arp_in_frame_def Let_def rbind_eq_Inr dest!: arp_respond_tables adj_kept_fib
      intro: adj_kept_trans [OF _ adj_kept_register(1)])

lemma icmpv4_in_frame_tables:
  "icmpv4_in_frame heap frame s = Inr s' \<Longrightarrow> ns_tables s' = ns_tables s"
  by (auto simp: icmpv4_in_frame_def Let_def rbind_eq_Inr split: if_splits dest!: tables_send)

lemma icmpv6_in_frame_kept:
  "icmpv6_in_frame heap frame s = Inr s' \<Longrightarrow> adj_kept (ns_tables s) (ns_tables s')"
  by (auto simp: icmpv6_in_frame_def Let_def rbind_eq_Inr split: if_splits
      dest!: tables_send adj_kept_fib intro: adj_kept_trans [OF _ adj_kept_register(2)])

lemma icmpv4_in_local_tables: "icmpv4_in_local heap fs s = Inr s' \<Longrightarrow> ns_tables s' = ns_tables s"
  unfolding icmpv4_in_local_def
  by (erule rfold_keeps [where P = "\<lambda>s'. ns_tables s' = ns_tables s"]) (auto dest: icmpv4_in_frame_tables)

lemma icmpv6_in_local_kept: "icmpv6_in_local heap fs s = Inr s' \<Longrightarrow> adj_kept (ns_tables s) (ns_tables s')"
  unfolding icmpv6_in_local_def
  by (erule rfold_keeps [where P = "\<lambda>s'. adj_kept (ns_tables s) (ns_tables s')"])
    (auto dest: icmpv6_in_frame_kept intro: adj_kept_trans)

lemma arp_in_kept: "arp_in heap fs s = Inr s' \<Longrightarrow> adj_kept (ns_tables s) (ns_tables s')"
  unfolding arp_in_def
  by (erule rfold_keeps [where P = "\<lambda>s'. adj_kept (ns_tables s) (ns_tables s')"])
    (auto dest: arp_in_frame_kept intro: adj_kept_trans)

lemma ipv4_in_frame_tables:
  "ipv4_in_frame heap frame ps = Inr ps' \<Longrightarrow> ns_tables (snd ps') = ns_tables (snd ps)"
  by (auto simp: ipv4_in_frame_def Let_def rbind_eq_Inr split: prod.splits if_splits dest!: icmpv4_in_local_tables)

lemma ipv6_in_frame_kept:
  "ipv6_in_frame heap frame ps = Inr ps' \<Longrightarrow> adj_kept (ns_tables (snd ps)) (ns_tables (snd ps'))"
  by (auto simp: ipv6_in_frame_def Let_def rbind_eq_Inr split: prod.splits if_splits dest!: icmpv6_in_local_kept)

lemma ipv4_in_tables: "ipv4_in heap fs s = Inr s' \<Longrightarrow> ns_tables s' = ns_tables s"
proof -
  assume "ipv4_in heap fs s = Inr s'"
  then obtain p where p: "rfold (ipv4_in_frame heap) fs ([], s) = Inr (p, s')"
    by (auto simp: ipv4_in_def rbind_eq_Inr)
  have "ns_tables (snd (p, s')) = ns_tables s"
    by (rule rfold_keeps [OF p, where P = "\<lambda>ps. ns_tables (snd ps) = ns_tables s"]) (auto dest: ipv4_in_frame_tables)
  then show ?thesis by simp
qed

lemma ipv6_in_kept: "ipv6_in heap fs s = Inr s' \<Longrightarrow> adj_kept (ns_tables s) (ns_tables s')"
proof -
  assume "ipv6_in heap fs s = Inr s'"
  then obtain p where p: "rfold (ipv6_in_frame heap) fs ([], s) = Inr (p, s')"
    by (auto simp: ipv6_in_def rbind_eq_Inr)
  have "adj_kept (ns_tables s) (ns_tables (snd (p, s')))"
    by (rule rfold_keeps [OF p, where P = "\<lambda>ps. adj_kept (ns_tables s) (ns_tables (snd ps))"])
      (auto dest: ipv6_in_frame_kept intro: adj_kept_trans)
  then show ?thesis by simp
qed

lemma ethernet_in_frame_kept:
  "ethernet_in_frame frame ps = Inr ps' \<Longrightarrow> adj_kept (ns_tables (snd ps)) (ns_tables (snd ps'))"
  by (auto simp: ethernet_in_frame_def Let_def rbind_eq_Inr adj_kept_register split: prod.splits if_splits option.splits)

lemma optional_step: "(if c then f else Inr s) = Inr s' \<Longrightarrow> s' = s \<or> f = Inr s'"
  by (auto split: if_splits)

text \<open>The stages of \<open>ethernet_in\<close>: sorting, then each of the three nodes at most once.\<close>

lemma ethernet_in_stages:
  assumes "ethernet_in heap frames s = Inr s'"
  shows "\<exists>p s1 s2 s3.
    rfold ethernet_in_frame frames (\<lparr>arp_pkts = [], ipv4_pkts = [], ipv6_pkts = []\<rparr>, s) = Inr (p, s1) \<and>
    (s2 = s1 \<or> arp_in heap (arp_pkts p) s1 = Inr s2) \<and>
    (s3 = s2 \<or> ipv4_in heap (ipv4_pkts p) s2 = Inr s3) \<and>
    (s' = s3 \<or> ipv6_in heap (ipv6_pkts p) s3 = Inr s')"
proof -
  obtain p s1 where 1: "rfold ethernet_in_frame frames (\<lparr>arp_pkts = [], ipv4_pkts = [], ipv6_pkts = []\<rparr>, s) = Inr (p, s1)"
    using assms unfolding ethernet_in_def by (auto simp: rbind_def split: sum.splits)
  note steps = assms [unfolded ethernet_in_def 1 rbind_Inr prod.case rbind_eq_Inr]
  obtain s2 where 2: "(if 0 < length (arp_pkts p) \<and> ''arp-in'' \<in> set (ns_nodes s1) then arp_in heap (arp_pkts p) s1 else Inr s1) = Inr s2"
    and rest: "\<exists>s3. (if 0 < length (ipv4_pkts p) \<and> ''ipv4-in'' \<in> set (ns_nodes s2) then ipv4_in heap (ipv4_pkts p) s2 else Inr s2) = Inr s3 \<and>
       (if 0 < length (ipv6_pkts p) \<and> ''ipv6-in'' \<in> set (ns_nodes s3) then ipv6_in heap (ipv6_pkts p) s3 else Inr s3) = Inr s'"
    using steps by blast
  then obtain s3 where "s3 = s2 \<or> ipv4_in heap (ipv4_pkts p) s2 = Inr s3" "s' = s3 \<or> ipv6_in heap (ipv6_pkts p) s3 = Inr s'"
    by (blast dest: optional_step)
  with 1 optional_step [OF 2] show ?thesis by blast
qed

text \<open>
  C4.  No packets, in whatever number and with whatever contents, make the stack forget or change a
  permanent entry of the ARP table, the neighbour table or the MAC table, and so none can take over
  an address of the kernel in these tables.
\<close>

theorem packets_keep_permanent_entries:
  assumes "ethernet_in heap frames s = Inr s'"
  shows "adj_kept (ns_tables s) (ns_tables s')"
proof -
  obtain p s1 s2 s3 where
    1: "rfold ethernet_in_frame frames (\<lparr>arp_pkts = [], ipv4_pkts = [], ipv6_pkts = []\<rparr>, s) = Inr (p, s1)" and
    2: "s2 = s1 \<or> arp_in heap (arp_pkts p) s1 = Inr s2" and
    3: "s3 = s2 \<or> ipv4_in heap (ipv4_pkts p) s2 = Inr s3" and
    4: "s' = s3 \<or> ipv6_in heap (ipv6_pkts p) s3 = Inr s'"
    using ethernet_in_stages [OF assms] by blast
  have "adj_kept (ns_tables s) (ns_tables (snd (p, s1)))"
    by (rule rfold_keeps [OF 1, where P = "\<lambda>ps. adj_kept (ns_tables s) (ns_tables (snd ps))"])
      (auto dest: ethernet_in_frame_kept intro: adj_kept_trans)
  also have "adj_kept (ns_tables (snd (p, s1))) (ns_tables s2)" using 2 arp_in_kept by auto
  also have "adj_kept (ns_tables s2) (ns_tables s3)" using 3 ipv4_in_tables by auto
  also have "adj_kept (ns_tables s3) (ns_tables s')" using 4 ipv6_in_kept by auto
  finally show ?thesis .
qed

section \<open>ARP never brings the kernel down\<close>

lemma net_ok_sent:
  assumes "net_ok s" "k < length (ns_ifaces s)"
  shows "net_ok (s\<lparr>ns_allocs := n, ns_ifaces := (ns_ifaces s)[k := vnet_sent b (ns_ifaces s ! k)]\<rparr>)"
proof -
  have "iface_ok (vnet_sent b (ns_ifaces s ! k))" using assms by (intro iface_ok_sent) (simp add: net_ok_def)
  then show ?thesis using assms set_update_subset_insert [of "ns_ifaces s" k "vnet_sent b (ns_ifaces s ! k)"]
    by (auto simp: net_ok_def)
qed

lemma arp_respond_ok:
  assumes "net_ok s" "length arp = 28"
  shows "\<exists>s'. arp_respond heap arp s = Inr s' \<and> net_ok s' \<and> length (ns_ifaces s') = length (ns_ifaces s)"
proof (cases "\<exists>adj. ipv4_adjacent (ns_tables s) (ipv4_from_array (arp_tpa arp)) = Some adj \<and> adj_is_local adj \<and> arp_oper arp = 0x0100")
  case False
  then have "arp_respond heap arp s = Inr s" by (auto simp: arp_respond_def Let_def split: option.split)
  with assms(1) show ?thesis by simp
next
  case True
  then obtain adj where adj: "ipv4_adjacent (ns_tables s) (ipv4_from_array (arp_tpa arp)) = Some adj"
    "adj_is_local adj" "arp_oper arp = 0x0100" by blast
  have k: "adj_netif adj < length (ns_ifaces s)" and ok: "iface_ok (ns_ifaces s ! adj_netif adj)"
    using assms(1) adj(1) by (auto simp: net_ok_def)
  from arp_respond_sends [OF assms(2) adj(3,2,1) k ok, of heap] net_ok_sent [OF assms(1) k] show ?thesis by auto
qed

lemma wf6_arp_learn: "wf6 (arp_learn k req t) = wf6 t"
  by (simp add: arp_learn_def Let_def wf6_def register_ipv4_adjacent_def split: option.split)

lemma wf4_arp_learn:
  assumes "wf4 t" shows "wf4 (arp_learn k req t)"
proof -
  let ?ip = "ipv4_from_array (arp_spa (take 28 (drop 14 req)))" and ?mac = "mac_new (arp_sha (take 28 (drop 14 req)))"
  have "wf4 (t\<lparr>ipv4_fib_index := (ipv4_fib_index t)[32 := (ipv4_fib_index t ! 32)(?ip \<mapsto> mk_fib4 ?mac ?ip k AdjacentResolved)]\<rparr>)"
    by (rule register_ipv4_fib_wf [OF assms _ arp_register [OF assms]]) simp
  then show ?thesis
    by (simp add: arp_learn_def Let_def register_ipv4_adjacent_def wf4_def route4_def split: option.split)
qed

lemma net_ok_arp_learn:
  assumes "net_ok s" "k < length (ns_ifaces s)"
  shows "net_ok (s\<lparr>ns_tables := arp_learn k req (ns_tables s)\<rparr>)"
  using assms wf4_arp_learn
  by (auto simp: net_ok_def wf6_arp_learn arp_learn_adjacent Let_def adj_new_def split: if_splits)

text \<open>
  The ARP node is total.  Whatever the contents of the frames it gets, as long as they are 42
  bytes long and come from an interface of the kernel, it does not panic, and it keeps the tables
  and the interfaces in shape.
\<close>

theorem arp_in_total:
  assumes "net_ok s"
    and "\<forall>frame\<in>set frames. nd_netif frame < length (ns_ifaces s) \<and>
       (\<exists>req. buffer_slice (nd_buffer frame) = Inr req \<and> 42 \<le> length req)"
  shows "\<exists>s'. arp_in heap frames s = Inr s' \<and> net_ok s'"
proof -
  let ?P = "\<lambda>s'. net_ok s' \<and> length (ns_ifaces s') = length (ns_ifaces s)"
  have "\<exists>s'. rfold (arp_in_frame heap) frames s = Inr s' \<and> ?P s'"
  proof (rule rfold_invariant)
    fix frame s0 assume f: "frame \<in> set frames" and s0: "?P s0"
    then obtain req where req: "buffer_slice (nd_buffer frame) = Inr req" "42 \<le> length req"
      and k: "nd_netif frame < length (ns_ifaces s0)" using assms(2) by auto
    let ?s1 = "s0\<lparr>ns_tables := arp_learn (nd_netif frame) req (ns_tables s0)\<rparr>"
    have wf: "wf4 (ns_tables s0)" using s0 by (simp add: net_ok_def)
    have "net_ok ?s1" using s0 k by (intro net_ok_arp_learn) simp_all
    from arp_respond_ok [OF this, of "take 28 (drop 14 req)" heap] req(2) s0
    show "\<exists>s'. arp_in_frame heap frame s0 = Inr s' \<and> ?P s'"
      unfolding arp_in_frame_learns [OF req wf] by simp
  qed (simp add: assms(1))
  then show ?thesis by (auto simp: arp_in_def)
qed

end
