(* ===== verification/Kernel_Laws.thy ===== *)
theory Kernel_Laws
  imports Kernel_Init Virtio_Init Interrupt_Laws Stack_Behaviour
begin

text \<open>
  What the start of the kernel establishes: the addresses of every interface are its own, for good, and
  the state is one in which the theorems about the network stack and about the tasks apply.
\<close>

section \<open>Own addresses\<close>

text \<open>Every entry of a table is permanent and local, on one of the first \<open>n\<close> interfaces.\<close>

definition own_table :: "nat \<Rightarrow> ('k \<rightharpoonup> adjacent_information) \<Rightarrow> bool" where
  "own_table n m \<longleftrightarrow> (\<forall>e\<in>ran m. adj_is_local e \<and> adj_expire_time e = None \<and> adj_netif e < n)"

text \<open>The first one to register an address keeps it.\<close>

definition claim :: "'k \<Rightarrow> mac_address \<Rightarrow> netif_ref \<Rightarrow> ('k \<rightharpoonup> adjacent_information) \<Rightarrow> ('k \<rightharpoonup> adjacent_information)" where
  "claim k mac nif m = (if m k = None then m(k \<mapsto> adj_new mac nif True None) else m)"

lemma own_table_claim: "own_table n m \<Longrightarrow> nif < n \<Longrightarrow> own_table n (claim k mac nif m)"
  by (auto simp: own_table_def claim_def adj_new_def ran_def)

lemma own_table_mono: "own_table n m \<Longrightarrow> n \<le> n' \<Longrightarrow> own_table n' m"
  by (auto simp: own_table_def)

lemma dom_claim: "dom (claim k mac nif m) = insert k (dom m)"
  by (auto simp: claim_def)

lemma own_table_permanent: "own_table n m \<Longrightarrow> m k = Some e \<Longrightarrow> adj_expire_time e = None"
  by (auto simp: own_table_def ran_def)

lemma register_macaddress_own:
  "own_table n (mac_addr_table t) \<Longrightarrow>
   register_macaddress mac nif True None t = t\<lparr>mac_addr_table := claim (mac_prim mac) mac nif (mac_addr_table t)\<rparr>"
  by (auto simp: register_macaddress_def claim_def split: option.split dest: own_table_permanent)

lemma register_ipv4_adjacent_own:
  "own_table n (ipv4_adjacent t) \<Longrightarrow>
   register_ipv4_adjacent ip mac nif True None t = t\<lparr>ipv4_adjacent := claim ip mac nif (ipv4_adjacent t)\<rparr>"
  by (auto simp: register_ipv4_adjacent_def claim_def split: option.split dest: own_table_permanent)

lemma register_ipv6_adjacent_own:
  "own_table n (ipv6_adjacent t) \<Longrightarrow>
   register_ipv6_adjacent ip mac nif True None t = t\<lparr>ipv6_adjacent := claim ip mac nif (ipv6_adjacent t)\<rparr>"
  by (auto simp: register_ipv6_adjacent_def claim_def split: option.split dest: own_table_permanent)

lemmas register_own = register_macaddress_own register_ipv4_adjacent_own register_ipv6_adjacent_own

definition own_tables :: "nat \<Rightarrow> fib_tables \<Rightarrow> bool" where
  "own_tables n t \<longleftrightarrow> own_table n (mac_addr_table t) \<and> own_table n (ipv4_adjacent t) \<and> own_table n (ipv6_adjacent t) \<and>
     wf4 t \<and> wf6 t"

section \<open>Registering the addresses of an interface\<close>

definition net_mac_keys :: "mac_address \<Rightarrow> u64 set" where
  "net_mac_keys mac = {mac_prim mac, mac_prim (snmcast_macaddr (mac_array mac)), mac_prim allnodemcast_macaddr}"

definition net_ipv6 :: "mac_address \<Rightarrow> ipv6_address set" where
  "net_ipv6 mac = {lla_eui64 (mac_array mac), snmcast (mac_array mac), allnodemcast}"

lemma mask_24: "rust_shl 0xffffffff (unat (32 - 24 :: u32)) = (0xffffff00 :: u32)"
  by (simp add: rust_shl_def)

text \<open>The tables after the registrations of an interface.\<close>

definition claimed_tables :: "netif_ref \<Rightarrow> mac_address \<Rightarrow> ipv4_address \<Rightarrow> fib_tables \<Rightarrow> fib_tables" where
  "claimed_tables nif mac ip t =
     (let lla = lla_eui64 (mac_array mac); snm = snmcast (mac_array mac); snm_mac = snmcast_macaddr (mac_array mac);
          allm = allnodemcast_macaddr
      in t\<lparr>mac_addr_table := claim (mac_prim allm) allm nif (claim (mac_prim snm_mac) snm_mac nif
             (claim (mac_prim mac) mac nif (mac_addr_table t))),
           ipv4_adjacent := claim ip mac nif (ipv4_adjacent t),
           ipv6_adjacent := claim allnodemcast allm nif (claim snm snm_mac nif (claim lla mac nif (ipv6_adjacent t))),
           ipv4_fib_index := (ipv4_fib_index t)
             [32 := (ipv4_fib_index t ! 32)(ip \<mapsto> mk_fib4 mac ip nif Local),
              24 := (ipv4_fib_index t ! 24)(ipv4_masked ip 24 \<mapsto> mk_fib4 mac ip nif Adjacent)],
           ipv6_fib_index := (ipv6_fib_index t)
             [128 := (ipv6_fib_index t ! 128)(lla \<mapsto> mk_fib6 mac lla nif Local, snm \<mapsto> mk_fib6 snm_mac snm nif Local,
                allnodemcast \<mapsto> mk_fib6 allm allnodemcast nif Local)]\<rparr>)"

lemma register_addresses_eq:
  assumes "own_tables n t" "nif < n"
  shows "register_addresses nif mac ip 24 t = Inr (claimed_tables nif mac ip t)"
proof -
  have own: "own_table n (mac_addr_table t)" "own_table n (ipv4_adjacent t)" "own_table n (ipv6_adjacent t)"
    "length (ipv4_fib_index t) = 33" "length (ipv6_fib_index t) = 129"
    using assms(1) by (simp_all add: own_tables_def wf4_def wf6_def)
  have [simp]: "ipv4_mask_to_prefixlen 0xffffff00 = 24" by (simp add: ipv4_mask_to_prefixlen_def)
  show ?thesis
    using own assms(2) unfolding register_addresses_def mask_24
    by (simp add: Let_def register_own [where n = n] own_table_claim register_ipv4_fib_ok register_ipv6_fib_ok wf6_def
        claimed_tables_def list_update_swap)
qed


lemma claimed_keys:
  "dom (mac_addr_table (claimed_tables nif mac ip t)) = dom (mac_addr_table t) \<union> net_mac_keys mac"
  "dom (ipv4_adjacent (claimed_tables nif mac ip t)) = insert ip (dom (ipv4_adjacent t))"
  "dom (ipv6_adjacent (claimed_tables nif mac ip t)) = dom (ipv6_adjacent t) \<union> net_ipv6 mac"
  by (auto simp: claimed_tables_def Let_def dom_claim net_mac_keys_def net_ipv6_def simp del: dom_fun_upd)

lemma claimed_routes:
  assumes "length (ipv4_fib_index t) = 33"
  shows "route4 (claimed_tables nif mac ip t) p net f \<longleftrightarrow>
    (if p = 24 \<and> net = ipv4_masked ip 24 then f = mk_fib4 mac ip nif Adjacent
     else if p = 32 \<and> net = ip then f = mk_fib4 mac ip nif Local else route4 t p net f)"
  using assms by (auto simp: route4_def claimed_tables_def Let_def nth_list_update)

lemma claimed_routes6:
  assumes "wf6 t"
  shows "a \<in> net_ipv6 mac \<Longrightarrow> \<exists>f. (ipv6_fib_index (claimed_tables nif mac ip t) ! 128) a = Some f \<and> fib6_fib_type f = Local"
    "a \<notin> net_ipv6 mac \<Longrightarrow> (ipv6_fib_index (claimed_tables nif mac ip t) ! 128) a = (ipv6_fib_index t ! 128) a"
  using assms by (auto simp: claimed_tables_def Let_def net_ipv6_def mk_fib6_def wf6_def)

lemma claimed_own:
  assumes "own_tables n t" "nif < n"
  shows "own_tables n (claimed_tables nif mac ip t)"
proof -
  have len: "length (ipv4_fib_index t) = 33" using assms(1) by (simp add: own_tables_def wf4_def)
  have "ipv4_masked net (of_nat p) = net" if "route4 (claimed_tables nif mac ip t) p net f" for p net f
    using that assms(1) unfolding claimed_routes [OF len]
    by (auto simp: own_tables_def wf4_def ipv4_masked_idem [of 24, simplified] split: if_splits)
  moreover have "length (ipv4_fib_index (claimed_tables nif mac ip t)) = 33" using len by (simp add: claimed_tables_def Let_def)
  moreover have "own_table n (mac_addr_table (claimed_tables nif mac ip t))"
    "own_table n (ipv4_adjacent (claimed_tables nif mac ip t))" "own_table n (ipv6_adjacent (claimed_tables nif mac ip t))"
    "wf6 (claimed_tables nif mac ip t)"
    using assms by (simp_all add: own_tables_def claimed_tables_def Let_def own_table_claim wf6_def)
  ultimately show ?thesis by (simp add: own_tables_def wf4_def)
qed

section \<open>Setting up an interface\<close>

text \<open>
  A device that the command line announces at its address, and that answers there as the virtio specification
  says of a network device of version 2, with queues of \<open>2 ^ q\<close> entries.
\<close>

definition announced :: "mmio_device \<Rightarrow> string \<Rightarrow> nat \<Rightarrow> u8 \<Rightarrow> nat \<Rightarrow> bool" where
  "announced D cmd index irq q \<longleftrightarrow>
     (\<exists>addr sz feats. parse_device cmd index = Inr (addr, sz, irq) \<and> virtio_net_device D addr feats q \<and> q \<le> 15)"

lemma mmio_new_announced:
  assumes "announced D cmd index irq q"
  shows "\<exists>m feats. mmio_new D cmd index = Inr m \<and> mm_irq m = irq \<and> virtio_net_device D (mm_addr m) feats q \<and> q \<le> 15"
proof -
  obtain addr sz feats where a: "parse_device cmd index = Inr (addr, sz, irq)" "virtio_net_device D addr feats q" "q \<le> 15"
    using assms by (auto simp: announced_def)
  then have "D l addr = 0x74726976" "D l (addr + 4) = 2" for l
    by (auto simp: virtio_net_device_def virtio_registers_def Let_def)
  with a show ?thesis by (auto simp: mmio_new_def mmio_read_def Let_def)
qed

lemma mm_irq_ops [simp]:
  "mm_irq (mmio_touch off m) = mm_irq m" "mm_irq (mmio_write off w m) = mm_irq m"
  "mm_irq (mmio_set_indirect_buf_cap f m) = mm_irq m" "mm_irq (mmio_set_event_idx_cap f m) = mm_irq m"
  "mm_irq (mmio_kick_queue i m) = mm_irq m"
  by (simp_all add: mmio_touch_def mmio_write_def mmio_set_indirect_buf_cap_def mmio_set_event_idx_cap_def
      mmio_kick_queue_def)

lemma mm_irq_status [simp]:
  "mm_irq (mmio_set_status s m) = mm_irq m" "mm_irq (vnet_add_status D bits m) = mm_irq m"
  "mm_irq (mmio_set_enabled_features F m) = mm_irq m"
  by (simp_all add: mmio_set_status_def vnet_add_status_def mmio_get_status_def mmio_set_enabled_features_def
      mmio_read_split Let_def)

lemma read_mac_irq: "vnet_read_mac D m = (mac, m') \<Longrightarrow> length (mac_array mac) = 6 \<and> mm_irq m' = mm_irq m"
  by (auto simp: vnet_read_mac_def mmio_read_config_def mmio_read_split Let_def)

lemma setup_queue_irq:
  "vnet_setup_queue heap D idx intr m n = Inr (q, m', n') \<Longrightarrow> mm_irq m' = mm_irq m"
  by (auto simp: vnet_setup_queue_def mmio_select_queue_def mmio_get_queue_size_def mmio_activate_queue_def
      mmio_setup_queue_def mmio_read_split Let_def rbind_eq_Inr split: if_splits prod.splits)

lemma vnet_new_kept:
  assumes "vnet_new heap D tsc idn dev n = Inr (Some v, n')"
  shows "length (mac_array (vn_macaddr v)) = 6 \<and> mm_irq (vn_virtio v) = mm_irq dev"
  using assms
  by (auto simp: vnet_new_def mmio_get_type_def mmio_get_available_features_def mmio_is_legacy_def
      mmio_get_status_def mmio_read_split Let_def rbind_eq_Inr vnet_generate_mac_def
      dest!: read_mac_irq setup_queue_irq split: if_splits prod.splits)

lemma setup_virtio_net_ok:
  assumes "announced (en_devices E index) cmd index irq q" "length (k_handlers k) = 256"
    and "own_tables (Suc (length (ns_ifaces (k_net k)))) (ns_tables (k_net k))"
  shows "\<exists>k' v. setup_virtio_net E tsc cmd index ip 24 k = Inr k' \<and>
    ns_ifaces (k_net k') = ns_ifaces (k_net k) @ [v] \<and> iface_ok v \<and> vn_id v = index \<and>
    ns_tables (k_net k') = claimed_tables (length (ns_ifaces (k_net k))) (vn_macaddr v) ip (ns_tables (k_net k)) \<and>
    k_handlers k' = (k_handlers k)[unat irq := Some (Virtio_Net (length (ns_ifaces (k_net k))) irq)] \<and>
    k_async k' = k_async k \<and> ns_nodes (k_net k') = ns_nodes (k_net k) \<and>
    k_machine k' = on_io (enable_irq irq) (k_machine k)"
proof -
  let ?D = "en_devices E index" and ?n = "length (ns_ifaces (k_net k))"
  obtain m feats where m: "mmio_new ?D cmd index = Inr m" "mm_irq m = irq" "virtio_net_device ?D (mm_addr m) feats q" "q \<le> 15"
    using mmio_new_announced [OF assms(1)] by blast
  obtain v a where v: "vnet_new (en_heap E) ?D (tsc index) index m (ns_allocs (k_net k)) = Inr (Some v, a)"
      "vq_inv (vn_txq v)" "vn_id v = index"
    using vnet_new_ok [OF m(3,4)] by blast
  have kept: "length (mac_array (vn_macaddr v)) = 6" "mm_irq (vn_virtio v) = irq" using vnet_new_kept [OF v(1)] m(2) by simp_all
  have "unat irq < 256" using unat_less_width [of irq] by simp
  moreover have "register_addresses ?n (vn_macaddr v) ip 24 (ns_tables (k_net k)) =
      Inr (claimed_tables ?n (vn_macaddr v) ip (ns_tables (k_net k)))"
    by (rule register_addresses_eq [OF assms(3)]) simp
  moreover have "iface_ok v" using v(2) kept(1) by (simp add: iface_ok_def vq_inv_def)
  ultimately show ?thesis
    using m(1) v kept(2) assms(2)
    by (intro exI [of _ "k\<lparr>k_handlers := (k_handlers k)[unat irq := Some (Virtio_Net ?n irq)],
          k_machine := on_io (enable_irq irq) (k_machine k),
          k_net := (k_net k)\<lparr>ns_allocs := a, ns_ifaces := ns_ifaces (k_net k) @ [v],
            ns_tables := claimed_tables ?n (vn_macaddr v) ip (ns_tables (k_net k))\<rparr>\<rparr>"] exI [of _ v])
      (simp add: setup_virtio_net_def set_handler_def set_at_ok vnet_get_irq_def mmio_get_irq_def Let_def)
qed

section \<open>The interfaces are up\<close>

text \<open>
  The interface \<open>i\<close> serves the address \<open>ip\<close>: its interrupt leads to it, its MAC addresses, its IPv4 address
  and its IPv6 addresses are local for good, packets for them are delivered locally, and the other
  addresses of its network of 24 bits are reached through it, by the route to that network.
\<close>

definition own_entry :: "adjacent_information option \<Rightarrow> bool" where
  "own_entry x \<longleftrightarrow> (\<exists>e. x = Some e \<and> adj_is_local e \<and> adj_expire_time e = None)"

definition interface_up :: "'q kernel \<Rightarrow> nat \<Rightarrow> ipv4_address \<Rightarrow> u8 \<Rightarrow> bool" where
  "interface_up k i ip irq \<longleftrightarrow>
     (let t = ns_tables (k_net k); v = ns_ifaces (k_net k) ! i; mac = vn_macaddr v in
      i < length (ns_ifaces (k_net k)) \<and> vn_id v = i \<and> k_handlers k ! unat irq = Some (Virtio_Net i irq) \<and>
      (\<forall>key\<in>net_mac_keys mac. own_entry (mac_addr_table t key)) \<and> own_entry (ipv4_adjacent t ip) \<and>
      (\<forall>a\<in>net_ipv6 mac. own_entry (ipv6_adjacent t a) \<and>
         (\<exists>f. find_ipv6_fib t a 128 = Inr (Some f) \<and> fib6_fib_type f = Local)) \<and>
      find_ipv4_fib t ip 0xffffffff = Inr (Some (mk_fib4 mac ip i Local)) \<and>
      (\<forall>a. a \<noteq> ip \<and> ipv4_masked a 24 = ipv4_masked ip 24 \<longrightarrow>
         find_ipv4_fib t a 0xffffffff = Inr (Some (mk_fib4 mac ip i Adjacent))) \<and>
      route4 t 24 (ipv4_masked ip 24) (mk_fib4 mac ip i Adjacent))"

lemma own_entryI: "own_table n m \<Longrightarrow> k \<in> dom m \<Longrightarrow> own_entry (m k)"
  by (auto simp: own_table_def own_entry_def ran_def)

lemma find_local_route:
  assumes "wf4 t" "route4 t 32 ip f"
  shows "find_ipv4_fib t ip 0xffffffff = Inr (Some f)"
  using assms v4_search.search_hit [of 32 "ipv4_fib_index t" ip f]
  by (simp add: find_ipv4_fib_host levels4 probe4_def route4_def)

lemma find_network_route:
  assumes "wf4 t" "route4 t 24 (ipv4_masked a 24) f" "\<And>p net g. 24 < p \<Longrightarrow> route4 t p net g \<Longrightarrow> p = 32 \<and> net \<noteq> a"
  shows "find_ipv4_fib t a 0xffffffff = Inr (Some f)"
proof -
  have "probe4 (ipv4_fib_index t) a 24 = Some f" using assms(2) by (simp add: probe4_def route4_def)
  moreover have "probe4 (ipv4_fib_index t) a j = None" if "24 < j" "j \<le> 32" for j
  proof (rule ccontr)
    assume "probe4 (ipv4_fib_index t) a j \<noteq> None"
    then obtain g where "(ipv4_fib_index t ! j) (ipv4_masked a (of_nat j)) = Some g" by (auto simp: probe4_def)
    then have "route4 t j (ipv4_masked a (of_nat j)) g" using that(2) by (simp add: route4_def)
    with assms(3) [OF that(1)] show False by force
  qed
  ultimately show ?thesis
    using assms(1) v4_search.search_Some_iff [of 32 "ipv4_fib_index t" a f]
    by (auto simp: find_ipv4_fib_host levels4 intro!: exI [of _ 24])
qed

lemma find_local_route6:
  assumes "wf6 t" "(ipv6_fib_index t ! 128) a = Some f"
  shows "find_ipv6_fib t a 128 = Inr (Some f)"
  using assms v6_search.search_hit [of 128 "ipv6_fib_index t" "(a, 128)" f]
  by (simp add: find_ipv6_fib_def wf6_def probe6_def)

section \<open>The two interfaces of the kernel\<close>

lemma route4_empty: "\<not> route4 empty_tables p net f"
  by (auto simp: route4_def empty_tables_def)

lemma own_tables_empty: "own_tables n empty_tables"
  using wf4_empty wf6_empty by (simp add: own_tables_def own_table_def) (simp add: empty_tables_def)

lemma own_tables_mono: "own_tables n t \<Longrightarrow> n \<le> n' \<Longrightarrow> own_tables n' t"
  by (auto simp: own_tables_def own_table_mono)

text \<open>The tables after both interfaces were set up, with addresses in different networks.\<close>

definition both_claimed :: "mac_address \<Rightarrow> ipv4_address \<Rightarrow> mac_address \<Rightarrow> ipv4_address \<Rightarrow> fib_tables" where
  "both_claimed mac0 ip0 mac1 ip1 = claimed_tables 1 mac1 ip1 (claimed_tables 0 mac0 ip0 empty_tables)"

lemma both_own: "own_tables 2 (both_claimed mac0 ip0 mac1 ip1)"
  by (simp add: both_claimed_def claimed_own own_tables_empty)

lemma both_routes:
  "route4 (both_claimed mac0 ip0 mac1 ip1) p net f \<longleftrightarrow>
    (if p = 24 \<and> net = ipv4_masked ip1 24 then f = mk_fib4 mac1 ip1 1 Adjacent
     else if p = 32 \<and> net = ip1 then f = mk_fib4 mac1 ip1 1 Local
     else if p = 24 \<and> net = ipv4_masked ip0 24 then f = mk_fib4 mac0 ip0 0 Adjacent
     else p = 32 \<and> net = ip0 \<and> f = mk_fib4 mac0 ip0 0 Local)"
proof -
  have len: "length (ipv4_fib_index (claimed_tables 0 mac0 ip0 empty_tables)) = 33" "length (ipv4_fib_index empty_tables) = 33"
    by (simp_all add: claimed_tables_def Let_def empty_tables_def)
  show ?thesis unfolding both_claimed_def claimed_routes [OF len(1)] claimed_routes [OF len(2)] by (auto simp: route4_empty)
qed

lemma both_far:
  assumes "24 < p" "route4 (both_claimed mac0 ip0 mac1 ip1) p net g"
  shows "p = 32 \<and> (net = ip0 \<or> net = ip1)"
proof -
  have p: "p \<noteq> 24" using assms(1) by simp
  show ?thesis using assms(2) unfolding both_routes using p by argo
qed

lemma both_up:
  assumes nets: "ipv4_masked ip0 24 \<noteq> ipv4_masked ip1 24"
    and k: "ns_tables (k_net k) = both_claimed (vn_macaddr v0) ip0 (vn_macaddr v1) ip1" "ns_ifaces (k_net k) = [v0, v1]"
    and ids: "vn_id v0 = 0" "vn_id v1 = 1"
    and irqs: "k_handlers k ! unat irq0 = Some (Virtio_Net 0 irq0)" "k_handlers k ! unat irq1 = Some (Virtio_Net 1 irq1)"
  shows "interface_up k 0 ip0 irq0" "interface_up k 1 ip1 irq1"
proof -
  let ?t = "both_claimed (vn_macaddr v0) ip0 (vn_macaddr v1) ip1"
  let ?first = "claimed_tables 0 (vn_macaddr v0) ip0 empty_tables"
  have own: "own_table 2 (mac_addr_table ?t)" "own_table 2 (ipv4_adjacent ?t)" "own_table 2 (ipv6_adjacent ?t)" "wf4 ?t" "wf6 ?t"
    using both_own [of "vn_macaddr v0" ip0 "vn_macaddr v1" ip1] by (simp_all add: own_tables_def)
  have wf0: "wf6 ?first" "wf6 empty_tables"
    using claimed_own [OF own_tables_empty, of 0 1] by (auto simp: own_tables_def wf6_empty)
  have keys: "net_mac_keys (vn_macaddr v0) \<union> net_mac_keys (vn_macaddr v1) \<subseteq> dom (mac_addr_table ?t)"
    "{ip0, ip1} \<subseteq> dom (ipv4_adjacent ?t)" "net_ipv6 (vn_macaddr v0) \<union> net_ipv6 (vn_macaddr v1) \<subseteq> dom (ipv6_adjacent ?t)"
    unfolding both_claimed_def claimed_keys by auto
  have ip6: "\<exists>f. find_ipv6_fib ?t a 128 = Inr (Some f) \<and> fib6_fib_type f = Local"
    if "a \<in> net_ipv6 (vn_macaddr v0) \<union> net_ipv6 (vn_macaddr v1)" for a
    using that claimed_routes6 [OF wf0(1), of a "vn_macaddr v1" 1 ip1] claimed_routes6 [OF wf0(2), of a "vn_macaddr v0" 0 ip0]
      find_local_route6 [OF own(5), of a] unfolding both_claimed_def by (metis UnE)
  have ip4: "find_ipv4_fib ?t ip0 0xffffffff = Inr (Some (mk_fib4 (vn_macaddr v0) ip0 0 Local))"
    "find_ipv4_fib ?t ip1 0xffffffff = Inr (Some (mk_fib4 (vn_macaddr v1) ip1 1 Local))"
    using nets by (auto intro!: find_local_route own simp: both_routes)
  have near: "route4 ?t 24 (ipv4_masked ip0 24) (mk_fib4 (vn_macaddr v0) ip0 0 Adjacent)"
    "route4 ?t 24 (ipv4_masked ip1 24) (mk_fib4 (vn_macaddr v1) ip1 1 Adjacent)"
    unfolding both_routes using nets by simp_all
  have net0: "find_ipv4_fib ?t a 0xffffffff = Inr (Some (mk_fib4 (vn_macaddr v0) ip0 0 Adjacent))"
    if "a \<noteq> ip0" "ipv4_masked a 24 = ipv4_masked ip0 24" for a
  proof (rule find_network_route [OF own(4)])
    show "p = 32 \<and> net \<noteq> a" if "24 < p" "route4 ?t p net g" for p net g
      using both_far [OF that] nets \<open>a \<noteq> ip0\<close> \<open>ipv4_masked a 24 = ipv4_masked ip0 24\<close> by metis
  qed (unfold that(2), rule near(1))
  have net1: "find_ipv4_fib ?t a 0xffffffff = Inr (Some (mk_fib4 (vn_macaddr v1) ip1 1 Adjacent))"
    if "a \<noteq> ip1" "ipv4_masked a 24 = ipv4_masked ip1 24" for a
  proof (rule find_network_route [OF own(4)])
    show "p = 32 \<and> net \<noteq> a" if "24 < p" "route4 ?t p net g" for p net g
      using both_far [OF that] nets \<open>a \<noteq> ip1\<close> \<open>ipv4_masked a 24 = ipv4_masked ip1 24\<close> by metis
  qed (unfold that(2), rule near(2))
  have entries: "own_entry (mac_addr_table ?t key)" if "key \<in> net_mac_keys (vn_macaddr v0) \<union> net_mac_keys (vn_macaddr v1)" for key
    using own_entryI [OF own(1)] keys(1) that by blast
  have entries6: "own_entry (ipv6_adjacent ?t a)" if "a \<in> net_ipv6 (vn_macaddr v0) \<union> net_ipv6 (vn_macaddr v1)" for a
    using own_entryI [OF own(3)] keys(3) that by blast
  have entries4: "own_entry (ipv4_adjacent ?t ip0)" "own_entry (ipv4_adjacent ?t ip1)"
    using own_entryI [OF own(2)] keys(2) by blast+
  show "interface_up k 0 ip0 irq0" "interface_up k 1 ip1 irq1"
    unfolding interface_up_def k using entries entries4 entries6 ip4 ip6 net0 net1 near ids irqs by (simp_all add: Let_def)
qed

section \<open>The start of the kernel\<close>

lemma start_devices_ok:
  assumes "array_queue (en_queue E) items qinv cap" "2 \<le> cap" "qinv e" "items e = []"
    and "announced (en_devices E 0) cmd 0 irq0 q0" "announced (en_devices E 1) cmd 1 irq1 q1"
    and "irq0 \<noteq> 0" "irq1 \<noteq> 0" "irq0 \<noteq> irq1"
  shows "\<exists>k. start_devices E tsc cmd (kernel_new e m p) = Inr k \<and> net_ok (k_net k) \<and>
    set (ns_nodes (k_net k)) = {''ethernet-in'', ''arp-in'', ''ipv4-in'', ''icmpv4-in-local'', ''ipv6-in'', ''icmpv6-in-local''} \<and>
    k_handlers k ! 0 = Some Timer \<and>
    interface_up k 0 (ipv4_from_array [192, 168, 0, 10]) irq0 \<and> interface_up k 1 (ipv4_from_array [192, 168, 10, 10]) irq1 \<and>
    async_reach (en_queue E) (en_clock E) e (k_async k) \<and> mc_idt (k_machine k) = mc_idt m \<and>
    length (k_handlers k) = 256 \<and> mc_pv_eoi (k_machine k) = mc_pv_eoi m"
proof -
  let ?a = "ipv4_from_array [192, 168, 0, 10]" and ?b = "ipv4_from_array [192, 168, 10, 10]"
  have u: "unat irq0 \<noteq> 0" "unat irq1 \<noteq> 0" "unat irq0 \<noteq> unat irq1" "unat irq0 < 256" "unat irq1 < 256"
    using assms(7-9) unat_less_width [of irq0] unat_less_width [of irq1] by (auto simp: unat_eq_zero dest: unsigned_word_eqI)
  obtain k1 where k1: "set_handler Timer (kernel_new e m p) = Inr k1" "k_handlers k1 = irq_handlers_new[0 := Some Timer]"
      "k_net k1 = \<lparr>ns_tables = empty_tables, ns_ifaces = [], ns_nodes = [], ns_allocs = 0\<rparr>" "k_async k1 = (executor_new e e)\<lparr>as_clock := p\<rparr>"
      "mc_idt (k_machine k1) = mc_idt m" "mc_pv_eoi (k_machine k1) = mc_pv_eoi m"
    by (simp add: set_handler_def kernel_new_def set_at_ok irq_handlers_new_def)
  obtain k2 v0 where k2: "setup_virtio_net E tsc cmd 0 ?a 24 k1 = Inr k2" "ns_ifaces (k_net k2) = [v0]" "iface_ok v0"
      "vn_id v0 = 0" "ns_tables (k_net k2) = claimed_tables 0 (vn_macaddr v0) ?a empty_tables"
      "k_handlers k2 = irq_handlers_new[0 := Some Timer, unat irq0 := Some (Virtio_Net 0 irq0)]"
      "k_async k2 = (executor_new e e)\<lparr>as_clock := p\<rparr>" "ns_nodes (k_net k2) = []" "mc_idt (k_machine k2) = mc_idt m" "mc_pv_eoi (k_machine k2) = mc_pv_eoi m"
    using setup_virtio_net_ok [OF assms(5), of k1 tsc ?a] k1 own_tables_empty by (auto simp: irq_handlers_new_def)
  have "own_tables (Suc (length (ns_ifaces (k_net k2)))) (ns_tables (k_net k2))"
    unfolding k2 by (rule claimed_own [OF own_tables_empty]) simp
  then obtain k3 v1 where k3: "setup_virtio_net E tsc cmd 1 ?b 24 k2 = Inr k3" "ns_ifaces (k_net k3) = [v0, v1]" "iface_ok v1"
      "vn_id v1 = 1" "ns_tables (k_net k3) = both_claimed (vn_macaddr v0) ?a (vn_macaddr v1) ?b"
      "k_handlers k3 = irq_handlers_new[0 := Some Timer, unat irq0 := Some (Virtio_Net 0 irq0), unat irq1 := Some (Virtio_Net 1 irq1)]"
      "k_async k3 = (executor_new e e)\<lparr>as_clock := p\<rparr>" "ns_nodes (k_net k3) = []" "mc_idt (k_machine k3) = mc_idt m" "mc_pv_eoi (k_machine k3) = mc_pv_eoi m"
    using setup_virtio_net_ok [OF assms(6), of k2 tsc ?b] k2 by (auto simp: irq_handlers_new_def both_claimed_def)
  obtain a where a: "spawn_test_tasks (en_queue E) ((executor_new e e)\<lparr>as_clock := p\<rparr>) = Inr a"
    using array_queue.spawn_ok [OF assms(1,3,4,2)] by blast
  define k where "k = k3\<lparr>k_net := register_nodes (k_net k3), k_async := a\<rparr>"
  have net: "ns_tables (k_net k) = both_claimed (vn_macaddr v0) ?a (vn_macaddr v1) ?b" "ns_ifaces (k_net k) = [v0, v1]"
    using k3 by (simp_all add: k_def register_nodes_def)
  have "start_devices E tsc cmd (kernel_new e m p) = Inr k"
    using k1(1) k2(1) k3(1,7) a by (simp add: start_devices_def k_def)
  moreover have "own_tables 2 (both_claimed (vn_macaddr v0) ?a (vn_macaddr v1) ?b)" by (rule both_own)
  then have "net_ok (k_net k)"
    unfolding net_ok_def net using k2(3) k3(3) by (auto simp: own_tables_def own_table_def ran_def)
  moreover have handlers: "k_handlers k ! 0 = Some Timer" "k_handlers k ! unat irq0 = Some (Virtio_Net 0 irq0)"
    "k_handlers k ! unat irq1 = Some (Virtio_Net 1 irq1)"
    using u k3(6) by (simp_all add: k_def irq_handlers_new_def)
  moreover have "ipv4_masked ?a 24 \<noteq> ipv4_masked ?b 24" by code_simp
  note both_up [OF this net k2(4) k3(4) handlers(2,3)]
  moreover have "async_reach (en_queue E) (en_clock E) e (k_async k)"
    using async_reach.spawned [OF a] by (simp add: k_def)
  moreover have "length (k_handlers k) = 256" by (simp add: k_def k3(6) irq_handlers_new_def)
  ultimately show ?thesis using k3(8-10) by (intro exI [of _ k]) (auto simp: k_def register_nodes_def)
qed

lemma start_rust_ok:
  assumes "array_queue (en_queue E) items qinv cap" "2 \<le> cap" "qinv (bs_queue B)" "items (bs_queue B) = []"
    and "get_boot_flag (bs_memory B) bp = 0xaa55" "get_header (bs_memory B) bp = 0x53726448"
    and "get_cmdline (bs_memory B) bp = Some cmd"
    and "announced (en_devices E 0) cmd 0 irq0 q0" "announced (en_devices E 1) cmd 1 irq1 q1"
    and "irq0 \<noteq> 0" "irq1 \<noteq> 0" "irq0 \<noteq> irq1"
    and "get_calendar (en_clock E) \<lparr>pos_tsc = 0, pos_info = 0, pos_wall = 0\<rparr> = Some (Inr calendar, p)"
    and "\<And>l. timer_runs (en_hardware E) l" "\<And>l. fst (ioapic_read (en_hardware E) 1 l) = ver"
    and "get_monotonic_time (en_clock E) p = Some (before, p1)" "get_monotonic_time (en_clock E) p1 = Some (after, p2)"
    and "before < after" "489 \<le> unat (after - before)"
  shows "\<exists>k. start_rust E B bp = Some (Inr k) \<and>
    (\<forall>i<256. idt_target (mc_idt (k_machine k) ! i) = bs_stubs B + 16 * of_nat i) \<and> k_handlers k ! 0 = Some Timer \<and>
    interface_up k 0 (ipv4_from_array [192, 168, 0, 10]) irq0 \<and> interface_up k 1 (ipv4_from_array [192, 168, 10, 10]) irq1 \<and>
    set (ns_nodes (k_net k)) = {''ethernet-in'', ''arp-in'', ''ipv4-in'', ''icmpv4-in-local'', ''ipv6-in'', ''icmpv6-in-local''} \<and>
    net_ok (k_net k) \<and> async_reach (en_queue E) (en_clock E) (bs_queue B) (k_async k) \<and>
    length (k_handlers k) = 256 \<and> length (mc_pv_eoi (k_machine k)) = 256"
proof -
  define m where "m = machine_new\<lparr>mc_io := start_kvmclock (en_hardware E) (bs_wall_clock B) (bs_clock_info B)
    (snd (console_init (mc_io machine_new)))\<rparr>"
  have "length (mc_idt m) = 256" "length (mc_pv_eoi m) = 256" by (simp_all add: m_def machine_new_def)
  from apic_init_ok [OF this assms(14,15,16-19), of "bs_stubs B" "bs_idt B" "bs_pv_eoi B"]
  obtain m' where m': "apic_init (en_hardware E) (en_clock E) (bs_stubs B) (bs_idt B) (bs_pv_eoi B) (m, p) = Some (Inr (m', p2))"
    "\<forall>i<256. idt_target (mc_idt m' ! i) = bs_stubs B + 16 * of_nat i" "length (mc_pv_eoi m') = 256" by blast
  have start: "start_rust E B bp = Some (start_devices E (bs_tsc B) cmd (kernel_new (bs_queue B) m' p2))"
    using assms(5-7,13) m'(1) by (simp add: start_rust_def Let_def case_prod_beta m_def)
  from start_devices_ok [OF assms(1-4,8-12), of "bs_tsc B" m' p2] show ?thesis
    unfolding start using m'(2,3) by auto
qed

text \<open>
  C9. The kernel comes up: with valid boot parameters, a running clock and timer, and a command line that
  announces two network devices that answer as the virtio specification says and accept every part of the features
  that they offer, on different interrupt lines other
  than that of the timer, \<^verbatim>\<open>start_rust\<close> reaches its loop.  Then every vector leads to its stub, both interfaces serve their addresses 192.168.0.10 and
  192.168.10.10, all six nodes are registered, the state of the stack is one in which it never fails on
  ARP packets, and the tasks are in a state from which none of them is ever lost.
\<close>

theorem kernel_comes_up:
  assumes "array_queue (en_queue E) items qinv cap" "2 \<le> cap" "qinv (bs_queue B)" "items (bs_queue B) = []"
    and "get_boot_flag (bs_memory B) bp = 0xaa55" "get_header (bs_memory B) bp = 0x53726448"
    and "get_cmdline (bs_memory B) bp = Some cmd"
    and "announced (en_devices E 0) cmd 0 irq0 q0" "announced (en_devices E 1) cmd 1 irq1 q1"
    and "irq0 \<noteq> 0" "irq1 \<noteq> 0" "irq0 \<noteq> irq1"
    and "get_calendar (en_clock E) \<lparr>pos_tsc = 0, pos_info = 0, pos_wall = 0\<rparr> = Some (Inr calendar, p)"
    and "\<And>l. timer_runs (en_hardware E) l" "\<And>l. fst (ioapic_read (en_hardware E) 1 l) = ver"
    and "get_monotonic_time (en_clock E) p = Some (before, p1)" "get_monotonic_time (en_clock E) p1 = Some (after, p2)"
    and "before < after" "489 \<le> unat (after - before)"
  shows "\<exists>k. start_rust E B bp = Some (Inr k) \<and>
    (\<forall>i<256. idt_target (mc_idt (k_machine k) ! i) = bs_stubs B + 16 * of_nat i) \<and> k_handlers k ! 0 = Some Timer \<and>
    interface_up k 0 (ipv4_from_array [192, 168, 0, 10]) irq0 \<and> interface_up k 1 (ipv4_from_array [192, 168, 10, 10]) irq1 \<and>
    set (ns_nodes (k_net k)) = {''ethernet-in'', ''arp-in'', ''ipv4-in'', ''icmpv4-in-local'', ''ipv6-in'', ''icmpv6-in-local''} \<and>
    net_ok (k_net k) \<and> async_reach (en_queue E) (en_clock E) (bs_queue B) (k_async k)"
  using start_rust_ok [OF assms] by blast

section \<open>Witness\<close>

text \<open>Two devices with queues of two entries, and a machine of one such command line.\<close>

definition sample_cmdline :: string where
  "sample_cmdline = ''virtio_mmio.device=4K@0xd0000000:5 virtio_mmio.device=4K@0xd0001000:6''"

definition sample_nic :: "nat \<Rightarrow> mmio_device" where
  "sample_nic i = emulated_device (0xd0000000 + 0x1000 * of_nat i) 0x100000023 1"

definition sample_boot :: "nat ring boot_source" where
  "sample_boot = \<lparr>bs_memory = memory_of [(0x20000, map char_byte sample_cmdline @ [0]), (0x101fe, le16 0xaa55),
       (0x10202, le32 0x53726448), (0x10228, le32 0x20000), (0x10238, le32 0x800)],
     bs_tsc = (\<lambda>i. of_nat i), bs_stubs = 0x200000, bs_idt = 0x300000, bs_pv_eoi = 0x400000,
     bs_wall_clock = 0x500000, bs_clock_info = 0x600000, bs_queue = ring_new\<rparr>"

lemma sample_announced:
  "announced (sample_nic 0) sample_cmdline 0 5 1" "announced (sample_nic 1) sample_cmdline 1 6 1"
proof -
  have "parse_device sample_cmdline 0 = Inr (0xd0000000, 4096, 5)" "parse_device sample_cmdline 1 = Inr (0xd0001000, 4096, 6)"
    by code_simp+
  moreover have "virtio_net_device (sample_nic i) (0xd0000000 + 0x1000 * of_nat i) 0x100000023 1" for i
    unfolding sample_nic_def by (rule emulated_device_complies)
  from this [of 0] this [of 1]
  have "virtio_net_device (sample_nic 0) 0xd0000000 0x100000023 1" "virtio_net_device (sample_nic 1) 0xd0001000 0x100000023 1"
    by simp_all
  ultimately show "announced (sample_nic 0) sample_cmdline 0 5 1" "announced (sample_nic 1) sample_cmdline 1 6 1"
    unfolding announced_def by auto
qed

lemma sample_boot_params:
  "get_boot_flag (bs_memory sample_boot) 0x10000 = 0xaa55" "get_header (bs_memory sample_boot) 0x10000 = 0x53726448"
  by code_simp+

lemma sample_boot_cmdline: "get_cmdline (bs_memory sample_boot) 0x10000 = Some sample_cmdline"
proof (rule get_cmdline_stored [where p = "0x20000" and sz = "0x800"])
  have len: "length sample_cmdline = 69" by (simp add: sample_cmdline_def)
  then show "stored (bs_memory sample_boot) (0x10000 + 0x228) (le32 0x20000)"
    "stored (bs_memory sample_boot) (0x10000 + 0x238) (le32 0x800)" "length sample_cmdline < unat (0x800 :: u32)"
    by (simp_all add: sample_boot_def stored_Cons le32_def le16_def)
  show "stored (bs_memory sample_boot) (ucast (0x20000 :: u32)) (map char_byte sample_cmdline @ [0])"
    using memory_of_stored [of "0x20000" "map char_byte sample_cmdline @ [0]"] len by (simp add: sample_boot_def no_wrap_def)
  show "\<forall>c\<in>set sample_cmdline. char_byte c \<noteq> 0" by (simp add: sample_cmdline_def char_byte_def)
qed

definition sample_boot_environment :: "nat ring environment" where
  "sample_boot_environment = sample_environment\<lparr>en_devices := sample_nic\<rparr>"

lemma sample_boot_clock:
  "get_calendar (en_clock sample_boot_environment) \<lparr>pos_tsc = 0, pos_info = 0, pos_wall = 0\<rparr> =
     Some (Inr \<lparr>cal_year = 1970, cal_month = 1, cal_day = 1, cal_hour = 0, cal_min = 0, cal_sec = 0\<rparr>,
       \<lparr>pos_tsc = 2, pos_info = 4, pos_wall = 2\<rparr>)"
  "get_monotonic_time (en_clock sample_boot_environment) \<lparr>pos_tsc = 2, pos_info = 4, pos_wall = 2\<rparr> =
     Some (32000000, \<lparr>pos_tsc = 3, pos_info = 6, pos_wall = 2\<rparr>)"
  "get_monotonic_time (en_clock sample_boot_environment) \<lparr>pos_tsc = 3, pos_info = 6, pos_wall = 2\<rparr> =
     Some (48000000, \<lparr>pos_tsc = 4, pos_info = 8, pos_wall = 2\<rparr>)"
proof -
  have clock: "en_clock sample_boot_environment = sample_clock" by (simp add: sample_boot_environment_def sample_environment_def)
  have "quiet_info (src_info sample_clock) i" for i by (simp add: quiet_info_def sample_clock_def)
  then have "monotonic_loop (src_info sample_clock) t i = Some (scaled_delta t (src_info sample_clock i), i + 2)" for t i
    by (rule monotonic_loop_quiet)
  moreover have "src_info sample_clock i = src_info sample_clock 0" for i by (simp add: sample_clock_def)
  ultimately have loop: "monotonic_loop (src_info sample_clock) t i = Some (scaled_delta t (src_info sample_clock 0), i + 2)" for t i
    by metis
  have scaled: "scaled_delta (src_tsc sample_clock 0) (src_info sample_clock 0) = 0"
    "scaled_delta (src_tsc sample_clock 1) (src_info sample_clock 0) = 16000000"
    "scaled_delta (src_tsc sample_clock 2) (src_info sample_clock 0) = 32000000"
    "scaled_delta (src_tsc sample_clock 3) (src_info sample_clock 0) = 48000000"
    by (simp_all add: sample_clock_def scaled_delta_def pvclock_vcpu_time_info_new_def rust_shl_def)
  have wall: "wall_loop (src_wall sample_clock) 0 = Some (0, 0, 2)"
    by (subst wall_loop.simps) (simp add: sample_clock_def pvclock_wall_clock_new_def)
  have cal: "get_calendar_from_epoch 0 =
      Inr \<lparr>cal_year = 1970, cal_month = 1, cal_day = 1, cal_hour = 0, cal_min = 0, cal_sec = 0\<rparr>"
    by (simp add: get_calendar_from_epoch_def split_years_def split_months_def calendar_constants Let_def get_at_def days_of_month_def)
  show "get_calendar (en_clock sample_boot_environment) \<lparr>pos_tsc = 0, pos_info = 0, pos_wall = 0\<rparr> =
     Some (Inr \<lparr>cal_year = 1970, cal_month = 1, cal_day = 1, cal_hour = 0, cal_min = 0, cal_sec = 0\<rparr>,
       \<lparr>pos_tsc = 2, pos_info = 4, pos_wall = 2\<rparr>)"
    using scaled(1,2) by (simp add: clock get_calendar_def get_monotonic_time_def loop wall cal)
  show "get_monotonic_time (en_clock sample_boot_environment) \<lparr>pos_tsc = 2, pos_info = 4, pos_wall = 2\<rparr> =
     Some (32000000, \<lparr>pos_tsc = 3, pos_info = 6, pos_wall = 2\<rparr>)"
    "get_monotonic_time (en_clock sample_boot_environment) \<lparr>pos_tsc = 3, pos_info = 6, pos_wall = 2\<rparr> =
     Some (48000000, \<lparr>pos_tsc = 4, pos_info = 8, pos_wall = 2\<rparr>)"
    using scaled(3,4) by (simp_all add: clock get_monotonic_time_def loop)
qed

lemma sample_boot_queue:
  "array_queue (en_queue sample_boot_environment) ring_items ring_inv (ringbuf_length - 1)" "2 \<le> ringbuf_length - 1"
  "ring_inv (bs_queue sample_boot)" "ring_items (bs_queue sample_boot) = []"
  using ringa.array_queue_axioms ring_inv_new ring_items_new
  by (simp_all add: sample_boot_environment_def sample_environment_def sample_boot_def ringbuf_length_def)

lemma sample_boot_devices:
  "announced (en_devices sample_boot_environment 0) sample_cmdline 0 5 1"
  "announced (en_devices sample_boot_environment 1) sample_cmdline 1 6 1"
  "(5 :: u8) \<noteq> 0" "(6 :: u8) \<noteq> 0" "(5 :: u8) \<noteq> 6"
  using sample_announced by (simp_all add: sample_boot_environment_def)

lemma sample_boot_timer:
  "timer_runs (en_hardware sample_boot_environment) l"
  "fst (ioapic_read (en_hardware sample_boot_environment) 1 l) = 0x00170011"
  "(32000000 :: u64) < 48000000" "489 \<le> unat (48000000 - 32000000 :: u64)"
  using sample_timer_runs
  by (simp_all add: sample_boot_environment_def sample_environment_def) (simp add: ioapic_read_def sample_hardware_def)

theorem kernel_comes_up_witness:
  "\<exists>k. start_rust sample_boot_environment sample_boot 0x10000 = Some (Inr k) \<and>
     interface_up k 0 (ipv4_from_array [192, 168, 0, 10]) 5 \<and> interface_up k 1 (ipv4_from_array [192, 168, 10, 10]) 6"
  using kernel_comes_up [OF sample_boot_queue sample_boot_params sample_boot_cmdline sample_boot_devices sample_boot_clock(1)
      sample_boot_timer(1,2) sample_boot_clock(2,3) sample_boot_timer(3,4)] by blast

text \<open>The kernel that has come up in this way.\<close>

lemma sample_kernel_up:
  "\<exists>k. start_rust sample_boot_environment sample_boot 0x10000 = Some (Inr k) \<and> k_handlers k ! 0 = Some Timer \<and>
     interface_up k 0 (ipv4_from_array [192, 168, 0, 10]) 5 \<and> net_ok (k_net k) \<and>
     async_reach (en_queue sample_boot_environment) (en_clock sample_boot_environment) (bs_queue sample_boot) (k_async k) \<and>
     length (k_handlers k) = 256 \<and> length (mc_pv_eoi (k_machine k)) = 256"
  using start_rust_ok [OF sample_boot_queue sample_boot_params sample_boot_cmdline sample_boot_devices sample_boot_clock(1)
      sample_boot_timer(1,2) sample_boot_clock(2,3) sample_boot_timer(3,4)] by blast

end
