(* ===== verification/Stack_Limits.thy ===== *)
theory Stack_Limits
  imports Stack_Behaviour
begin

text \<open>
  Where the stack stops short of what it means to do: frames it ignores, batches of echo requests
  it answers more than once, and single packets that panic the kernel or redirect its own address.
\<close>

section \<open>Frames for others\<close>

definition learn_frame :: "net_data \<Rightarrow> fib_tables \<Rightarrow> fib_tables" where
  "learn_frame frame t =
     (case buffer_slice (nd_buffer frame) of
        Inr sl \<Rightarrow> register_macaddress (mac_new (eth_src (take 14 sl))) (nd_netif frame) False None t
      | Inl _ \<Rightarrow> t)"

text \<open>A frame whose destination is neither the broadcast address nor a local MAC address.\<close>

definition foreign :: "fib_tables \<Rightarrow> net_data \<Rightarrow> bool" where
  "foreign t frame \<longleftrightarrow>
     (\<exists>sl. buffer_slice (nd_buffer frame) = Inr sl \<and> 14 \<le> length sl \<and>
        take 6 sl \<noteq> [0xff, 0xff, 0xff, 0xff, 0xff, 0xff] \<and>
        (\<forall>adj. mac_find t (mac_new (take 6 sl)) = Some adj \<longrightarrow> \<not> adj_is_local adj))"

lemma find_register_macaddress:
  "mac_find (register_macaddress m k l x t) m' =
     (if mac_eq m m' \<and> (\<forall>e. mac_find t m = Some e \<longrightarrow> adj_expire_time e \<noteq> None)
      then Some (adj_new m k l x) else mac_find t m')"
  using macs.find_register [of m "adj_new m k l x" t m']
  by (simp only: mac_register_def adj_new_def adjacent_information.select_convs adjacent_information.update_convs)

lemma foreign_learn: "foreign t frame \<Longrightarrow> foreign (learn_frame f t) frame"
  by (auto simp: foreign_def learn_frame_def find_register_macaddress adj_new_def split: sum.splits if_splits)

lemma ethernet_in_frame_foreign:
  assumes "foreign (ns_tables s) frame"
  shows "ethernet_in_frame frame (p, s) = Inr (p, s\<lparr>ns_tables := learn_frame frame (ns_tables s)\<rparr>)"
proof -
  obtain sl where sl: "buffer_slice (nd_buffer frame) = Inr sl" "14 \<le> length sl"
      "take 6 sl \<noteq> [0xff, 0xff, 0xff, 0xff, 0xff, 0xff]" using assms by (auto simp: foreign_def)
  have "foreign (learn_frame frame (ns_tables s)) frame" using assms by (rule foreign_learn)
  with sl show ?thesis
    by (auto simp: ethernet_in_frame_def view_at_def Let_def learn_frame_def eth_dest_def foreign_def mac_find_def
        min_def split: option.split)
qed

lemma rfold_foreign:
  assumes "\<forall>frame\<in>set frames. foreign (ns_tables s) frame"
  shows "rfold ethernet_in_frame frames (p, s) = Inr (p, s\<lparr>ns_tables := fold learn_frame frames (ns_tables s)\<rparr>)"
  using assms
proof (induction frames arbitrary: s)
  case (Cons f fs)
  let ?s = "s\<lparr>ns_tables := learn_frame f (ns_tables s)\<rparr>"
  have "\<forall>frame\<in>set fs. foreign (ns_tables ?s) frame" using Cons.prems foreign_learn by simp
  from Cons.IH [OF this] show ?case using ethernet_in_frame_foreign [of s f p] Cons.prems by simp
qed simp

text \<open>
  C19.  Frames for others.  A batch of frames none of which is addressed to the broadcast address or
  to a local MAC address only teaches the MAC table their senders; nothing is answered, forwarded or
  changed otherwise.
\<close>

theorem ethernet_ignores_foreign:
  assumes "\<forall>frame\<in>set frames. foreign (ns_tables s) frame"
  shows "ethernet_in heap frames s = Inr (s\<lparr>ns_tables := fold learn_frame frames (ns_tables s)\<rparr>)"
  using rfold_foreign [OF assms] by (simp add: ethernet_in_def)

section \<open>Repeated answers\<close>

text \<open>A frame that \<open>Ipv4In\<close> passes on to the ICMP node.\<close>

definition local_icmp4 :: "fib_tables \<Rightarrow> net_data \<Rightarrow> bool" where
  "local_icmp4 t frame \<longleftrightarrow>
     (\<exists>sl fib. buffer_slice (nd_buffer frame) = Inr sl \<and> 34 \<le> length sl \<and> sl ! 14 AND 0xf0 = 0x40 \<and> sl ! 23 = 0x01 \<and>
        find_ipv4_fib t (ipv4_from_array (take 4 (drop 30 sl))) 0xffffffff = Inr (Some fib) \<and> fib4_fib_type fib = Local)"

lemma ipv4_in_frame_local:
  assumes "local_icmp4 (ns_tables s) frame" "''icmpv4-in-local'' \<in> set (ns_nodes s)"
  shows "ipv4_in_frame heap frame (pkts, s) =
     rbind (icmpv4_in_local heap (pkts @ [frame]) s) (\<lambda>s'. Inr (pkts @ [frame], s'))"
proof -
  obtain sl fib where sl: "buffer_slice (nd_buffer frame) = Inr sl" "34 \<le> length sl" "sl ! 14 AND 0xf0 = 0x40"
    "sl ! 23 = 0x01" "find_ipv4_fib (ns_tables s) (ipv4_from_array (take 4 (drop 30 sl))) 0xffffffff = Inr (Some fib)"
    "fib4_fib_type fib = Local" using assms(1) by (auto simp: local_icmp4_def)
  have "take 4 (drop 16 (take 20 (drop 14 sl))) = take 4 (drop 30 sl)" by (simp add: drop_take)
  with sl assms(2) show ?thesis
    by (simp add: ipv4_in_frame_def view_at_def ip4_version_and_ihl_def ip4_proto_def ip4_dest_ip_def Let_def)
qed

lemma icmpv4_in_frame_nodes: "icmpv4_in_frame heap f s = Inr s' \<Longrightarrow> ns_nodes s' = ns_nodes s"
  by (auto simp: icmpv4_in_frame_def netif_pre_xmit_def netif_xmit_def Let_def rbind_eq_Inr split: if_splits)

lemma icmpv4_in_local_nodes: "icmpv4_in_local heap fs s = Inr s' \<Longrightarrow> ns_nodes s' = ns_nodes s"
  unfolding icmpv4_in_local_def
  by (erule rfold_keeps [where P = "\<lambda>s'. ns_nodes s' = ns_nodes s"]) (auto dest: icmpv4_in_frame_nodes)

lemma ipv4_in_prefixes:
  assumes "\<forall>frame\<in>set frames. local_icmp4 (ns_tables s) frame" "''icmpv4-in-local'' \<in> set (ns_nodes s)"
  shows "rfold (ipv4_in_frame heap) frames (pkts, s) =
     rbind (rfold (icmpv4_in_local heap) (map (\<lambda>i. pkts @ take i frames) [1..<Suc (length frames)]) s)
       (\<lambda>s'. Inr (pkts @ frames, s'))"
  using assms
proof (induction frames arbitrary: pkts s)
  case Nil
  then show ?case by simp
next
  case (Cons f fs)
  have batches: "map (\<lambda>i. pkts @ take i (f # fs)) [1..<Suc (length (f # fs))] =
      (pkts @ [f]) # map (\<lambda>i. (pkts @ [f]) @ take i fs) [1..<Suc (length fs)]"
  proof -
    have "[1..<Suc (length (f # fs))] = 1 # map Suc [1..<Suc (length fs)]"
      by (simp add: upt_conv_Cons map_Suc_upt del: upt_Suc)
    then show ?thesis by simp
  qed
  show ?case
  proof (cases "icmpv4_in_local heap (pkts @ [f]) s")
    case (Inl e)
    then show ?thesis using ipv4_in_frame_local [of s f heap pkts] Cons.prems unfolding batches by simp
  next
    case (Inr s1)
    have keep: "ns_tables s1 = ns_tables s" "ns_nodes s1 = ns_nodes s"
      using icmpv4_in_local_tables [OF Inr] icmpv4_in_local_nodes [OF Inr] by simp_all
    have "rfold (ipv4_in_frame heap) fs (pkts @ [f], s1) =
        rbind (rfold (icmpv4_in_local heap) (map (\<lambda>i. (pkts @ [f]) @ take i fs) [1..<Suc (length fs)]) s1)
          (\<lambda>s'. Inr ((pkts @ [f]) @ fs, s'))"
      using Cons.prems keep by (intro Cons.IH) simp_all
    then show ?thesis using Inr ipv4_in_frame_local [of s f heap pkts] Cons.prems unfolding batches by simp
  qed
qed

text \<open>
  C21.  Repeated answers.  The IPv4 node hands all ICMP packets collected so far to the ICMP node
  after every packet.  In a batch of \<open>n\<close> packets for it, the ICMP node processes the batches of
  length \<open>1, 2, ..., n\<close> one after the other, so that the first packet is answered \<open>n\<close> times.
\<close>

theorem ipv4_in_repeats_packets:
  assumes "\<forall>frame\<in>set frames. local_icmp4 (ns_tables s) frame" and "''icmpv4-in-local'' \<in> set (ns_nodes s)"
  shows "ipv4_in heap frames s =
     rfold (icmpv4_in_local heap) (map (\<lambda>i. take i frames) [1..<Suc (length frames)]) s"
  using ipv4_in_prefixes [OF assms, of heap "[]"]
  by (cases "rfold (icmpv4_in_local heap) (map (\<lambda>i. take i frames) [1..<Suc (length frames)]) s") (simp_all add: ipv4_in_def)

section \<open>Packets that panic the kernel\<close>

text \<open>
  C22.  A neighbour advertisement of at least 90 bytes panics the kernel: the source is registered
  with the prefix length 0xffffffff, which is out of the bounds of the table.
\<close>

theorem neighbor_advertisement_panics:
  assumes "buffer_slice (nd_buffer frame) = Inr sl" and "90 \<le> length sl" and "sl ! 54 = 0x88"
    and "wf6 (ns_tables s)"
  shows "icmpv6_in_frame heap frame s = Inl Index_OOB"
proof -
  have bytes: "rfold (\<lambda>i acc. rbind (get_at sl i) (\<lambda>b. Inr (acc @ [b]))) [i..<j] acc = Inr (acc @ map ((!) sl) [i..<j])"
    if "j \<le> length sl" for i j acc
    using that
  proof (induction "j - i" arbitrary: i acc)
    case (Suc k)
    then have "i < j" "k = j - Suc i" by simp_all
    with Suc show ?case by (simp add: upt_conv_Cons get_at_ok)
  qed simp
  have r: "register_ipv6_fib a 0xffffffff mac nh k t (ns_tables s) = Inl Index_OOB" for a mac nh k t
    using assms(4) by (intro register_ipv6_fib_oob) simp_all
  show ?thesis using assms(1-3) bytes [of 90 84 "[]"] bytes [of 82 66 "[]"]
    by (simp add: icmpv6_in_frame_def view_at_def icmp_type_def subslice_def r Let_def)
qed

lemma copy_payload_oob:
  assumes "lo \<le> length req" "length req < hi" "hi \<le> length r"
  shows "copy_payload req lo hi r = Inl Index_OOB"
  using assms
proof (induction "length req - lo" arbitrary: lo r)
  case 0
  then show ?case by (simp add: copy_payload_def rfor.simps [of lo] get_at_def)
next
  case (Suc k)
  have "lo < length req" "k = length req - Suc lo" using Suc.hyps(2) by simp_all
  then have "copy_payload req (Suc lo) hi (r[lo := req ! lo]) = Inl Index_OOB"
    using Suc.prems by (intro Suc.hyps(1)) simp_all
  with \<open>lo < length req\<close> Suc.prems show ?case
    by (simp add: copy_payload_def rfor.simps [of lo] slice_simps)
qed

text \<open>
  C23.  A lying length field.  An echo request whose IP header announces more bytes than the receive
  buffer holds panics the kernel when the payload is copied.
\<close>

theorem lying_length_panics:
  assumes "buffer_slice (nd_buffer frame) = Inr req" and "42 \<le> length req"
    and "ip4_header_len (take 20 (drop 14 req)) = 20" and "req ! 34 = 0x08"
    and "28 \<le> be16 (req ! 16) (req ! 17)" and "length req < 14 + be16 (req ! 16) (req ! 17)"
    and "nd_netif frame < length (ns_ifaces s)" and "iface_ok (ns_ifaces s ! nd_netif frame)"
  shows "icmpv4_in_frame heap frame s = Inl Index_OOB"
proof -
  define ip where "ip = take 20 (drop 14 req)"
  define icmp where "icmp = take 8 (drop 34 req)"
  define tot where "tot = be16 (req ! 16) (req ! 17)"
  let ?mac = "vn_macaddr (ns_ifaces s ! nd_netif frame)"
  have t16: "tot < 65536" and t20: "20 \<le> tot" using be16_less assms(5) by (simp_all add: tot_def)
  have lip: "length ip = 20" using assms(2) by (simp add: ip_def)
  have "ip4_length ip = [ip ! 2, ip ! 3]" using take_2_drop [of 2 ip] lip by (simp add: ip4_length_def)
  then have len: "len_field (ip4_length ip) - of_nat 20 = of_nat (tot - 20)"
    using t20 assms(2) by (simp add: len_field_unat ip_def tot_def)
  note fl = unat_frame_len [OF t20 t16]
  have views: "view_at req 14 20 = Inr ip" "view_at req (14 + 20) 8 = Inr icmp" "icmp_type icmp = 0x08"
    using assms(2,4) by (simp_all add: view_at_def ip_def icmp_def icmp_type_def)
  have ok: "length (mac_array ?mac) = 6" using assms(8) by (simp add: iface_ok_def)
  have "unat (14 + 20 + of_nat (tot - 20) :: usize) + 12 \<le> 2 ^ 63" using fl(1) t16 by simp
  from vnet_pre_xmit_ok [OF this, of heap "ns_allocs s"] obtain b sl where
    b: "vnet_pre_xmit heap (14 + 20 + of_nat (tot - 20)) (ns_allocs s) = Inr (b, Suc (ns_allocs s))"
      "buffer_slice b = Inr sl" "length sl = ((14 + tot + 11) div 4096 + 1) * 4096 - 12"
    unfolding fl by blast
  have "14 + tot + 12 \<le> ((14 + tot + 11) div 4096 + 1) * 4096"
    using div_mult_mod_eq [of "14 + tot + 11" 4096] mod_less_divisor [of 4096 "14 + tot + 11"] by simp
  then have sl: "14 + tot \<le> length sl" using b(3) by simp
  have "icmpv4_fill_reply ?mac req ip icmp (of_nat (tot - 20)) sl = Inl Index_OOB"
  proof -
    let ?iph = "ipv4_header (ip4_length ip) 0x01 (ipv4_from_array (ip4_dest_ip ip)) (ipv4_from_array (ip4_src_ip ip))"
    let ?ich = "[0x00, 0x00] @ le16 0 @ icmp_identifier icmp @ icmp_sequence icmp"
    have p: "length [0x08, 0x00 :: u8] = 2" "12 \<le> length req" "?iph \<noteq> []" "14 + 20 = 14 + length ?iph"
      "length ?ich = 8" "14 + 20 + 8 \<le> length sl"
      using assms(2,5) sl lip
      by (simp_all add: ipv4_header_def ip4_length_def ipv4_get_array_def icmp_def icmp_identifier_def icmp_sequence_def tot_def)
    have "copy_payload req (14 + 20 + 8) (14 + tot) (((eth_src req @ mac_array ?mac @ [0x08, 0x00]) @ ?iph @ ?ich) @ drop (14 + 20 + 8) sl) = Inl Index_OOB"
      using assms(2,6) sl p(4,5) ok by (intro copy_payload_oob) (simp_all add: tot_def eth_src_def)
    then show ?thesis
      unfolding icmpv4_fill_reply_def Let_def generate_ipv4_header_def fl reply_headers [OF ok p] by simp
  qed
  with b views assms(1,3,7) len show ?thesis
    by (simp add: icmpv4_in_frame_def ip_def [symmetric] netif_pre_xmit_def netif_macaddress_def get_at_ok Let_def)
qed

section \<open>Redirecting an address of the kernel\<close>

text \<open>
  C24.  An ARP packet takes over the host route of any address it names as its sender, even an address
  that was registered as local: afterwards the lookup of that address finds the sender's entry,
  and the kernel no longer takes packets for it as its own.
\<close>

theorem arp_replaces_local_route:
  assumes "buffer_slice (nd_buffer frame) = Inr req" and "42 \<le> length req" and "wf4 (ns_tables s)"
    and "arp_in_frame heap frame s = Inr s'"
    and "ip = ipv4_from_array (arp_spa (take 28 (drop 14 req)))"
  shows "find_ipv4_fib (ns_tables s') ip 0xffffffff =
     Inr (Some (mk_fib4 (mac_new (arp_sha (take 28 (drop 14 req)))) ip (nd_netif frame) AdjacentResolved))"
proof -
  let ?t = "arp_learn (nd_netif frame) req (ns_tables s)"
  have t: "ns_tables s' = ?t"
    using assms(4) unfolding arp_in_frame_learns [OF assms(1-3)] by (auto dest: arp_respond_tables)
  have len: "length (ipv4_fib_index (ns_tables s)) = 33" using assms(3) by (simp add: wf4_def)
  then have "probe4 (ipv4_fib_index ?t) ip 32 =
      Some (mk_fib4 (mac_new (arp_sha (take 28 (drop 14 req)))) ip (nd_netif frame) AdjacentResolved)"
    by (simp add: probe4_def arp_learn_def Let_def register_ipv4_adjacent_def assms(5) split: option.split)
  moreover have "32 < length (ipv4_fib_index ?t)"
    using wf4_arp_learn [OF assms(3)] by (intro levels4)
  ultimately show ?thesis unfolding find_ipv4_fib_host t by (intro v4_search.search_hit)
qed

end
