(* ===== verification/Stack_Witnesses.thy ===== *)
theory Stack_Witnesses
  imports Stack_Limits
begin

text \<open>
  A small network on which the hypotheses of the stack's theorems hold: one interface with the
  address 192.168.0.10 and a few packets as bytes on the wire.
\<close>

section \<open>The network\<close>

definition sample_ip :: ipv4_address where
  "sample_ip = Ipv4Address 0xC0A8000A"

definition sample_adj :: adjacent_information where
  "sample_adj = adj_new (mac_new [2, 0, 0, 0, 0, 1]) 0 True None"

definition sample_net_tables :: fib_tables where
  "sample_net_tables = empty_tables\<lparr>
     ipv4_adjacent := [sample_ip \<mapsto> sample_adj],
     ipv4_fib_index := (replicate 33 Map.empty)
       [32 := [sample_ip \<mapsto> mk_fib4 (mac_new [2, 0, 0, 0, 0, 1]) sample_ip 0 Local]]\<rparr>"

definition sample_state :: net_state where
  "sample_state = \<lparr>ns_tables = sample_net_tables, ns_ifaces = [sample_vnet 0],
     ns_nodes = [''ethernet-in'', ''arp-in'', ''ipv4-in'', ''icmpv4-in-local''], ns_allocs = 10\<rparr>"

definition sample_frame :: "u8 list \<Rightarrow> net_data" where
  "sample_frame bytes = \<lparr>nd_netif = 0, nd_buffer =
     \<lparr>buf_ptr = 0x900000, buf_size = of_nat (length bytes), buf_position = 0, buf_mem = bytes\<rparr>\<rparr>"

lemma sample_frame_slice [simp]:
  "buffer_slice (nd_buffer (sample_frame bytes)) = Inr bytes" "nd_netif (sample_frame bytes) = 0"
  by (simp_all add: sample_frame_def buffer_slice_def)

lemma sample_iface [simp]:
  "length (ns_ifaces sample_state) = 1" "ns_ifaces sample_state ! 0 = sample_vnet 0" "iface_ok (sample_vnet 0)"
  using sample_queue_inv(1) by (simp_all add: sample_state_def iface_ok_def sample_vnet_def vq_inv_def)

lemma sample_net_route4:
  "route4 sample_net_tables p net f \<longleftrightarrow>
     p = 32 \<and> net = sample_ip \<and> f = mk_fib4 (mac_new [2, 0, 0, 0, 0, 1]) sample_ip 0 Local"
  by (auto simp: route4_def sample_net_tables_def nth_list_update split: if_splits)

lemma sample_net_ok [simp]: "wf4 sample_net_tables" "wf6 sample_net_tables" "net_ok sample_state"
proof -
  have "length (ipv4_fib_index sample_net_tables) = 33" by (simp add: sample_net_tables_def)
  then show wf: "wf4 sample_net_tables" by (auto simp: wf4_def sample_net_route4)
  show wf6: "wf6 sample_net_tables" by (simp add: wf6_def sample_net_tables_def empty_tables_def)
  show "net_ok sample_state"
    using wf wf6 by (auto simp: net_ok_def sample_state_def sample_net_tables_def sample_adj_def adj_new_def empty_tables_def
        split: if_splits)
qed

lemma sample_tables [simp]: "ns_tables sample_state = sample_net_tables"
  by (simp add: sample_state_def)

section \<open>Packets\<close>

definition sample_eth :: "u8 list \<Rightarrow> u8 list" where
  "sample_eth ty = [2, 0, 0, 0, 0, 1] @ [2, 0, 0, 0, 0, 9] @ ty"

definition sample_echo :: "u8 \<Rightarrow> u8 list" where
  "sample_echo len = sample_eth [0x08, 0x00] @
     [0x45, 0, 0, len, 0, 0, 0, 0, 64, 1, 0, 0, 192, 168, 0, 1, 192, 168, 0, 10] @ [8, 0, 0, 0, 1, 2, 3, 4]"

definition sample_icmp6 :: "u8 \<Rightarrow> u8 list" where
  "sample_icmp6 ty = sample_eth [0x86, 0xdd] @
     [0x60, 0, 0, 0, 0, 8, 58, 64] @ replicate 16 1 @ replicate 16 2 @ [ty, 0, 0, 0, 1, 2, 3, 4] @ replicate 28 0"

definition sample_arp :: "u8 list \<Rightarrow> u8 list" where
  "sample_arp spa = sample_eth [0x08, 0x06] @
     [0, 1, 8, 0, 6, 4, 0, 1] @ [2, 0, 0, 0, 0, 9] @ spa @ replicate 6 0 @ [192, 168, 0, 10]"

lemma sample_foreign: "foreign (ns_tables sample_state) (sample_frame (replicate 14 7))"
proof -
  have "take 6 (replicate 14 (7 :: u8)) \<noteq> [0xff, 0xff, 0xff, 0xff, 0xff, 0xff]" by code_simp
  then show ?thesis by (simp add: foreign_def mac_find_def sample_net_tables_def empty_tables_def)
qed

section \<open>The theorems at work\<close>

theorem icmpv4_answers_echo_witness:
  "echo_request4 (sample_echo 28) \<and>
   (\<exists>b r. icmpv4_in_frame sample_heap (sample_frame (sample_echo 28)) sample_state =
      Inr (sample_state\<lparr>ns_allocs := 11, ns_ifaces := [vnet_sent b (sample_vnet 0)]\<rparr>) \<and>
      buf_mem b = replicate 12 0 @ r \<and> echo_reply4 (vn_macaddr (sample_vnet 0)) (sample_echo 28) r)"
proof -
  have e: "echo_request4 (sample_echo 28)" "even (be16 (sample_echo 28 ! 16) (sample_echo 28 ! 17))" by code_simp+
  show ?thesis
    using icmpv4_answers_echo [of "sample_frame (sample_echo 28)" "sample_echo 28" sample_state sample_heap] e
    by (auto simp: sample_state_def)
qed

text \<open>The same request with one byte more, which the checksum of its reply does not cover.\<close>

theorem icmpv4_odd_echo_invalid_witness:
  "\<exists>b r. icmpv4_in_frame sample_heap (sample_frame (sample_echo 29 @ [5])) sample_state =
      Inr (sample_state\<lparr>ns_allocs := 11, ns_ifaces := [vnet_sent b (sample_vnet 0)]\<rparr>) \<and>
     buf_mem b = replicate 12 0 @ r \<and> \<not> valid_csum (reply_message4 (sample_echo 29 @ [5]) r)"
proof -
  have e: "echo_request4 (sample_echo 29 @ [5])" "odd (be16 ((sample_echo 29 @ [5]) ! 16) ((sample_echo 29 @ [5]) ! 17))"
    "(sample_echo 29 @ [5]) ! (13 + be16 ((sample_echo 29 @ [5]) ! 16) ((sample_echo 29 @ [5]) ! 17)) \<noteq> 0" by code_simp+
  show ?thesis
    using icmpv4_odd_echo_invalid [OF sample_frame_slice(1) e, of sample_state sample_heap] by (auto simp: sample_state_def)
qed

theorem icmpv6_answers_echo_witness:
  "echo_request6 (sample_icmp6 0x80) \<and>
   (\<exists>b r. icmpv6_in_frame sample_heap (sample_frame (sample_icmp6 0x80)) sample_state =
      Inr (sample_state\<lparr>ns_allocs := 11, ns_ifaces := [vnet_sent b (sample_vnet 0)]\<rparr>) \<and>
      buf_mem b = replicate 12 0 @ r \<and> echo_reply6 (vn_macaddr (sample_vnet 0)) (sample_icmp6 0x80) r)"
proof -
  have e: "echo_request6 (sample_icmp6 0x80)" "even (be16 (sample_icmp6 0x80 ! 18) (sample_icmp6 0x80 ! 19))" by code_simp+
  show ?thesis
    using icmpv6_answers_echo [of "sample_frame (sample_icmp6 0x80)" "sample_icmp6 0x80" sample_state sample_heap] e
    by (auto simp: sample_state_def)
qed

theorem arp_answers_request_witness:
  "\<exists>b rest. arp_in_frame sample_heap (sample_frame (sample_arp [192, 168, 0, 1])) sample_state =
       Inr (sample_state\<lparr>ns_tables := arp_learn 0 (sample_arp [192, 168, 0, 1]) sample_net_tables,
         ns_allocs := Suc (ns_allocs sample_state),
         ns_ifaces := (ns_ifaces sample_state)[0 := vnet_sent b (sample_vnet 0)]\<rparr>) \<and>
     buf_mem b = replicate 12 0 @ arp_reply (vn_macaddr (sample_vnet 0)) (take 28 (drop 14 (sample_arp [192, 168, 0, 1]))) @ rest"
proof -
  let ?req = "sample_arp [192, 168, 0, 1]"
  have r: "42 \<le> length ?req" "arp_oper (take 28 (drop 14 ?req)) = 0x0100"
    "ipv4_from_array (arp_tpa (take 28 (drop 14 ?req))) = sample_ip" by code_simp+
  have a: "ipv4_adjacent (ns_tables sample_state) (ipv4_from_array (arp_tpa (take 28 (drop 14 ?req)))) = Some sample_adj"
    "adj_is_local sample_adj" "adj_expire_time sample_adj = None" "adj_netif sample_adj = 0"
    unfolding r(3) by (simp_all add: sample_net_tables_def sample_adj_def adj_new_def)
  show ?thesis
    using arp_answers_request [OF sample_frame_slice(1) r(1,2) sample_net_ok(3) a(1-3), of sample_heap] by (auto simp: a(4))
qed

theorem packets_keep_permanent_entries_witness:
  "\<exists>s'. ethernet_in sample_heap [sample_frame (replicate 14 7)] sample_state = Inr s' \<and>
     ipv4_adjacent (ns_tables s') sample_ip = Some sample_adj"
proof -
  obtain s' where s': "ethernet_in sample_heap [sample_frame (replicate 14 7)] sample_state = Inr s'"
    using rfold_foreign [of "[sample_frame (replicate 14 7)]" sample_state] sample_foreign
    by (simp add: ethernet_in_def)
  have "ipv4_adjacent (ns_tables sample_state) sample_ip = Some sample_adj" "adj_expire_time sample_adj = None"
    by (simp_all add: sample_net_tables_def sample_adj_def adj_new_def)
  with packets_keep_permanent_entries [OF s'] s' show ?thesis by (auto simp: adj_kept_def)
qed

theorem arp_in_total_witness:
  "\<exists>s'. arp_in sample_heap [sample_frame (sample_arp [192, 168, 0, 1]), sample_frame (replicate 42 0)] sample_state = Inr s' \<and> net_ok s'"
proof -
  have "length (sample_arp [192, 168, 0, 1]) = 42" by code_simp
  then show ?thesis
    using arp_in_total [OF sample_net_ok(3), of "[sample_frame (sample_arp [192, 168, 0, 1]), sample_frame (replicate 42 0)]" sample_heap]
    by simp
qed

theorem ethernet_ignores_foreign_witness:
  "foreign (ns_tables sample_state) (sample_frame (replicate 14 7)) \<and>
   ethernet_in sample_heap [sample_frame (replicate 14 7)] sample_state =
     Inr (sample_state\<lparr>ns_tables := learn_frame (sample_frame (replicate 14 7)) sample_net_tables\<rparr>)"
  using ethernet_ignores_foreign [of "[sample_frame (replicate 14 7)]" sample_state sample_heap] sample_foreign by simp

theorem ipv4_in_repeats_packets_witness:
  "local_icmp4 (ns_tables sample_state) (sample_frame (sample_echo 28)) \<and>
   ipv4_in sample_heap [sample_frame (sample_echo 28), sample_frame (sample_echo 28)] sample_state =
     rfold (icmpv4_in_local sample_heap) [[sample_frame (sample_echo 28)],
       [sample_frame (sample_echo 28), sample_frame (sample_echo 28)]] sample_state"
proof -
  have b: "34 \<le> length (sample_echo 28)" "sample_echo 28 ! 14 AND 0xf0 = 0x40" "sample_echo 28 ! 23 = 0x01"
    "ipv4_from_array (take 4 (drop 30 (sample_echo 28))) = sample_ip" by code_simp+
  have "find_ipv4_fib sample_net_tables sample_ip 0xffffffff = Inr (Some (mk_fib4 (mac_new [2, 0, 0, 0, 0, 1]) sample_ip 0 Local))"
    unfolding find_ipv4_fib_host by (rule v4_search.search_hit) (simp_all add: probe4_def sample_net_tables_def)
  then have l: "local_icmp4 (ns_tables sample_state) (sample_frame (sample_echo 28))"
    using b by (simp add: local_icmp4_def mk_fib4_def)
  have n: "''icmpv4-in-local'' \<in> set (ns_nodes sample_state)" by (simp add: sample_state_def)
  show ?thesis
    using ipv4_in_repeats_packets [of "[sample_frame (sample_echo 28), sample_frame (sample_echo 28)]" sample_state sample_heap] l n
    by (simp add: upt_rec)
qed

theorem neighbor_advertisement_panics_witness:
  "icmpv6_in_frame sample_heap (sample_frame (sample_icmp6 0x88)) sample_state = Inl Index_OOB"
proof -
  have "90 \<le> length (sample_icmp6 0x88)" "sample_icmp6 0x88 ! 54 = 0x88" by code_simp+
  then show ?thesis
    using neighbor_advertisement_panics [OF sample_frame_slice(1), of "sample_icmp6 0x88" sample_state sample_heap] by simp
qed

theorem lying_length_panics_witness:
  "icmpv4_in_frame sample_heap (sample_frame (sample_echo 200)) sample_state = Inl Index_OOB"
proof -
  have "42 \<le> length (sample_echo 200)" "ip4_header_len (take 20 (drop 14 (sample_echo 200))) = 20"
    "sample_echo 200 ! 34 = 0x08" "28 \<le> be16 (sample_echo 200 ! 16) (sample_echo 200 ! 17)"
    "length (sample_echo 200) < 14 + be16 (sample_echo 200 ! 16) (sample_echo 200 ! 17)" by code_simp+
  then show ?thesis
    using lying_length_panics [OF sample_frame_slice(1), of "sample_echo 200" sample_state sample_heap] by simp
qed

theorem arp_replaces_local_route_witness:
  "find_ipv4_fib sample_net_tables sample_ip 0xffffffff = Inr (Some (mk_fib4 (mac_new [2, 0, 0, 0, 0, 1]) sample_ip 0 Local)) \<and>
   (\<exists>s'. arp_in_frame sample_heap (sample_frame (sample_arp [192, 168, 0, 10])) sample_state = Inr s' \<and>
     find_ipv4_fib (ns_tables s') sample_ip 0xffffffff =
       Inr (Some (mk_fib4 (mac_new [2, 0, 0, 0, 0, 9]) sample_ip 0 AdjacentResolved)))"
proof -
  let ?req = "sample_arp [192, 168, 0, 10]"
  have r: "42 \<le> length ?req" "ipv4_from_array (arp_spa (take 28 (drop 14 ?req))) = sample_ip"
    "arp_sha (take 28 (drop 14 ?req)) = [2, 0, 0, 0, 0, 9]" "length (take 28 (drop 14 ?req)) = 28" by code_simp+
  have before: "find_ipv4_fib sample_net_tables sample_ip 0xffffffff = Inr (Some (mk_fib4 (mac_new [2, 0, 0, 0, 0, 1]) sample_ip 0 Local))"
    unfolding find_ipv4_fib_host by (rule v4_search.search_hit) (simp_all add: probe4_def sample_net_tables_def)
  have ok: "net_ok (sample_state\<lparr>ns_tables := arp_learn 0 ?req (ns_tables sample_state)\<rparr>)"
    by (rule net_ok_arp_learn) simp_all
  obtain s' where s': "arp_in_frame sample_heap (sample_frame ?req) sample_state = Inr s'"
    using arp_respond_ok [OF ok r(4), of sample_heap] arp_in_frame_learns [OF sample_frame_slice(1) r(1), of sample_state sample_heap]
    by auto
  from arp_replaces_local_route [OF sample_frame_slice(1) r(1) _ s' refl] before s' r(2,3) show ?thesis by simp
qed

end
