(* ===== verification/Stack_Shape.thy ===== *)
theory Stack_Shape
  imports Stack_Witnesses
begin

text \<open>
  What no packet changes: whatever frames the stack is given, when it returns the state is well formed
  again, the nodes and the interfaces with their addresses and receive queues are the same, permanent
  entries of the tables are kept, and so are all routes but the IPv4 routes to single hosts.
\<close>

lemma rbind_unit: "rbind m Inr = m"
  by (cases m) simp_all

lemma rfold_single: "rfold f [x] s = f x s"
  by (cases "f x s") simp_all

section \<open>The relation between the states before and after\<close>

definition stack_kept :: "net_state \<Rightarrow> net_state \<Rightarrow> bool" where
  "stack_kept s s' \<longleftrightarrow> net_ok s' \<and> ns_nodes s' = ns_nodes s \<and>
     map vn_id (ns_ifaces s') = map vn_id (ns_ifaces s) \<and> map vn_macaddr (ns_ifaces s') = map vn_macaddr (ns_ifaces s) \<and>
     map vn_rxq (ns_ifaces s') = map vn_rxq (ns_ifaces s) \<and> adj_kept (ns_tables s) (ns_tables s') \<and>
     ipv6_fib_index (ns_tables s') = ipv6_fib_index (ns_tables s) \<and>
     (\<forall>p<32. ipv4_fib_index (ns_tables s') ! p = ipv4_fib_index (ns_tables s) ! p)"

lemma stack_kept_refl: "net_ok s \<Longrightarrow> stack_kept s s"
  by (simp add: stack_kept_def)

lemma stack_kept_trans [trans]: "stack_kept s s' \<Longrightarrow> stack_kept s' s'' \<Longrightarrow> stack_kept s s''"
  by (auto simp: stack_kept_def intro: adj_kept_trans)

lemma stack_kept_ok: "stack_kept s s' \<Longrightarrow> net_ok s'"
  by (simp add: stack_kept_def)

lemma stack_kept_length: "stack_kept s s' \<Longrightarrow> length (ns_ifaces s') = length (ns_ifaces s)"
  unfolding stack_kept_def by (metis length_map)

text \<open>A loop over frames keeps the shape when its body does.\<close>

lemma rfold_stack_kept:
  assumes "rfold f xs s = Inr s'" "net_ok s"
    and "\<And>x s s'. x \<in> set xs \<Longrightarrow> net_ok s \<Longrightarrow> f x s = Inr s' \<Longrightarrow> stack_kept s s'"
  shows "stack_kept s s'"
  using assms(1)
  by (rule rfold_keeps [where P = "stack_kept s"])
    (auto intro: stack_kept_refl [OF assms(2)] stack_kept_trans dest: assms(3) [rotated] stack_kept_ok)

lemma rfold_stack_kept_pair:
  assumes "rfold f xs (a, s) = Inr (a', s')" "net_ok s"
    and "\<And>x a s a' s'. x \<in> set xs \<Longrightarrow> net_ok s \<Longrightarrow> f x (a, s) = Inr (a', s') \<Longrightarrow> stack_kept s s'"
  shows "stack_kept s s'"
proof -
  have step: "stack_kept s (snd ps')" if "x \<in> set xs" "stack_kept s (snd ps)" "f x ps = Inr ps'" for x ps ps'
    using that assms(3) [of x "snd ps" "fst ps" "fst ps'" "snd ps'"] stack_kept_ok stack_kept_trans by auto
  have "stack_kept s (snd (a', s'))"
    by (rule rfold_keeps [OF assms(1), where P = "\<lambda>ps. stack_kept s (snd ps)"])
      (use step stack_kept_refl [OF assms(2)] in auto)
  then show ?thesis by simp
qed

section \<open>Sending\<close>

lemma netif_xmit_kept:
  assumes "netif_xmit k b s1 = Inr s'" "s1 = s\<lparr>ns_allocs := n\<rparr>" "net_ok s"
  shows "stack_kept s s'"
proof -
  have k: "k < length (ns_ifaces s)" using assms(1,2) by (auto simp: netif_xmit_def rbind_eq_Inr get_at_eq_Inr)
  then have "iface_ok (ns_ifaces s ! k)" using assms(3) by (simp add: net_ok_def)
  with k assms(1,2) have s': "s' = s\<lparr>ns_allocs := n, ns_ifaces := (ns_ifaces s)[k := vnet_sent b (ns_ifaces s ! k)]\<rparr>"
    using netif_xmit_ok [of k s1 b] by simp
  show ?thesis using net_ok_sent [OF assms(3) k, where n = n and b = b] k
    by (simp add: s' stack_kept_def map_update list_update_same_conv)
qed

lemma netif_pre_xmit_state: "netif_pre_xmit heap sz s = Inr (b, s') \<Longrightarrow> \<exists>n. s' = s\<lparr>ns_allocs := n\<rparr>"
  by (auto simp: netif_pre_xmit_def rbind_eq_Inr)

section \<open>The nodes\<close>

lemma icmpv4_in_frame_kept: "icmpv4_in_frame heap f s = Inr s' \<Longrightarrow> net_ok s \<Longrightarrow> stack_kept s s'"
  unfolding icmpv4_in_frame_def Let_def
  by (auto simp: rbind_eq_Inr split: if_splits intro: stack_kept_refl netif_xmit_kept dest!: netif_pre_xmit_state)

lemma icmpv6_in_frame_shape: "icmpv6_in_frame heap f s = Inr s' \<Longrightarrow> net_ok s \<Longrightarrow> stack_kept s s'"
proof -
  assume *: "icmpv6_in_frame heap f s = Inr s'" "net_ok s"
  have "register_ipv6_fib a 0xffffffff mac nh k t (ns_tables s) = Inl Index_OOB" for a mac nh k t
    using *(2) by (intro register_ipv6_fib_oob) (simp_all add: net_ok_def)
  with * show ?thesis unfolding icmpv6_in_frame_def Let_def
    by (auto simp: rbind_eq_Inr split: if_splits intro: stack_kept_refl netif_xmit_kept dest!: netif_pre_xmit_state)
qed

lemma arp_respond_kept: "arp_respond heap arp s = Inr s' \<Longrightarrow> net_ok s \<Longrightarrow> stack_kept s s'"
  unfolding arp_respond_def Let_def
  by (auto simp: rbind_eq_Inr split: if_splits option.splits intro: stack_kept_refl netif_xmit_kept dest!: netif_pre_xmit_state)

lemma arp_learn_kept:
  assumes "net_ok s" "k < length (ns_ifaces s)"
  shows "stack_kept s (s\<lparr>ns_tables := arp_learn k req (ns_tables s)\<rparr>)"
proof -
  let ?t = "arp_learn k req (ns_tables s)"
  have "adj_kept (ns_tables s) ?t"
    by (auto simp: arp_learn_def Let_def adj_kept_def register_ipv4_adjacent_def split: option.split)
  moreover have "ipv6_fib_index ?t = ipv6_fib_index (ns_tables s)" "\<forall>p<32. ipv4_fib_index ?t ! p = ipv4_fib_index (ns_tables s) ! p"
    by (simp_all add: arp_learn_def Let_def register_ipv4_adjacent_def split: option.split)
  ultimately show ?thesis using net_ok_arp_learn [OF assms] by (auto simp: stack_kept_def)
qed

lemma arp_in_frame_shape:
  assumes "arp_in_frame heap f s = Inr s'" "net_ok s" "nd_netif f < length (ns_ifaces s)"
  shows "stack_kept s s'"
proof -
  obtain req where req: "buffer_slice (nd_buffer f) = Inr req" "42 \<le> length req"
    using assms(1) by (auto simp: arp_in_frame_def rbind_eq_Inr view_at_def split: if_splits)
  let ?s = "s\<lparr>ns_tables := arp_learn (nd_netif f) req (ns_tables s)\<rparr>"
  have learn: "stack_kept s ?s" by (rule arp_learn_kept [OF assms(2,3)])
  have "wf4 (ns_tables s)" using assms(2) by (simp add: net_ok_def)
  then have "arp_respond heap (take 28 (drop 14 req)) ?s = Inr s'" using assms(1) arp_in_frame_learns [OF req] by simp
  with learn show ?thesis using arp_respond_kept stack_kept_ok stack_kept_trans by blast
qed

lemma arp_in_shape:
  assumes "arp_in heap frames s = Inr s'" "net_ok s" "\<forall>f\<in>set frames. nd_netif f < length (ns_ifaces s)"
  shows "stack_kept s s'"
proof -
  have step: "stack_kept s s2" if "f \<in> set frames" "stack_kept s s1" "arp_in_frame heap f s1 = Inr s2" for f s1 s2
    using arp_in_frame_shape [OF that(3) stack_kept_ok [OF that(2)]] that assms(3) stack_kept_length [OF that(2)]
      stack_kept_trans by auto
  show ?thesis
    using assms(1) unfolding arp_in_def
    by (rule rfold_keeps [where P = "stack_kept s"]) (use step stack_kept_refl [OF assms(2)] in auto)
qed

lemma icmp_in_local_shape:
  "icmpv4_in_local heap frames s = Inr s' \<Longrightarrow> net_ok s \<Longrightarrow> stack_kept s s'"
  "icmpv6_in_local heap frames s = Inr s' \<Longrightarrow> net_ok s \<Longrightarrow> stack_kept s s'"
  unfolding icmpv4_in_local_def icmpv6_in_local_def
  by (erule (1) rfold_stack_kept, erule (1) icmpv4_in_frame_kept icmpv6_in_frame_shape)+

lemma ipv4_in_shape:
  assumes "ipv4_in heap frames s = Inr s'" "net_ok s"
  shows "stack_kept s s'"
proof -
  obtain p where "rfold (ipv4_in_frame heap) frames ([], s) = Inr (p, s')"
    using assms(1) by (auto simp: ipv4_in_def rbind_eq_Inr)
  then show ?thesis
    by (rule rfold_stack_kept_pair [OF _ assms(2)])
      (auto simp: ipv4_in_frame_def Let_def rbind_eq_Inr split: if_splits intro: stack_kept_refl icmp_in_local_shape)
qed

lemma ipv6_in_shape:
  assumes "ipv6_in heap frames s = Inr s'" "net_ok s"
  shows "stack_kept s s'"
proof -
  obtain p where "rfold (ipv6_in_frame heap) frames ([], s) = Inr (p, s')"
    using assms(1) by (auto simp: ipv6_in_def rbind_eq_Inr)
  then show ?thesis
    by (rule rfold_stack_kept_pair [OF _ assms(2)])
      (auto simp: ipv6_in_frame_def Let_def rbind_eq_Inr split: if_splits intro: stack_kept_refl icmp_in_local_shape)
qed

section \<open>The whole stack\<close>

lemma learn_mac_kept:
  assumes "net_ok s"
  shows "stack_kept s (s\<lparr>ns_tables := register_macaddress mac k l x (ns_tables s)\<rparr>)"
  using assms adj_kept_register(3) [of "ns_tables s" mac k l x]
  by (auto simp: stack_kept_def net_ok_def wf4_def wf6_def route4_def register_macaddress_def split: option.split)

lemma ethernet_in_frame_shape:
  "ethernet_in_frame f (p, s) = Inr (p', s') \<Longrightarrow> net_ok s \<Longrightarrow> stack_kept s s'"
  by (auto simp: ethernet_in_frame_def Let_def rbind_eq_Inr split: if_splits option.splits intro: learn_mac_kept)

text \<open>Sorting takes the frames for the nodes from the ones that came in.\<close>

lemma ethernet_sorts:
  assumes "rfold ethernet_in_frame frames (\<lparr>arp_pkts = [], ipv4_pkts = [], ipv6_pkts = []\<rparr>, s) = Inr (p, s')"
  shows "set (arp_pkts p) \<subseteq> set frames"
proof -
  have "set (arp_pkts (fst (p, s'))) \<subseteq> set frames"
    by (rule rfold_keeps [OF assms, where P = "\<lambda>ps. set (arp_pkts (fst ps)) \<subseteq> set frames"])
      (auto simp: ethernet_in_frame_def proc_frame_def Let_def rbind_eq_Inr split: if_splits option.splits prod.splits)
  then show ?thesis by simp
qed

lemma ethernet_in_shape:
  assumes "ethernet_in heap frames s = Inr s'" "net_ok s" "\<forall>f\<in>set frames. nd_netif f < length (ns_ifaces s)"
  shows "stack_kept s s'"
proof -
  obtain p s1 s2 s3 where
    1: "rfold ethernet_in_frame frames (\<lparr>arp_pkts = [], ipv4_pkts = [], ipv6_pkts = []\<rparr>, s) = Inr (p, s1)" and
    2: "s2 = s1 \<or> arp_in heap (arp_pkts p) s1 = Inr s2" and
    3: "s3 = s2 \<or> ipv4_in heap (ipv4_pkts p) s2 = Inr s3" and
    4: "s' = s3 \<or> ipv6_in heap (ipv6_pkts p) s3 = Inr s'"
    using ethernet_in_stages [OF assms(1)] by blast
  have k1: "stack_kept s s1" by (rule rfold_stack_kept_pair [OF 1 assms(2)]) (rule ethernet_in_frame_shape)
  have "\<forall>f\<in>set (arp_pkts p). nd_netif f < length (ns_ifaces s1)"
    using assms(3) ethernet_sorts [OF 1] stack_kept_length [OF k1] by auto
  then have k2: "stack_kept s1 s2" using 2 arp_in_shape stack_kept_ok [OF k1] stack_kept_refl by metis
  then have k3: "stack_kept s2 s3" using 3 ipv4_in_shape stack_kept_ok stack_kept_refl by metis
  then have k4: "stack_kept s3 s'" using 4 ipv6_in_shape stack_kept_ok stack_kept_refl by metis
  note k1
  also note k2
  also note k3
  also note k4
  finally show ?thesis .
qed

text \<open>
  C16. The type of the state of the stack is preserved: whatever frames the entry node gets from interfaces of
  the kernel, when it returns the state is well formed, the nodes are the same, there are the same
  interfaces with the same addresses and receive queues, permanent entries of the tables are kept, and so
  are all IPv6 routes and all IPv4 routes to networks.
\<close>

theorem stack_keeps_shape:
  assumes "net_ok s" "\<forall>f\<in>set frames. nd_netif f < length (ns_ifaces s)" "ethernet_in heap frames s = Inr s'"
  shows "net_ok s' \<and> ns_nodes s' = ns_nodes s \<and>
    map vn_id (ns_ifaces s') = map vn_id (ns_ifaces s) \<and> map vn_macaddr (ns_ifaces s') = map vn_macaddr (ns_ifaces s) \<and>
    map vn_rxq (ns_ifaces s') = map vn_rxq (ns_ifaces s) \<and> adj_kept (ns_tables s) (ns_tables s') \<and>
    ipv6_fib_index (ns_tables s') = ipv6_fib_index (ns_tables s) \<and>
    (\<forall>p<32. ipv4_fib_index (ns_tables s') ! p = ipv4_fib_index (ns_tables s) ! p)"
  using ethernet_in_shape [OF assms(3,1,2)] unfolding stack_kept_def .

section \<open>Witness\<close>

text \<open>An ARP request that is sent to all stations goes through the stack.\<close>

definition broadcast_arp :: "u8 list" where
  "broadcast_arp = replicate 6 0xff @ drop 6 (sample_arp [192, 168, 0, 1])"

lemma broadcast_arp_handled: "\<exists>s'. ethernet_in sample_heap [sample_frame broadcast_arp] sample_state = Inr s'"
proof -
  let ?f = "sample_frame broadcast_arp"
  define s1 where "s1 = sample_state\<lparr>ns_tables := register_macaddress (mac_new (eth_src (take 14 broadcast_arp))) 0 False None sample_net_tables\<rparr>"
  have b: "length broadcast_arp = 42" "eth_dest (take 14 broadcast_arp) = [0xff, 0xff, 0xff, 0xff, 0xff, 0xff]"
    "eth_type (take 14 broadcast_arp) = [0x08, 0x06]" by code_simp+
  have nodes: "''arp-in'' \<in> set (ns_nodes s1)" and ifaces: "length (ns_ifaces s1) = 1" by (simp_all add: s1_def sample_state_def)
  have "ethernet_in sample_heap [?f] sample_state = arp_in_frame sample_heap ?f s1"
    using b nodes
    by (auto simp: ethernet_in_def ethernet_in_frame_def view_at_def proc_frame_def Let_def arp_in_def s1_def
        rfold_single rbind_unit simp del: rfold.simps)
  moreover have ok: "net_ok s1" using stack_kept_ok [OF learn_mac_kept [OF sample_net_ok(3)]] by (simp add: s1_def)
  moreover have "arp_in_frame sample_heap ?f s1 =
      arp_respond sample_heap (take 28 (drop 14 broadcast_arp)) (s1\<lparr>ns_tables := arp_learn 0 broadcast_arp (ns_tables s1)\<rparr>)"
    using arp_in_frame_learns [of ?f broadcast_arp s1] b(1) ok by (simp add: net_ok_def)
  moreover have "net_ok (s1\<lparr>ns_tables := arp_learn 0 broadcast_arp (ns_tables s1)\<rparr>)"
    using ok ifaces by (intro net_ok_arp_learn) simp_all
  from arp_respond_ok [OF this, of "take 28 (drop 14 broadcast_arp)" sample_heap] b(1)
  obtain s' where "arp_respond sample_heap (take 28 (drop 14 broadcast_arp)) (s1\<lparr>ns_tables := arp_learn 0 broadcast_arp (ns_tables s1)\<rparr>) = Inr s'"
    by auto
  ultimately show ?thesis by simp
qed

theorem stack_keeps_shape_witness:
  "\<exists>s'. ethernet_in sample_heap [sample_frame broadcast_arp] sample_state = Inr s' \<and> net_ok s' \<and>
     map vn_macaddr (ns_ifaces s') = [mac_new [2, 0, 0, 0, 0, 1]] \<and> ns_nodes s' = ns_nodes sample_state"
proof -
  obtain s' where s': "ethernet_in sample_heap [sample_frame broadcast_arp] sample_state = Inr s'"
    using broadcast_arp_handled by blast
  have "ns_ifaces sample_state = [sample_vnet 0]" "vn_macaddr (sample_vnet 0) = mac_new [2, 0, 0, 0, 0, 1]"
    by (simp_all add: sample_state_def sample_vnet_def)
  with stack_keeps_shape [OF sample_net_ok(3) _ s'] s' show ?thesis by simp
qed

end
