(* ===== verification/Transmit_Ring.thy ===== *)
theory Transmit_Ring
  imports Virt_Queue
begin

text \<open>
  The transmit queue.  The driver pushes frames into it and never pops them: a buffer stays in its slot until
  a later push replaces it (\<^verbatim>\<open>xmit\<close> of \<^verbatim>\<open>src/src/devices/virtio/net.rs\<close>).  What the device still has to
  send lies between its own index and the one of the driver.
\<close>

section \<open>The view of the device\<close>

text \<open>The queue as if every buffer the device is done with had been popped.\<close>

definition tx_view :: "virtqueue \<Rightarrow> virtqueue" where
  "tx_view q = q\<lparr>vq_last_used_idx := vq_used_idx q\<rparr>"

definition tx_inv :: "virtqueue \<Rightarrow> bool" where
  "tx_inv q \<longleftrightarrow> vq_inv (tx_view q)"

definition tx_frames :: "virtqueue \<Rightarrow> buffer list" where
  "tx_frames q = vq_items (tx_view q)"

definition tx_room :: "virtqueue \<Rightarrow> bool" where
  "tx_room q \<longleftrightarrow> unat (vq_avail_idx q - vq_used_idx q) < unat (vq_size q)"

text \<open>
  The device takes the next frame: it follows the available ring to a descriptor, reads the buffer that
  the descriptor belongs to and reports the descriptor as used.
\<close>

definition dev_fetch :: "virtqueue \<Rightarrow> (buffer list \<times> virtqueue) res" where
  "dev_fetch q =
     (if vq_used_idx q = vq_avail_idx q then Inr ([], q)
      else let d = vq_avail_ring q ! unat (vq_used_idx q AND (vq_size q - 1)) in
        case vq_buffers q ! unat d of
          Some b \<Rightarrow> Inr ([b], dev_complete (ucast d) [] q)
        | None \<Rightarrow> Inl Unsafe_OOB)"

lemma tx_view_fields [simp]:
  "vq_size (tx_view q) = vq_size q" "vq_avail_idx (tx_view q) = vq_avail_idx q" "vq_used_idx (tx_view q) = vq_used_idx q"
  "vq_last_used_idx (tx_view q) = vq_used_idx q" "vq_buffers (tx_view q) = vq_buffers q"
  "vq_descriptor (tx_view q) = vq_descriptor q" "vq_avail_ring (tx_view q) = vq_avail_ring q"
  "vq_used_ring (tx_view q) = vq_used_ring q" "vq_completed (tx_view q) = 0" "vq_wf (tx_view q) \<longleftrightarrow> vq_wf q"
  by (simp_all add: tx_view_def vq_completed_def vq_wf_def)

lemma tx_view_posted [simp]: "vq_posted (tx_view q) j \<longleftrightarrow> vq_posted q j"
  by (simp add: vq_posted_def split: option.split)

lemma tx_inv_wf: "tx_inv q \<Longrightarrow> vq_wf q"
  by (simp add: tx_inv_def vq_inv_def)

text \<open>Pushing does not look at what has been popped.\<close>

lemma tx_view_push: "tx_view (vq_after_push b g q) = vq_after_push b g (tx_view q)"
  by (simp add: tx_view_def vq_after_push_def Let_def)

lemma tx_push:
  assumes "tx_inv q" "tx_room q"
  shows "tx_inv (vq_after_push b g q) \<and> tx_frames (vq_after_push b g q) = tx_frames q @ [b]"
  using vq_push_refines [of "tx_view q" b g] assms
  by (simp add: tx_inv_def tx_frames_def tx_room_def tx_view_push vq_pending_def)

lemma tx_fetch:
  assumes "tx_inv q" "vq_used_idx q \<noteq> vq_avail_idx q"
  shows "\<exists>q'. dev_fetch q = Inr ([hd (tx_frames q)], q') \<and> tx_inv q' \<and> tx_frames q' = tl (tx_frames q)"
proof -
  let ?v = "tx_view q" and ?n = "vq_pending (tx_view q)"
  have inv: "vq_inv ?v" and wf: "vq_wf ?v" and le: "?n \<le> unat (vq_size q)" using assms(1) by (simp_all add: tx_inv_def vq_inv_def)
  have "vq_avail_idx q - vq_used_idx q \<noteq> 0" using assms(2) by simp
  then have n: "?n = Suc (unat (vq_avail_idx q - (vq_used_idx q + 1)))"
    using unat_minus_one [of "vq_avail_idx q - vq_used_idx q"] by (simp add: vq_pending_def diff_diff_eq unat_gt_0)
  let ?j = "vq_slot ?v 0"
  have j: "unat (vq_used_idx q AND (vq_size q - 1)) = ?j" using vq_last_used_slot [OF wf] by simp
  have "vq_posted q ?j" using inv n by (simp add: vq_inv_def)
  then obtain b where b: "vq_buffers q ! ?j = Some b" "vq_avail_ring q ! ?j = of_nat ?j"
    by (auto simp: vq_posted_def split: option.splits)
  have small: "?j < 32769" using vq_slot_less [OF wf, of 0] vq_size_bounds(2) [OF wf] by simp
  then have d: "unat (of_nat ?j :: u16) = ?j" "unat (ucast (of_nat ?j :: u16) :: u32) = ?j"
    using unat_of_nat_small [of ?j, where 'a = 16] by (simp_all add: unsigned_ucast_eq take_bit_nat_eq_self)
  define q' where "q' = dev_complete (ucast (of_nat ?j :: u16)) [] q"
  have buffers: "vq_buffers q' = vq_buffers q" using b(1) list_update_id [of "vq_buffers q" ?j] by (simp add: q'_def dev_complete_def d)
  have pend: "vq_pending (tx_view q') = ?n - 1" using n by (simp add: vq_pending_def q'_def)
  have slot: "vq_slot (tx_view q') i = vq_slot ?v (Suc i)" for i
    using vq_index_add [OF wf, of "vq_used_idx q" 1] by (simp add: vq_slot_def q'_def) (metis add_Suc mod_add_left_eq)
  have "vq_posted q' i = vq_posted q i" for i by (simp add: vq_posted_def buffers split: option.split) (simp add: q'_def)
  then have "tx_inv q'" using inv wf le n by (auto simp: tx_inv_def vq_inv_def pend slot) (simp add: q'_def)+
  moreover have "tx_frames q' = tl (tx_frames q)"
    by (intro nth_equalityI) (simp_all add: tx_frames_def vq_items_def pend slot nth_tl buffers)
  moreover have "hd (tx_frames q) = b" using n b(1) by (simp add: tx_frames_def vq_items_def upt_conv_Cons del: upt_Suc)
  moreover have "dev_fetch q = Inr ([b], q')" using assms(2) b d by (simp add: dev_fetch_def j q'_def)
  ultimately show ?thesis by simp
qed

text \<open>The transmit queue is a transfer ring between the driver, which puts frames in, and the device, which takes them.\<close>

interpretation txring: transfer_ring tx_inv tx_frames "\<lambda>q. if vq_used_idx q = vq_avail_idx q then 0 else 1" tx_room
    "\<lambda>b. vq_push b True" "\<lambda>_ :: unit. id" dev_fetch id
proof (unfold_locales, goal_cases)
  case (1 q b)
  then show ?case using tx_push [of q b True] by (simp add: vq_push_ok [OF tx_inv_wf])
next
  case (2 q d)
  then show ?case by simp
next
  case (3 q)
  show ?case
  proof (cases "vq_used_idx q = vq_avail_idx q")
    case True
    with 3 show ?thesis by (simp add: dev_fetch_def)
  next
    case False
    have "tx_frames q \<noteq> []"
      using False by (simp add: tx_frames_def vq_items_def vq_pending_def unat_eq_zero)
    then have "take 1 (tx_frames q) = [hd (tx_frames q)]" by (simp add: take_Suc)
    with tx_fetch [OF 3 False] False show ?thesis by (simp add: drop_Suc)
  qed
qed

section \<open>Properties\<close>

text \<open>
  C17. The transmit path never runs out.  Although the driver never takes frames out of the transmit queue, in
  every run in which it pushes only while the device has not the whole queue to send, and in which the
  device takes frames, no push panics, and what the device has taken followed by what it still has to send is
  exactly what it had to send before followed by what was pushed, in this order and with these
  contents, however often the queue is filled and across the wrap-around of the 16-bit indices.
\<close>

theorem transmit_fifo:
  assumes "tx_inv q"
    and "ring_run tx_room (\<lambda>q. (if vq_used_idx q = vq_avail_idx q then 0 else 1) < length (tx_frames q))
           (\<lambda>b. vq_push b True) (\<lambda>_ :: unit. id) dev_fetch ops q = Some r"
  shows "\<exists>outs q'. r = Inr (outs, q') \<and> tx_inv q' \<and> outs @ tx_frames q' = tx_frames q @ ring_puts ops"
  using txring.run_conserves [OF assms] by simp

lemma sample_queue_tx: "tx_inv sample_queue" "tx_frames sample_queue = []" "tx_room sample_queue"
  by code_simp+

text \<open>A queue of two entries takes three frames, the first of which the device has fetched before the last is pushed.\<close>

theorem transmit_fifo_witness:
  "tx_inv sample_queue \<and>
   (\<exists>outs q'. ring_run tx_room (\<lambda>q. (if vq_used_idx q = vq_avail_idx q then 0 else 1) < length (tx_frames q))
       (\<lambda>b. vq_push b True) (\<lambda>_ :: unit. id) dev_fetch
       [Put (sample_buffer 256), Put (sample_buffer 512), Take, Put (sample_buffer 768), Take] sample_queue = Some (Inr (outs, q')) \<and>
     outs @ tx_frames q' = [sample_buffer 256, sample_buffer 512, sample_buffer 768])"
proof -
  let ?run = "\<lambda>ops. ring_run tx_room (\<lambda>q. (if vq_used_idx q = vq_avail_idx q then 0 else 1) < length (tx_frames q))
       (\<lambda>b. vq_push b True) (\<lambda>_ :: unit. id) dev_fetch ops sample_queue"
  let ?ops = "[Put (sample_buffer 256), Put (sample_buffer 512), Take, Put (sample_buffer 768), Take]"
  have "?run ?ops \<noteq> None" by code_simp
  then obtain r where r: "?run ?ops = Some r" by blast
  from transmit_fifo [OF sample_queue_tx(1) r] sample_queue_tx r show ?thesis by auto
qed

end
