(* ===== verification/Echo_Service.thy ===== *)
theory Echo_Service
  imports Kernel_Laws Stack_Shape Transmit_Ring
begin

text \<open>
  The parts of the kernel together: a packet that a device has put into the receive queue of an interface,
  the interrupt, the nodes of the stack, and the reply in the transmit queue.
\<close>

section \<open>A packet for the kernel\<close>

lemma own_entry_learn:
  "own_entry (mac_addr_table t key) \<Longrightarrow> mac_addr_table (register_macaddress m k False None t) key = mac_addr_table t key"
  by (auto simp: own_entry_def register_macaddress_def split: option.split)

lemma register_macaddress_other [simp]:
  "ipv4_fib_index (register_macaddress m k l x t) = ipv4_fib_index t"
  "ipv6_fib_index (register_macaddress m k l x t) = ipv6_fib_index t"
  "ipv4_adjacent (register_macaddress m k l x t) = ipv4_adjacent t"
  "ipv6_adjacent (register_macaddress m k l x t) = ipv6_adjacent t"
  by (simp_all add: register_macaddress_def split: option.split)

lemma ethernet_in_ipv4:
  assumes "buffer_slice (nd_buffer f) = Inr sl" "14 \<le> length sl" "take 2 (drop 12 sl) = [0x08, 0x00]"
    and "own_entry (mac_addr_table (ns_tables s) (mac_prim (mac_new (take 6 sl))))" "''ipv4-in'' \<in> set (ns_nodes s)"
  shows "ethernet_in heap [f] s = ipv4_in heap [f] (s\<lparr>ns_tables := learn_frame f (ns_tables s)\<rparr>)"
proof -
  let ?t = "register_macaddress (mac_new (take 6 (drop 6 sl))) (nd_netif f) False None (ns_tables s)"
  have fields: "eth_dest (take 14 sl) = take 6 sl" "eth_src (take 14 sl) = take 6 (drop 6 sl)" "eth_type (take 14 sl) = [0x08, 0x00]"
    using assms(3) by (simp_all add: eth_dest_def eth_src_def eth_type_def drop_take min_def)
  have "own_entry (mac_addr_table ?t (mac_prim (mac_new (take 6 sl))))"
    using assms(4) own_entry_learn [OF assms(4)] by simp
  then obtain adj where "mac_addr_table ?t (mac_prim (mac_new (take 6 sl))) = Some adj" "adj_is_local adj"
    by (auto simp: own_entry_def)
  moreover have "sl \<noteq> []" using assms(2) by auto
  ultimately show ?thesis
    using assms(1,2,5)
    by (simp add: rbind_unit ethernet_in_def ethernet_in_frame_def view_at_def fields proc_frame_def learn_frame_def Let_def)
qed

lemma ipv4_in_single:
  assumes "local_icmp4 (ns_tables s) f" "''icmpv4-in-local'' \<in> set (ns_nodes s)"
  shows "ipv4_in heap [f] s = icmpv4_in_frame heap f s"
  using ipv4_in_frame_local [OF assms, of heap "[]"]
  by (cases "icmpv4_in_frame heap f s") (simp_all add: ipv4_in_def icmpv4_in_local_def)

text \<open>A frame that asks the interface \<open>v\<close> with the address \<open>ip\<close> for an echo.\<close>

definition echo_for :: "virtio_net \<Rightarrow> ipv4_address \<Rightarrow> u8 list \<Rightarrow> bool" where
  "echo_for v ip req \<longleftrightarrow> echo_request4 req \<and> mac_new (take 6 req) = vn_macaddr v \<and> take 2 (drop 12 req) = [0x08, 0x00] \<and>
     req ! 14 AND 0xf0 = 0x40 \<and> req ! 23 = 0x01 \<and> ipv4_from_array (take 4 (drop 30 req)) = ip"

lemma echo_reaches_icmp:
  assumes "buffer_slice (nd_buffer f) = Inr req" "echo_for v ip req"
    and "own_entry (mac_addr_table (ns_tables s) (mac_prim (vn_macaddr v)))"
    and "find_ipv4_fib (ns_tables s) ip 0xffffffff = Inr (Some fib)" "fib4_fib_type fib = Local"
    and "{''ipv4-in'', ''icmpv4-in-local''} \<subseteq> set (ns_nodes s)"
  shows "ethernet_in heap [f] s = icmpv4_in_frame heap f (s\<lparr>ns_tables := learn_frame f (ns_tables s)\<rparr>)"
proof -
  let ?s = "s\<lparr>ns_tables := learn_frame f (ns_tables s)\<rparr>"
  have len: "34 \<le> length req" using assms(2) by (auto simp: echo_for_def echo_request4_def Let_def)
  have "find_ipv4_fib (learn_frame f (ns_tables s)) ip 0xffffffff = Inr (Some fib)"
    using assms(1,4) by (simp add: learn_frame_def find_ipv4_fib_def)
  then have "local_icmp4 (ns_tables ?s) f"
    using assms(1,2,5) len by (auto simp: local_icmp4_def echo_for_def)
  then have "ipv4_in heap [f] ?s = icmpv4_in_frame heap f ?s" using assms(6) by (intro ipv4_in_single) simp_all
  moreover have "ethernet_in heap [f] s = ipv4_in heap [f] ?s"
    using assms len by (intro ethernet_in_ipv4) (auto simp: echo_for_def)
  ultimately show ?thesis by simp
qed

section \<open>From the receive queue to the transmit queue\<close>

lemma vnet_interrupt_handler_frames:
  assumes "k < length (ns_ifaces s)" "vn_id (ns_ifaces s ! k) = k" "''ethernet-in'' \<in> set (ns_nodes s)"
    and "vnet_interrupt_rx heap D (ns_ifaces s ! k) (ns_allocs s) = Inr (Some bs, (ns_ifaces s ! k)\<lparr>vn_virtio := dev, vn_rxq := q\<rparr>, n)"
  shows "vnet_interrupt_handler heap D k s = ethernet_in heap (map (\<lambda>b. \<lparr>nd_netif = k, nd_buffer = b\<rparr>) bs)
    (s\<lparr>ns_ifaces := (ns_ifaces s)[k := (ns_ifaces s ! k)\<lparr>vn_virtio := dev, vn_rxq := q\<rparr>], ns_allocs := n\<rparr>)"
  using assms by (simp add: vnet_interrupt_handler_def get_at_ok Let_def)

text \<open>What the device writes is in the buffer that it completes.\<close>

lemma dev_complete_next_items:
  assumes "vq_inv q" "vq_completed q < vq_pending q"
  defines "b \<equiv> vq_items q ! vq_completed q"
  shows "vq_items (dev_complete_next bs q) = (vq_items q)[vq_completed q := b\<lparr>buf_mem := bs @ drop (length bs) (buf_mem b)\<rparr>]"
proof -
  let ?c = "vq_completed q" and ?n = "vq_pending q"
  have wf: "vq_wf q" and pend: "?n \<le> unat (vq_size q)" using assms(1) by (simp_all add: vq_inv_def)
  have d: "unat (of_nat (vq_slot q ?c) :: u32) = vq_slot q ?c"
    using vq_size_bounds(2) [OF wf] vq_slot_less [OF wf, of ?c] by (intro unat_of_nat_small) simp
  have len: "vq_slot q ?c < length (vq_buffers q)" using vq_slot_less [OF wf] vq_wf_lengths(4) [OF wf] by simp
  have old: "vq_buffers q ! vq_slot q ?c = Some b"
    using assms(1,2) by (auto simp: vq_inv_def vq_posted_def b_def vq_items_def split: option.splits)
  have new: "vq_buffers (dev_complete_next bs q) = (vq_buffers q)[vq_slot q ?c := Some (b\<lparr>buf_mem := bs @ drop (length bs) (buf_mem b)\<rparr>)]"
    "vq_slot (dev_complete_next bs q) = vq_slot q" "vq_pending (dev_complete_next bs q) = ?n"
    by (simp_all add: dev_complete_next_def) (simp add: dev_complete_def d old)
  have "vq_items (dev_complete_next bs q) ! i = (vq_items q)[?c := b\<lparr>buf_mem := bs @ drop (length bs) (buf_mem b)\<rparr>] ! i"
    if "i < ?n" for i
  proof (cases "i = ?c")
    case True
    then show ?thesis using that len by (simp add: vq_items_def new)
  next
    case False
    then have "vq_slot q ?c \<noteq> vq_slot q i"
      using vq_slot_inj [of q i ?c] vq_slot_inj [of q ?c i] that assms(2) pend by (metis nat_neq_iff less_le_trans)
    with False that show ?thesis by (simp add: vq_items_def new)
  qed
  then show ?thesis by (intro nth_equalityI) (simp_all add: new)
qed

text \<open>One completed buffer in the receive queue, with the bytes \<open>req\<close> behind the header of the device.\<close>

definition received :: "mmio_device \<Rightarrow> virtio_net \<Rightarrow> u8 list \<Rightarrow> bool" where
  "received D v req \<longleftrightarrow> vq_inv (vn_rxq v) \<and> vq_used_idx (vn_rxq v) \<le> vq_avail_idx (vn_rxq v) \<and>
     vq_completed (vn_rxq v) = 1 \<and> used_signalled D v \<and>
     buffer_slice (buffer_slide_position 12 (vq_items (vn_rxq v) ! 0)) = Inr req"

lemma received_delivers:
  assumes "received D v req"
  shows "\<exists>dev q n' b. vnet_interrupt_rx heap D v n = Inr (Some [b], v\<lparr>vn_virtio := dev, vn_rxq := q\<rparr>, n') \<and>
    buffer_slice b = Inr req"
proof -
  let ?q = "vn_rxq v"
  have q: "vq_inv ?q" "vq_used_idx ?q \<le> vq_avail_idx ?q" "vq_completed ?q = 1" "used_signalled D v"
    "buffer_slice (buffer_slide_position 12 (vq_items ?q ! 0)) = Inr req" using assms by (auto simp: received_def)
  have "1 \<le> vq_pending ?q" "vq_pending ?q \<le> unat (vq_size ?q)" using q(1,3) by (simp_all add: vq_inv_def)
  then have f: "0 < unat (vq_size ?q) - (vq_pending ?q - vq_completed ?q)" "0 < length (vq_items ?q)" using q(3) by simp_all
  have "vq_completed ?q \<le> 1 \<or> unat (vq_size ?q) - (vq_pending ?q - vq_completed ?q) \<le> 33" using q(3) by simp
  from interrupt_rx_delivers [OF q(1,2,4) refl f(1) this, of heap n] f(2) q(3,5) show ?thesis
    by (auto simp: take_Suc_conv_app_nth)
qed

lemma interface_up_learn:
  assumes "interface_up k i ip irq" "k_handlers k' = k_handlers k"
    and "ns_tables (k_net k') = register_macaddress m j False None (ns_tables (k_net k))"
    and "length (ns_ifaces (k_net k')) = length (ns_ifaces (k_net k))"
    and "vn_id (ns_ifaces (k_net k') ! i) = vn_id (ns_ifaces (k_net k) ! i)"
    and "vn_macaddr (ns_ifaces (k_net k') ! i) = vn_macaddr (ns_ifaces (k_net k) ! i)"
  shows "interface_up k' i ip irq"
  using assms by (auto simp: interface_up_def Let_def own_entry_learn find_ipv4_fib_def find_ipv6_fib_def route4_def)

text \<open>
  C11. A ping is answered.  An interface is up, with a line below 208 and the nodes registered, its device has completed exactly one buffer of the receive queue,
  which holds an echo request for the address of the interface with a header of 20 bytes and an even number of
  bytes, and signals its interrupt; the available index of the receive queue has not wrapped past the used
  index, and the device has not the whole transmit queue to send.  Then the interrupt with the vector of the
  interface returns, exactly one frame has been added to what the device has to send on that interface, the frame
  is a correct echo reply, with the checksum over all its bytes, no other interface has changed, and the interface is still up.
\<close>

theorem ping_answered:
  assumes "interface_up k i ip irq" "unat irq < 208" "length (k_handlers k) = 256" "length (mc_pv_eoi (k_machine k)) = 256"
    and "{''ethernet-in'', ''ipv4-in'', ''icmpv4-in-local''} \<subseteq> set (ns_nodes (k_net k))"
    and "v = ns_ifaces (k_net k) ! i" "received (en_devices E i) v req" "echo_for v ip req"
    and "iface_ok v" "tx_inv (vn_txq v)" "tx_room (vn_txq v)" "even (be16 (req ! 16) (req ! 17))"
  shows "\<exists>k' b r. interrupt_handler E (48 + irq) k = Some (Inr k') \<and>
    tx_inv (vn_txq (ns_ifaces (k_net k') ! i)) \<and> tx_frames (vn_txq (ns_ifaces (k_net k') ! i)) = tx_frames (vn_txq v) @ [b] \<and>
    buf_position b = 12 \<and> buf_mem b = replicate 12 0 @ r \<and> echo_reply4 (vn_macaddr v) req r \<and>
    interface_up k' i ip irq \<and> (\<forall>j. j \<noteq> i \<longrightarrow> ns_ifaces (k_net k') ! j = ns_ifaces (k_net k) ! j)"
proof -
  let ?s = "k_net k"
  have up: "i < length (ns_ifaces ?s)" "vn_id v = i" "k_handlers k ! unat irq = Some (Virtio_Net i irq)"
    "own_entry (mac_addr_table (ns_tables ?s) (mac_prim (vn_macaddr v)))"
    "find_ipv4_fib (ns_tables ?s) ip 0xffffffff = Inr (Some (mk_fib4 (vn_macaddr v) ip i Local))"
    using assms(1,6) by (auto simp: interface_up_def Let_def net_mac_keys_def)
  obtain dev q n b0 where rx: "vnet_interrupt_rx (en_heap E) (en_devices E i) v (ns_allocs ?s) =
      Inr (Some [b0], v\<lparr>vn_virtio := dev, vn_rxq := q\<rparr>, n)" "buffer_slice b0 = Inr req"
    using received_delivers [OF assms(7)] by blast
  define f where "f = \<lparr>nd_netif = i, nd_buffer = b0\<rparr>"
  define s1 where "s1 = ?s\<lparr>ns_ifaces := (ns_ifaces ?s)[i := v\<lparr>vn_virtio := dev, vn_rxq := q\<rparr>], ns_allocs := n\<rparr>"
  define s2 where "s2 = s1\<lparr>ns_tables := learn_frame f (ns_tables ?s)\<rparr>"
  have "vnet_interrupt_handler (en_heap E) (en_devices E i) i ?s = ethernet_in (en_heap E) [f] s1"
    using vnet_interrupt_handler_frames [of i ?s] up rx(1) assms(5,6) by (simp add: f_def s1_def)
  also have "\<dots> = icmpv4_in_frame (en_heap E) f s2"
    using echo_reaches_icmp [of f req v ip s1] rx(2) assms(5,8) up(4,5) by (simp add: s2_def s1_def f_def mk_fib4_def)
  also obtain b r where b: "icmpv4_in_frame (en_heap E) f s2 =
      Inr (s2\<lparr>ns_allocs := Suc n, ns_ifaces := (ns_ifaces s1)[i := vnet_sent b (ns_ifaces s1 ! i)]\<rparr>)"
      "buf_position b = 12" "buf_mem b = replicate 12 0 @ r" "echo_answer4 (vn_macaddr v) req r"
    using icmpv4_echo_sent [of f req s2 "en_heap E"] rx(2) assms(8,9) up(1)
    by (auto simp: s2_def s1_def f_def echo_for_def iface_ok_def)
  note b(1)
  finally have net: "vnet_interrupt_handler (en_heap E) (en_devices E i) i ?s =
      Inr (s2\<lparr>ns_allocs := Suc n, ns_ifaces := (ns_ifaces s1)[i := vnet_sent b (ns_ifaces s1 ! i)]\<rparr>)" .
  obtain m where m: "interrupt_handler E (48 + irq) k = handle_interrupt E (Virtio_Net i irq) (k\<lparr>k_machine := m\<rparr>)"
    using interrupt_runs_handler [OF assms(3,4,2) up(3)] by blast
  define k' where "k' = k\<lparr>k_machine := m, k_net := s2\<lparr>ns_allocs := Suc n, ns_ifaces := (ns_ifaces s1)[i := vnet_sent b (ns_ifaces s1 ! i)]\<rparr>\<rparr>"
  have "interrupt_handler E (48 + irq) k = Some (Inr k')"
    using m net up(1,2) assms(6) by (simp add: get_at_ok k'_def)
  moreover have ifaces: "ns_ifaces (k_net k') = (ns_ifaces ?s)[i := vnet_sent b (v\<lparr>vn_virtio := dev, vn_rxq := q\<rparr>)]"
    using up(1) by (simp add: k'_def s1_def)
  moreover have "tx_inv (vn_txq (ns_ifaces (k_net k') ! i))" "tx_frames (vn_txq (ns_ifaces (k_net k') ! i)) = tx_frames (vn_txq v) @ [b]"
    using tx_push [OF assms(10,11)] up(1) by (simp_all add: ifaces)
  moreover have "interface_up k' i ip irq"
    using rx(2) up(1) assms(6)
    by (intro interface_up_learn [OF assms(1)]) (auto simp: k'_def s2_def s1_def f_def learn_frame_def)
  moreover have "echo_reply4 (vn_macaddr v) req r" using echo_answer4_even [OF b(4) _ assms(12)] echo_request4_length [of req] assms(8)
    by (simp add: echo_for_def)
  ultimately show ?thesis using b(2,3) by auto
qed


section \<open>Witness\<close>

text \<open>A kernel with two interfaces; the device of the first one has delivered an echo request.\<close>

definition ping_buffer :: buffer where
  "ping_buffer = \<lparr>buf_ptr = 256, buf_size = 54, buf_position = 0, buf_mem = replicate 54 0\<rparr>"

definition ping_queue :: virtqueue where
  "ping_queue = dev_complete_next (replicate 12 0 @ sample_echo 28) (vq_after_push ping_buffer False sample_queue64)"

definition ping_vnet :: virtio_net where
  "ping_vnet = (sample_vnet 0)\<lparr>vn_rxq := ping_queue\<rparr>"

definition ping_kernel :: "nat ring kernel" where
  "ping_kernel = \<lparr>k_machine = machine_new,
     k_handlers = irq_handlers_new[5 := Some (Virtio_Net 0 5), 6 := Some (Virtio_Net 1 6)],
     k_net = \<lparr>ns_tables = both_claimed (vn_macaddr ping_vnet) sample_ip (vn_macaddr ping_vnet) (Ipv4Address 0xC0A80A0A),
       ns_ifaces = [ping_vnet, ping_vnet\<lparr>vn_id := 1\<rparr>],
       ns_nodes = [''ethernet-in'', ''ipv4-in'', ''icmpv4-in-local''], ns_allocs = 0\<rparr>,
     k_async = executor_new ring_new ring_new\<rparr>"

lemma ping_queue_received: "received sample_device ping_vnet (sample_echo 28)"
proof -
  note s = sample_queue64_fields
  let ?q = "vq_after_push ping_buffer False sample_queue64"
  have fields: "vq_completed ?q = 0" "vq_avail_idx ?q = 1" "vq_used_idx ?q = 0"
    using s by (simp_all add: vq_after_push_def Let_def vq_completed_def)
  have q: "vq_inv ?q" "vq_items ?q = [ping_buffer]" "vq_pending ?q = 1"
    using vq_push_refines [OF s(1)] vq_pending_after_push [of sample_queue64] s by (auto simp: vq_items_def [of sample_queue64])
  note q = this fields
  have "length (sample_echo 28) = 42" by code_simp
  then have "buffer_slice (buffer_slide_position 12 (vq_items ping_queue ! 0)) = Inr (sample_echo 28)"
    unfolding ping_queue_def using dev_complete_next_items [OF q(1), of "replicate 12 0 @ sample_echo 28"] q
    by (simp add: ping_buffer_def buffer_slice_def buffer_slide_position_def)
  moreover have "vq_used_idx ping_queue = 1" "vq_avail_idx ping_queue = 1"
    using q by (simp_all add: ping_queue_def dev_complete_next_def)
  moreover have "vq_inv ping_queue" "vq_completed ping_queue = 1"
    unfolding ping_queue_def using dev_complete_next_refines [OF q(1)] q by simp_all
  moreover have "used_signalled sample_device ping_vnet"
    by (simp add: used_signalled_def ping_vnet_def sample_vnet_def sample_mmio_def sample_device_def emulated_device_def)
  ultimately show ?thesis by (simp add: received_def ping_vnet_def)
qed

theorem ping_answered_witness:
  "\<exists>k' b r. interrupt_handler (sample_environment\<lparr>en_devices := \<lambda>_. sample_device\<rparr>) 53 ping_kernel = Some (Inr k') \<and>
     tx_frames (vn_txq (ns_ifaces (k_net k') ! 0)) = [b] \<and>
     buf_mem b = replicate 12 0 @ r \<and> echo_reply4 (mac_new [2, 0, 0, 0, 0, 1]) (sample_echo 28) r"
proof -
  let ?E = "sample_environment\<lparr>en_devices := \<lambda>_. sample_device\<rparr>"
  have net: "ns_ifaces (k_net ping_kernel) = [ping_vnet, ping_vnet\<lparr>vn_id := 1\<rparr>]"
    "ns_tables (k_net ping_kernel) =
      both_claimed (vn_macaddr ping_vnet) sample_ip (vn_macaddr (ping_vnet\<lparr>vn_id := 1\<rparr>)) (Ipv4Address 0xC0A80A0A)"
    by (simp_all add: ping_kernel_def)
  have nets: "ipv4_masked sample_ip 24 \<noteq> ipv4_masked (Ipv4Address 0xC0A80A0A) 24" by code_simp
  have v: "vn_id ping_vnet = 0" "vn_txq ping_vnet = sample_queue" "vn_macaddr ping_vnet = mac_new [2, 0, 0, 0, 0, 1]"
    "iface_ok ping_vnet"
    using sample_iface(3) by (simp_all add: ping_vnet_def sample_vnet_def iface_ok_def)
  have up: "interface_up ping_kernel 0 sample_ip 5"
    by (rule both_up(1) [OF nets net(2,1) v(1), of 5 6]) (simp_all add: ping_kernel_def irq_handlers_new_def)
  have e: "echo_for ping_vnet sample_ip (sample_echo 28)"
    unfolding echo_for_def v by code_simp
  have even: "even (be16 (sample_echo 28 ! 16) (sample_echo 28 ! 17))" by code_simp
  show ?thesis
    using ping_answered [OF up, of ping_vnet ?E "sample_echo 28"] ping_queue_received e even v sample_queue_tx
    by (auto simp: ping_kernel_def irq_handlers_new_def machine_new_def sample_environment_def)
qed

end
