(* ===== verification/Kernel_Run.thy ===== *)
theory Kernel_Run
  imports Echo_Service
begin

text \<open>
  The running kernel as a transition system: interrupts of any vector with any behaviour of the devices and
  of the hardware, iterations of the main loop, and devices that complete buffers of the queues, in any
  order.  Interrupts come between iterations of the main loop, which runs the tasks with interrupts
  disabled.  What the start of the kernel has
  established is shown to last.
\<close>

section \<open>Steps\<close>

definition with_iface :: "nat \<Rightarrow> (virtio_net \<Rightarrow> virtio_net) \<Rightarrow> 'q kernel \<Rightarrow> 'q kernel" where
  "with_iface i f k = k\<lparr>k_net := (k_net k)\<lparr>ns_ifaces := (ns_ifaces (k_net k))[i := f (ns_ifaces (k_net k) ! i)]\<rparr>\<rparr>"

inductive kernel_step :: "'q queue_ops \<Rightarrow> clock_source \<Rightarrow> 'q kernel \<Rightarrow> 'q kernel \<Rightarrow> bool" for Q C
where
  interrupt: "en_queue E = Q \<Longrightarrow> en_clock E = C \<Longrightarrow> interrupt_handler E vec k = Some (Inr k') \<Longrightarrow> kernel_step Q C k k'"
| iteration: "main_iteration Q C k = Some (Inr k') \<Longrightarrow> kernel_step Q C k k'"
| receive: "i < length (ns_ifaces (k_net k)) \<Longrightarrow>
    kernel_step Q C k (with_iface i (\<lambda>v. v\<lparr>vn_rxq := dev_complete d bytes (vn_rxq v)\<rparr>) k)"
| transmit: "i < length (ns_ifaces (k_net k)) \<Longrightarrow>
    kernel_step Q C k (with_iface i (\<lambda>v. v\<lparr>vn_txq := dev_complete d [] (vn_txq v)\<rparr>) k)"

section \<open>What every step keeps\<close>

definition net_kept :: "net_state \<Rightarrow> net_state \<Rightarrow> bool" where
  "net_kept s s' \<longleftrightarrow> net_ok s' \<and> ns_nodes s' = ns_nodes s \<and>
     map vn_id (ns_ifaces s') = map vn_id (ns_ifaces s) \<and> map vn_macaddr (ns_ifaces s') = map vn_macaddr (ns_ifaces s) \<and>
     adj_kept (ns_tables s) (ns_tables s') \<and> ipv6_fib_index (ns_tables s') = ipv6_fib_index (ns_tables s) \<and>
     (\<forall>p<32. ipv4_fib_index (ns_tables s') ! p = ipv4_fib_index (ns_tables s) ! p)"

lemma net_kept_refl: "net_ok s \<Longrightarrow> net_kept s s"
  by (simp add: net_kept_def)

lemma net_kept_trans: "net_kept s s' \<Longrightarrow> net_kept s' s'' \<Longrightarrow> net_kept s s''"
  by (auto simp: net_kept_def intro: adj_kept_trans)

lemma stack_kept_net: "stack_kept s s' \<Longrightarrow> net_kept s s'"
  by (simp add: stack_kept_def net_kept_def)

lemma net_kept_length: "net_kept s s' \<Longrightarrow> length (ns_ifaces s') = length (ns_ifaces s)"
  unfolding net_kept_def by (metis length_map)

lemma net_kept_iface:
  assumes "net_ok s" "i < length (ns_ifaces s)" "iface_ok v" "vn_id v = vn_id (ns_ifaces s ! i)"
    "vn_macaddr v = vn_macaddr (ns_ifaces s ! i)"
  shows "net_kept s (s\<lparr>ns_ifaces := (ns_ifaces s)[i := v], ns_allocs := n\<rparr>)"
  using assms set_update_subset_insert [of "ns_ifaces s" i v]
  by (auto simp: net_kept_def net_ok_def map_update list_update_same_conv)

text \<open>The interrupt handler of the driver leaves the addresses and the transmit queue of the interface alone.\<close>

lemma vnet_interrupt_rx_changes:
  "vnet_interrupt_rx heap D v n = Inr (rx, v', n') \<Longrightarrow> vn_id v' = vn_id v \<and> vn_macaddr v' = vn_macaddr v \<and> vn_txq v' = vn_txq v"
  by (auto simp: vnet_interrupt_rx_def fill_rx_queue_def Let_def rbind_eq_Inr split: if_splits prod.splits)

lemma vnet_interrupt_handler_kept:
  assumes "vnet_interrupt_handler heap D i s = Inr s'" "net_ok s"
  shows "net_kept s s'"
proof -
  let ?v = "ns_ifaces s ! i"
  obtain rx v n where i: "i < length (ns_ifaces s)" and rx: "vnet_interrupt_rx heap D ?v (ns_allocs s) = Inr (rx, v, n)"
    using assms(1) by (auto simp: vnet_interrupt_handler_def rbind_eq_Inr get_at_eq_Inr)
  define s1 where "s1 = s\<lparr>ns_ifaces := (ns_ifaces s)[i := v], ns_allocs := n\<rparr>"
  note v = vnet_interrupt_rx_changes [OF rx]
  have "iface_ok v" using v assms(2) i by (simp add: net_ok_def iface_ok_def)
  then have k1: "net_kept s s1" unfolding s1_def using v by (intro net_kept_iface [OF assms(2) i]) simp_all
  then have ok: "net_ok s1" by (simp add: net_kept_def)
  have "s' = s1 \<or> (\<exists>bs. vn_id v < length (ns_ifaces s1) \<and>
      ethernet_in heap (map (\<lambda>b. \<lparr>nd_netif = vn_id v, nd_buffer = b\<rparr>) bs) s1 = Inr s')"
    using assms(1) i rx by (auto simp: vnet_interrupt_handler_def get_at_ok s1_def Let_def split: option.splits if_splits)
  then have "net_kept s1 s'"
    using net_kept_refl [OF ok] ethernet_in_shape [OF _ ok] by (auto intro: stack_kept_net)
  with k1 show ?thesis by (rule net_kept_trans)
qed

text \<open>
  The same for the kernel: beside the state of the network also the handlers, the descriptor table and the
  number of flags for the end of an interrupt.
\<close>

definition kernel_kept :: "'q kernel \<Rightarrow> 'q kernel \<Rightarrow> bool" where
  "kernel_kept k k' \<longleftrightarrow> net_kept (k_net k) (k_net k') \<and> k_handlers k' = k_handlers k \<and>
     mc_idt (k_machine k') = mc_idt (k_machine k) \<and> length (mc_pv_eoi (k_machine k')) = length (mc_pv_eoi (k_machine k))"

lemma kernel_kept_refl: "net_ok (k_net k) \<Longrightarrow> kernel_kept k k"
  by (simp add: kernel_kept_def net_kept_refl)

lemma kernel_kept_trans: "kernel_kept k k' \<Longrightarrow> kernel_kept k' k'' \<Longrightarrow> kernel_kept k k''"
  by (auto simp: kernel_kept_def intro: net_kept_trans)

lemma kernel_kept_ok: "kernel_kept k k' \<Longrightarrow> net_ok (k_net k')"
  by (simp add: kernel_kept_def net_kept_def)

lemma handle_interrupt_kept:
  assumes "handle_interrupt E h k = Some (Inr k')" "net_ok (k_net k)"
  shows "net_kept (k_net k) (k_net k') \<and> k_handlers k' = k_handlers k \<and> k_machine k' = k_machine k \<and>
    (k_async k' = k_async k \<or> check_timerfutures (en_queue E) (en_clock E) (k_async k) = Some (Inr (k_async k')))"
proof (cases h)
  case Timer
  with assms show ?thesis by (auto simp: rbind_eq_Inr net_kept_refl)
next
  case (Virtio_Net r irq)
  with assms show ?thesis by (auto simp: rbind_eq_Inr dest: vnet_interrupt_handler_kept)
qed

lemma interrupt_handler_kept:
  assumes "interrupt_handler E vec k = Some (Inr k')" "net_ok (k_net k)"
  shows "kernel_kept k k' \<and>
    (k_async k' = k_async k \<or> check_timerfutures (en_queue E) (en_clock E) (k_async k) = Some (Inr (k_async k')))"
proof (cases "vec \<ge> 48")
  case False
  with assms show ?thesis by (auto simp: interrupt_handler_def kernel_kept_refl split: if_splits)
next
  case True
  then have "irq_handler E (vec - 48) k = Some (Inr k')" using assms(1) by (auto simp: interrupt_handler_def split: if_splits)
  then obtain m where m: "ack_irq (en_hardware E) (k_machine k) = Inr m"
      "k' = k\<lparr>k_machine := on_io disable_interrupt m\<rparr> \<or>
       (\<exists>x. handle_interrupt E x (k\<lparr>k_machine := on_io disable_interrupt m\<rparr>) = Some (Inr k'))"
    by (auto simp: irq_handler_def Let_def split: sum.splits option.splits)
  have "mc_idt m = mc_idt (k_machine k)" "length (mc_pv_eoi m) = length (mc_pv_eoi (k_machine k))"
    using ack_irq_keeps [OF m(1)] by simp_all
  with m(2) show ?thesis
    using net_kept_refl [OF assms(2)] handle_interrupt_kept [of E _ "k\<lparr>k_machine := on_io disable_interrupt m\<rparr>" k'] assms(2)
    by (auto simp: kernel_kept_def)
qed

lemma main_iteration_kept:
  assumes "main_iteration Q C k = Some (Inr k')" "net_ok (k_net k)"
  shows "kernel_kept k k' \<and> run_tasks Q C (k_async k) = Some (Inr (k_async k'))"
  using assms by (auto simp: main_iteration_def Let_def rbind_eq_Inr kernel_kept_def net_kept_refl)

lemma main_iteration_returns:
  "run_tasks Q C (k_async k) = Some (Inr a) \<Longrightarrow>
   \<exists>k'. main_iteration Q C k = Some (Inr k') \<and> k_async k' = a \<and> mc_io (k_machine k') = mc_io (k_machine k) @ [Cli, Sti, Hlt]"
  by (simp add: main_iteration_def disable_interrupt_def enable_interrupt_def io_disable_interrupt_def
      io_enable_interrupt_def hlt_def)

lemma with_iface_kept:
  assumes "net_ok (k_net k)" "i < length (ns_ifaces (k_net k))" "\<And>v. iface_ok v \<Longrightarrow> iface_ok (f v)"
    "\<And>v. vn_id (f v) = vn_id v" "\<And>v. vn_macaddr (f v) = vn_macaddr v"
  shows "kernel_kept k (with_iface i f k)" "k_async (with_iface i f k) = k_async k"
proof -
  have "iface_ok (ns_ifaces (k_net k) ! i)" using assms(1,2) by (simp add: net_ok_def)
  then show "kernel_kept k (with_iface i f k)"
    using net_kept_iface [OF assms(1,2,3), of _ "ns_allocs (k_net k)"] assms(4,5) by (simp add: kernel_kept_def with_iface_def)
qed (simp add: with_iface_def)

lemma kernel_step_kept:
  assumes "kernel_step Q C k k'" "net_ok (k_net k)" "async_reach Q C e (k_async k)"
  shows "kernel_kept k k' \<and> async_reach Q C e (k_async k')"
  using assms
proof cases
  case (interrupt E vec)
  then show ?thesis
    using interrupt_handler_kept [OF interrupt(3) assms(2)] assms(3) by (auto intro: async_reach.interrupt)
next
  case iteration
  then show ?thesis
    using main_iteration_kept [OF _ assms(2)] assms(3) by (auto intro: async_reach.iteration)
next
  case (receive i d bytes)
  then show ?thesis
    using with_iface_kept [OF assms(2), of i "\<lambda>v. v\<lparr>vn_rxq := dev_complete d bytes (vn_rxq v)\<rparr>"] assms(3) by (simp add: iface_ok_def)
next
  case (transmit i d)
  then show ?thesis
    using with_iface_kept [OF assms(2), of i "\<lambda>v. v\<lparr>vn_txq := dev_complete d [] (vn_txq v)\<rparr>"] assms(3) by (simp add: iface_ok_def)
qed

lemma kernel_run_kept:
  assumes "rtranclp (kernel_step Q C) k0 k" "net_ok (k_net k0)" "async_reach Q C e (k_async k0)"
  shows "kernel_kept k0 k \<and> async_reach Q C e (k_async k)"
  using assms(1)
proof (induction rule: rtranclp_induct)
  case base
  show ?case using assms(2,3) by (simp add: kernel_kept_refl)
next
  case (step k k')
  then show ?case using kernel_step_kept [OF step(2), of e] kernel_kept_ok kernel_kept_trans by blast
qed

section \<open>The interfaces stay registered\<close>

text \<open>
  What lasts of an interface that is up: its interrupt leads to it, its MAC, IPv4 and IPv6 addresses are
  entered as local ones for good, packets for its IPv6 addresses are delivered locally, and the IPv4 route to its
  network of 24 bits leads through it.  That packets for its own IPv4 address are delivered locally does
  not last: an ARP packet can replace the route to that address.
\<close>

definition interface_registered :: "'q kernel \<Rightarrow> nat \<Rightarrow> ipv4_address \<Rightarrow> u8 \<Rightarrow> bool" where
  "interface_registered k i ip irq \<longleftrightarrow>
     (let t = ns_tables (k_net k); v = ns_ifaces (k_net k) ! i; mac = vn_macaddr v in
      i < length (ns_ifaces (k_net k)) \<and> vn_id v = i \<and> k_handlers k ! unat irq = Some (Virtio_Net i irq) \<and>
      (\<forall>key\<in>net_mac_keys mac. own_entry (mac_addr_table t key)) \<and> own_entry (ipv4_adjacent t ip) \<and>
      (\<forall>a\<in>net_ipv6 mac. own_entry (ipv6_adjacent t a) \<and>
         (\<exists>f. find_ipv6_fib t a 128 = Inr (Some f) \<and> fib6_fib_type f = Local)) \<and>
      route4 t 24 (ipv4_masked ip 24) (mk_fib4 mac ip i Adjacent))"

lemma own_entry_kept:
  assumes "adj_kept t t'"
  shows "own_entry (mac_addr_table t key) \<Longrightarrow> own_entry (mac_addr_table t' key)"
    "own_entry (ipv4_adjacent t ip) \<Longrightarrow> own_entry (ipv4_adjacent t' ip)"
    "own_entry (ipv6_adjacent t a) \<Longrightarrow> own_entry (ipv6_adjacent t' a)"
  using assms by (auto simp: adj_kept_def own_entry_def)

lemma interface_up_registered:
  assumes "interface_up k i ip irq" "kernel_kept k k'"
  shows "interface_registered k' i ip irq"
proof -
  let ?s = "k_net k" and ?s' = "k_net k'"
  have n: "net_kept ?s ?s'" and h: "k_handlers k' = k_handlers k" using assms(2) by (simp_all add: kernel_kept_def)
  have i: "i < length (ns_ifaces ?s)" using assms(1) by (simp add: interface_up_def Let_def)
  have len: "length (ns_ifaces ?s') = length (ns_ifaces ?s)" by (rule net_kept_length [OF n])
  have "map vn_id (ns_ifaces ?s') ! i = map vn_id (ns_ifaces ?s) ! i"
    "map vn_macaddr (ns_ifaces ?s') ! i = map vn_macaddr (ns_ifaces ?s) ! i" using n by (simp_all add: net_kept_def)
  then have v: "vn_id (ns_ifaces ?s' ! i) = vn_id (ns_ifaces ?s ! i)"
    "vn_macaddr (ns_ifaces ?s' ! i) = vn_macaddr (ns_ifaces ?s ! i)" using i len by simp_all
  have "adj_kept (ns_tables ?s) (ns_tables ?s')" "find_ipv6_fib (ns_tables ?s') = find_ipv6_fib (ns_tables ?s)"
    "route4 (ns_tables ?s') 24 = route4 (ns_tables ?s) 24"
    using n by (simp_all add: net_kept_def find_ipv6_fib_def route4_def fun_eq_iff)
  then show ?thesis using assms(1) own_entry_kept i len v h by (auto simp: interface_up_def interface_registered_def Let_def)
qed

text \<open>
  C10. The kernel stays up.  From a state as the start of the kernel leaves it, whatever interrupts arrive,
  however the devices and the hardware behave and in whatever order the main loop, the interrupts and the
  devices take their steps, as long as no handler panics and the hypervisor again and again leaves the structures
  of its clock alone for two successive readings: the interface stays registered, with its interrupt, its
  local MAC, IPv4 and IPv6 addresses, the local delivery of its IPv6 addresses and the route to its IPv4 network; the
  state of the network is well formed, the nodes and the descriptor table are as they were, no task is lost,
  the next timer interrupt is handled and the next iteration of the main loop returns, with interrupts
  enabled again and no task left to run.  The output of the tasks to the console is not part of the model.
\<close>

theorem kernel_stays_up:
  assumes "array_queue Q items qinv cap" "2 \<le> cap" "qinv e" "items e = []" "clock_live C"
    and "interface_up k0 i ip irq" "net_ok (k_net k0)" "async_reach Q C e (k_async k0)"
    and "length (k_handlers k0) = 256" "length (mc_pv_eoi (k_machine k0)) = 256" "k_handlers k0 ! 0 = Some Timer"
    and "rtranclp (kernel_step Q C) k0 k" "en_queue E = Q" "en_clock E = C"
  shows "interface_registered k i ip irq \<and> net_ok (k_net k) \<and> ns_nodes (k_net k) = ns_nodes (k_net k0) \<and>
    mc_idt (k_machine k) = mc_idt (k_machine k0) \<and> (\<forall>j<2. task_ok items (k_async k) j) \<and>
    (\<exists>k'. interrupt_handler E 48 k = Some (Inr k')) \<and>
    (\<exists>k'. main_iteration Q C k = Some (Inr k') \<and> items (as_queue (k_async k')) = [] \<and>
       mc_io (k_machine k') = mc_io (k_machine k) @ [Cli, Sti, Hlt])"
proof -
  have kept: "kernel_kept k0 k" and reach: "async_reach Q C e (k_async k)"
    using kernel_run_kept [OF assms(12,7,8)] by simp_all
  have inv: "async_inv items qinv cap (k_async k)" "length (as_tasks (k_async k)) = 2"
    using async_reach_inv [OF assms(1-5) reach] by simp_all
  obtain a b where a: "check_timerfutures Q C (k_async k) = Some (Inr a)"
    and b: "run_tasks Q C (k_async k) = Some (Inr b)" "items (as_queue b) = []"
    using async_reach_returns [OF assms(1-5) reach] by blast
  have "length (k_handlers k) = 256" "length (mc_pv_eoi (k_machine k)) = 256" "k_handlers k ! unat (0 :: u8) = Some Timer"
    using kept assms(9-11) by (simp_all add: kernel_kept_def)
  from interrupt_runs_handler [OF this(1,2) _ this(3), of E] a assms(13,14)
  have "\<exists>k'. interrupt_handler E 48 k = Some (Inr k')" by auto
  moreover have "\<exists>k'. main_iteration Q C k = Some (Inr k') \<and> items (as_queue (k_async k')) = [] \<and>
      mc_io (k_machine k') = mc_io (k_machine k) @ [Cli, Sti, Hlt]"
    using main_iteration_returns [OF b(1)] b(2) by blast
  moreover have "\<forall>j<2. task_ok items (k_async k) j" using inv by (simp add: async_inv_def)
  ultimately show ?thesis
    using interface_up_registered [OF assms(6) kept] kept by (simp add: kernel_kept_def net_kept_def)
qed

section \<open>Witness\<close>

text \<open>The kernel comes up, its first timer interrupt is handled, and the main loop makes an iteration.\<close>

theorem kernel_stays_up_witness:
  "\<exists>k0 k1 k2. start_rust sample_boot_environment sample_boot 0x10000 = Some (Inr k0) \<and>
     interrupt_handler sample_boot_environment 48 k0 = Some (Inr k1) \<and>
     main_iteration (en_queue sample_boot_environment) (en_clock sample_boot_environment) k1 = Some (Inr k2) \<and>
     interface_registered k2 0 (ipv4_from_array [192, 168, 0, 10]) 5"
proof -
  let ?E = sample_boot_environment and ?ip = "ipv4_from_array [192, 168, 0, 10]"
  let ?step = "kernel_step (en_queue ?E) (en_clock ?E)"
  have live: "clock_live (en_clock ?E)" using sample_clock_live by (simp add: sample_boot_environment_def sample_environment_def)
  obtain k0 where k0: "start_rust ?E sample_boot 0x10000 = Some (Inr k0)" "k_handlers k0 ! 0 = Some Timer"
    "interface_up k0 0 ?ip 5" "net_ok (k_net k0)" "async_reach (en_queue ?E) (en_clock ?E) (bs_queue sample_boot) (k_async k0)"
    "length (k_handlers k0) = 256" "length (mc_pv_eoi (k_machine k0)) = 256"
    using sample_kernel_up by blast
  note up = kernel_stays_up [OF sample_boot_queue live k0(3-7,2) _ refl refl]
  obtain k1 where k1: "interrupt_handler ?E 48 k0 = Some (Inr k1)" using up [of k0] by auto
  have run1: "rtranclp ?step k0 k1" using kernel_step.interrupt [OF refl refl k1] by blast
  obtain k2 where k2: "main_iteration (en_queue ?E) (en_clock ?E) k1 = Some (Inr k2)" using up [OF run1] by blast
  have "rtranclp ?step k0 k2" using run1 kernel_step.iteration [OF k2] by (rule rtranclp.rtrancl_into_rtrancl)
  with up k0(1) k1 k2 show ?thesis by blast
qed

end
