(* ===== verification/Stack_Total.thy ===== *)
theory Stack_Total
  imports Stack_Shape
begin

text \<open>
  Frames that cannot bring the kernel down: what a frame must look like for the stack to be sure to process
  it, whatever the tables hold.
\<close>

section \<open>Harmless frames\<close>

text \<open>A message for the ICMP nodes that is complete; requests are consistent in their lengths, and it is no advertisement.\<close>

definition icmp4_harmless :: "u8 list \<Rightarrow> bool" where
  "icmp4_harmless sl \<longleftrightarrow> (let hl = ip4_header_len (take 20 (drop 14 sl)) in
     34 \<le> length sl \<and> 14 + hl + 8 \<le> length sl \<and> (sl ! (14 + hl) = 0x08 \<longrightarrow> echo_request4 sl))"

definition icmp6_harmless :: "u8 list \<Rightarrow> bool" where
  "icmp6_harmless sl \<longleftrightarrow> 62 \<le> length sl \<and> sl ! 54 \<noteq> 0x88 \<and> (sl ! 54 = 0x80 \<longrightarrow> echo_request6 sl)"

definition ip4_harmless :: "u8 list \<Rightarrow> bool" where
  "ip4_harmless sl \<longleftrightarrow> 34 \<le> length sl \<and> (sl ! 14 AND 0xf0 = 0x40 \<and> sl ! 23 = 0x01 \<longrightarrow> icmp4_harmless sl)"

definition ip6_harmless :: "u8 list \<Rightarrow> bool" where
  "ip6_harmless sl \<longleftrightarrow> 54 \<le> length sl \<and> (sl ! 14 AND 0xf0 = 0x60 \<and> sl ! 20 = 58 \<longrightarrow> icmp6_harmless sl)"

definition harmless :: "u8 list \<Rightarrow> bool" where
  "harmless sl \<longleftrightarrow> 14 \<le> length sl \<and>
     (take 2 (drop 12 sl) = [0x08, 0x06] \<longrightarrow> 42 \<le> length sl) \<and>
     (take 2 (drop 12 sl) = [0x08, 0x00] \<longrightarrow> ip4_harmless sl) \<and>
     (take 2 (drop 12 sl) = [0x86, 0xdd] \<longrightarrow> ip6_harmless sl)"

text \<open>A frame from one of \<open>n\<close> interfaces whose bytes satisfy a predicate.\<close>

definition frame_with :: "nat \<Rightarrow> (u8 list \<Rightarrow> bool) \<Rightarrow> net_data \<Rightarrow> bool" where
  "frame_with n P f \<longleftrightarrow> nd_netif f < n \<and> (\<exists>sl. buffer_slice (nd_buffer f) = Inr sl \<and> P sl)"

text \<open>A loop over frames returns when its body does, and keeps the shape.\<close>

lemma rfold_total:
  assumes "net_ok s"
    and "\<And>x s0. x \<in> set xs \<Longrightarrow> net_ok s0 \<Longrightarrow> length (ns_ifaces s0) = length (ns_ifaces s) \<Longrightarrow> \<exists>s'. f x s0 = Inr s' \<and> stack_kept s0 s'"
  shows "\<exists>s'. rfold f xs s = Inr s' \<and> stack_kept s s'"
proof (rule rfold_invariant)
  show "stack_kept s s" by (rule stack_kept_refl [OF assms(1)])
  show "\<exists>s'. f x s0 = Inr s' \<and> stack_kept s s'" if "x \<in> set xs" "stack_kept s s0" for x s0
    using assms(2) [OF that(1) stack_kept_ok [OF that(2)] stack_kept_length [OF that(2)]] stack_kept_trans [OF that(2)] by blast
qed

section \<open>The ICMP nodes\<close>

lemma net_ok_iface: "net_ok s \<Longrightarrow> k < length (ns_ifaces s) \<Longrightarrow> iface_ok (ns_ifaces s ! k)"
  by (simp add: net_ok_def)

lemma icmpv4_in_frame_total:
  assumes "net_ok s" "frame_with (length (ns_ifaces s)) icmp4_harmless f"
  shows "\<exists>s'. icmpv4_in_frame heap f s = Inr s' \<and> stack_kept s s'"
proof -
  obtain sl where sl: "buffer_slice (nd_buffer f) = Inr sl" "icmp4_harmless sl" and k: "nd_netif f < length (ns_ifaces s)"
    using assms(2) by (auto simp: frame_with_def)
  let ?hl = "ip4_header_len (take 20 (drop 14 sl))"
  have len: "34 \<le> length sl" "14 + ?hl + 8 \<le> length sl" using sl(2) by (simp_all add: icmp4_harmless_def Let_def)
  have "\<exists>s'. icmpv4_in_frame heap f s = Inr s'"
  proof (cases "sl ! (14 + ?hl) = 0x08")
    case True
    then have "echo_request4 sl" using sl(2) by (simp add: icmp4_harmless_def Let_def)
    then show ?thesis using icmpv4_echo_sent [OF sl(1) _ k net_ok_iface [OF assms(1) k]] by blast
  next
    case False
    then have "icmpv4_in_frame heap f s = Inr s"
      using sl(1) len by (simp add: icmpv4_in_frame_def view_at_def icmp_type_def)
    then show ?thesis by blast
  qed
  then show ?thesis using icmpv4_in_frame_kept [OF _ assms(1)] by blast
qed

lemma icmpv6_in_frame_total:
  assumes "net_ok s" "frame_with (length (ns_ifaces s)) icmp6_harmless f"
  shows "\<exists>s'. icmpv6_in_frame heap f s = Inr s' \<and> stack_kept s s'"
proof -
  obtain sl where sl: "buffer_slice (nd_buffer f) = Inr sl" "icmp6_harmless sl" and k: "nd_netif f < length (ns_ifaces s)"
    using assms(2) by (auto simp: frame_with_def)
  have len: "62 \<le> length sl" "sl ! 54 \<noteq> 0x88" using sl(2) by (simp_all add: icmp6_harmless_def)
  have "\<exists>s'. icmpv6_in_frame heap f s = Inr s'"
  proof (cases "sl ! 54 = 0x80")
    case True
    then have "echo_request6 sl" using sl(2) by (simp add: icmp6_harmless_def)
    then show ?thesis using icmpv6_echo_sent [OF sl(1) _ k net_ok_iface [OF assms(1) k]] by blast
  next
    case False
    then have "icmpv6_in_frame heap f s = Inr s"
      using sl(1) len by (simp add: icmpv6_in_frame_def view_at_def icmp_type_def)
    then show ?thesis by blast
  qed
  then show ?thesis using icmpv6_in_frame_shape [OF _ assms(1)] by blast
qed

lemma icmp_in_local_total:
  assumes "net_ok s"
  shows "\<forall>f\<in>set fs. frame_with (length (ns_ifaces s)) icmp4_harmless f \<Longrightarrow>
      \<exists>s'. icmpv4_in_local heap fs s = Inr s' \<and> stack_kept s s'"
    "\<forall>f\<in>set fs. frame_with (length (ns_ifaces s)) icmp6_harmless f \<Longrightarrow>
      \<exists>s'. icmpv6_in_local heap fs s = Inr s' \<and> stack_kept s s'"
  unfolding icmpv4_in_local_def icmpv6_in_local_def
  by (auto intro!: rfold_total [OF assms] icmpv4_in_frame_total icmpv6_in_frame_total)

section \<open>The IP nodes\<close>

lemma find_ipv4_fib_total: "wf4 t \<Longrightarrow> \<exists>r. find_ipv4_fib t a 0xffffffff = Inr r"
  unfolding find_ipv4_fib_host by (rule v4_search.search_total) (rule levels4)

lemma find_ipv6_fib_total: "wf6 t \<Longrightarrow> \<exists>r. find_ipv6_fib t a 128 = Inr r"
  unfolding find_ipv6_fib_def using v6_search.search_total [of 128 "ipv6_fib_index t" "(a, 128)"] by (simp add: wf6_def)

lemma ipv4_in_frame_total:
  assumes "net_ok s" "\<forall>g\<in>set ps. frame_with (length (ns_ifaces s)) icmp4_harmless g"
    and "frame_with (length (ns_ifaces s)) ip4_harmless f"
  shows "\<exists>ps' s'. ipv4_in_frame heap f (ps, s) = Inr (ps', s') \<and> stack_kept s s' \<and>
    (\<forall>g\<in>set ps'. frame_with (length (ns_ifaces s)) icmp4_harmless g)"
proof -
  obtain sl where sl: "buffer_slice (nd_buffer f) = Inr sl" "ip4_harmless sl" and k: "nd_netif f < length (ns_ifaces s)"
    using assms(3) by (auto simp: frame_with_def)
  let ?ip = "take 20 (drop 14 sl)"
  have view: "view_at sl 14 20 = Inr ?ip" using sl(2) by (simp add: ip4_harmless_def view_at_def)
  show ?thesis
  proof (cases "ip4_version_and_ihl ?ip AND 0xf0 = 0x40")
    case False
    then show ?thesis using sl(1) view assms(1,2) by (simp add: ipv4_in_frame_def stack_kept_refl)
  next
    case True
    obtain r where r: "find_ipv4_fib (ns_tables s) (ipv4_from_array (ip4_dest_ip ?ip)) 0xffffffff = Inr r"
      using find_ipv4_fib_total assms(1) unfolding net_ok_def by blast
    define ps' where "ps' = (case r of
             Some fib \<Rightarrow>
               (case fib4_fib_type fib of
                  Local \<Rightarrow> if ip4_proto ?ip = 0x01 then ps @ [f] else ps
                | Adjacent \<Rightarrow> ps
                | AdjacentResolved \<Rightarrow> ps
                | Remote \<Rightarrow> ps)
           | None \<Rightarrow> ps)"
    have eq: "ipv4_in_frame heap f (ps, s) = (if 0 < length ps' \<and> ''icmpv4-in-local'' \<in> set (ns_nodes s)
          then rbind (icmpv4_in_local heap ps' s) (\<lambda>s. Inr (ps', s)) else Inr (ps', s))"
      using sl(1) view True r by (simp add: ipv4_in_frame_def ps'_def Let_def)
    have "frame_with (length (ns_ifaces s)) icmp4_harmless f" if "ip4_proto ?ip = 0x01"
      using sl k True that by (auto simp: frame_with_def ip4_harmless_def ip4_version_and_ihl_def ip4_proto_def)
    then have ps': "\<forall>g\<in>set ps'. frame_with (length (ns_ifaces s)) icmp4_harmless g"
      using assms(2) by (auto simp: ps'_def split: option.splits fib_type.splits)
    then show ?thesis
      using icmp_in_local_total(1) [OF assms(1) ps', of heap] stack_kept_refl [OF assms(1)] by (auto simp: eq)
  qed
qed

lemma ipv6_in_frame_total:
  assumes "net_ok s" "\<forall>g\<in>set ps. frame_with (length (ns_ifaces s)) icmp6_harmless g"
    and "frame_with (length (ns_ifaces s)) ip6_harmless f"
  shows "\<exists>ps' s'. ipv6_in_frame heap f (ps, s) = Inr (ps', s') \<and> stack_kept s s' \<and>
    (\<forall>g\<in>set ps'. frame_with (length (ns_ifaces s)) icmp6_harmless g)"
proof -
  obtain sl where sl: "buffer_slice (nd_buffer f) = Inr sl" "ip6_harmless sl" and k: "nd_netif f < length (ns_ifaces s)"
    using assms(3) by (auto simp: frame_with_def)
  let ?ip = "take 40 (drop 14 sl)"
  have view: "view_at sl 14 40 = Inr ?ip" using sl(2) by (simp add: ip6_harmless_def view_at_def)
  show ?thesis
  proof (cases "ip6_version_and_tch ?ip AND 0xf0 = 0x60")
    case False
    then show ?thesis using sl(1) view assms(1,2) by (simp add: ipv6_in_frame_def stack_kept_refl)
  next
    case True
    obtain r where r: "find_ipv6_fib (ns_tables s) (ipv6_from_array (ip6_dest_ip ?ip)) 128 = Inr r"
      using find_ipv6_fib_total assms(1) unfolding net_ok_def by blast
    define ps' where "ps' = (case r of
             Some fib \<Rightarrow>
               (case fib6_fib_type fib of
                  Local \<Rightarrow> if ip6_nexthdr ?ip = 58 then ps @ [f] else ps
                | Adjacent \<Rightarrow> ps
                | AdjacentResolved \<Rightarrow> ps
                | Remote \<Rightarrow> ps)
           | None \<Rightarrow> ps)"
    have eq: "ipv6_in_frame heap f (ps, s) = (if 0 < length ps' \<and> ''icmpv6-in-local'' \<in> set (ns_nodes s)
          then rbind (icmpv6_in_local heap ps' s) (\<lambda>s. Inr (ps', s)) else Inr (ps', s))"
      using sl(1) view True r by (simp add: ipv6_in_frame_def ps'_def Let_def)
    have "frame_with (length (ns_ifaces s)) icmp6_harmless f" if "ip6_nexthdr ?ip = 58"
      using sl k True that by (auto simp: frame_with_def ip6_harmless_def ip6_version_and_tch_def ip6_nexthdr_def)
    then have ps': "\<forall>g\<in>set ps'. frame_with (length (ns_ifaces s)) icmp6_harmless g"
      using assms(2) by (auto simp: ps'_def split: option.splits fib_type.splits)
    then show ?thesis
      using icmp_in_local_total(2) [OF assms(1) ps', of heap] stack_kept_refl [OF assms(1)] by (auto simp: eq)
  qed
qed

text \<open>The loops of the two nodes, from the bodies.\<close>

lemma ip_loop_total:
  assumes "net_ok s" "\<forall>f\<in>set fs. frame_with (length (ns_ifaces s)) P f"
    and body: "\<And>f ps s. net_ok s \<Longrightarrow> \<forall>g\<in>set ps. frame_with (length (ns_ifaces s)) Q g \<Longrightarrow> frame_with (length (ns_ifaces s)) P f \<Longrightarrow>
        \<exists>ps' s'. body f (ps, s) = Inr (ps', s') \<and> stack_kept s s' \<and> (\<forall>g\<in>set ps'. frame_with (length (ns_ifaces s)) Q g)"
  shows "\<exists>s'. rbind (rfold body fs ([], s)) (\<lambda>(_, s). Inr s) = Inr s' \<and> stack_kept s s'"
proof -
  let ?I = "\<lambda>x. stack_kept s (snd x) \<and> (\<forall>g\<in>set (fst x). frame_with (length (ns_ifaces s)) Q g)"
  have "\<exists>x. rfold body fs ([], s) = Inr x \<and> ?I x"
  proof (rule rfold_invariant)
    show "?I ([], s)" by (simp add: stack_kept_refl [OF assms(1)])
    fix f x assume f: "f \<in> set fs" and x: "?I x"
    obtain ps s1 where x1: "x = (ps, s1)" by (cases x)
    then have k: "stack_kept s s1" using x by simp
    have n: "length (ns_ifaces s1) = length (ns_ifaces s)" by (rule stack_kept_length [OF k])
    show "\<exists>x'. body f x = Inr x' \<and> ?I x'"
      using body [OF stack_kept_ok [OF k], of ps f] assms(2) f x stack_kept_trans [OF k] unfolding x1 n by auto
  qed
  then show ?thesis by (auto simp: case_prod_beta)
qed

lemma ip_in_total:
  assumes "net_ok s"
  shows "\<forall>f\<in>set fs. frame_with (length (ns_ifaces s)) ip4_harmless f \<Longrightarrow> \<exists>s'. ipv4_in heap fs s = Inr s' \<and> stack_kept s s'"
    "\<forall>f\<in>set fs. frame_with (length (ns_ifaces s)) ip6_harmless f \<Longrightarrow> \<exists>s'. ipv6_in heap fs s = Inr s' \<and> stack_kept s s'"
  unfolding ipv4_in_def ipv6_in_def
  by (erule ip_loop_total [OF assms], erule (2) ipv4_in_frame_total ipv6_in_frame_total)+

section \<open>The whole stack\<close>

lemma arp_in_returns:
  assumes "net_ok s" "\<forall>f\<in>set fs. frame_with (length (ns_ifaces s)) (\<lambda>sl. 42 \<le> length sl) f"
  shows "\<exists>s'. arp_in heap fs s = Inr s' \<and> stack_kept s s'"
  unfolding arp_in_def
proof (rule rfold_total [OF assms(1)])
  fix f s0 assume f: "f \<in> set fs" and s0: "net_ok s0" "length (ns_ifaces s0) = length (ns_ifaces s)"
  then obtain sl where sl: "buffer_slice (nd_buffer f) = Inr sl" "42 \<le> length sl" and k: "nd_netif f < length (ns_ifaces s0)"
    using assms(2) by (auto simp: frame_with_def)
  have "wf4 (ns_tables s0)" using s0(1) by (simp add: net_ok_def)
  from arp_in_frame_learns [OF sl this, of heap] arp_respond_ok [OF net_ok_arp_learn [OF s0(1) k, of sl], of "take 28 (drop 14 sl)" heap] sl(2)
  obtain s' where "arp_in_frame heap f s0 = Inr s'" by auto
  then show "\<exists>s'. arp_in_frame heap f s0 = Inr s' \<and> stack_kept s0 s'" using arp_in_frame_shape [OF _ s0(1) k] by blast
qed

lemma optional_total:
  assumes "net_ok s" "\<exists>s'. r = Inr s' \<and> stack_kept s s'"
  shows "\<exists>s'. (if c then r else Inr s) = Inr s' \<and> stack_kept s s'"
  using assms stack_kept_refl [OF assms(1)] by auto

text \<open>The queues of the Ethernet node hold what they are for.\<close>

definition queues_harmless :: "nat \<Rightarrow> eth_queues \<Rightarrow> bool" where
  "queues_harmless n p \<longleftrightarrow> (\<forall>f\<in>set (arp_pkts p). frame_with n (\<lambda>sl. 42 \<le> length sl) f) \<and>
     (\<forall>f\<in>set (ipv4_pkts p). frame_with n ip4_harmless f) \<and> (\<forall>f\<in>set (ipv6_pkts p). frame_with n ip6_harmless f)"

lemma proc_frame_harmless:
  assumes "queues_harmless n p" "nd_netif f < n" "buffer_slice (nd_buffer f) = Inr sl" "harmless sl"
  shows "queues_harmless n (proc_frame f (take 2 (drop 12 sl)) p)"
  using assms by (auto simp: queues_harmless_def proc_frame_def frame_with_def harmless_def)

lemma ethernet_in_frame_total:
  assumes "net_ok s" "queues_harmless n p" "frame_with n harmless f"
  shows "\<exists>p' s'. ethernet_in_frame f (p, s) = Inr (p', s') \<and> stack_kept s s' \<and> queues_harmless n p'"
proof -
  obtain sl where sl: "buffer_slice (nd_buffer f) = Inr sl" "harmless sl" and k: "nd_netif f < n"
    using assms(3) by (auto simp: frame_with_def)
  have len: "14 \<le> length sl" using sl(2) by (simp add: harmless_def)
  have ty: "eth_type (take 14 sl) = take 2 (drop 12 sl)" by (simp add: eth_type_def drop_take)
  have "\<exists>p' s'. ethernet_in_frame f (p, s) = Inr (p', s') \<and> (p' = p \<or> p' = proc_frame f (take 2 (drop 12 sl)) p)"
    using sl(1) len by (auto simp: ethernet_in_frame_def view_at_def Let_def ty split: option.split)
  then show ?thesis
    using ethernet_in_frame_shape [OF _ assms(1)] proc_frame_harmless [OF assms(2) k sl] assms(2) by blast
qed

text \<open>
  C12. Harmless traffic never brings the kernel down.  Frames from the interfaces that are long enough for their headers, ICMPv4 echo
  requests with an IP header of 20 bytes, without options, echo requests whose lengths fit the frame, and no
  neighbour advertisements: whatever else is in such frames and in whatever order they come, on a
  well-formed state the stack processes them all, and its state is well formed afterwards.
\<close>

theorem harmless_traffic_processed:
  assumes "net_ok s" "\<forall>f\<in>set frames. frame_with (length (ns_ifaces s)) harmless f"
  shows "\<exists>s'. ethernet_in heap frames s = Inr s' \<and> net_ok s'"
proof -
  let ?n = "length (ns_ifaces s)"
  let ?I = "\<lambda>x. stack_kept s (snd x) \<and> queues_harmless ?n (fst x)"
  have "\<exists>x. rfold ethernet_in_frame frames (\<lparr>arp_pkts = [], ipv4_pkts = [], ipv6_pkts = []\<rparr>, s) = Inr x \<and> ?I x"
  proof (rule rfold_invariant)
    show "?I (\<lparr>arp_pkts = [], ipv4_pkts = [], ipv6_pkts = []\<rparr>, s)"
      by (simp add: stack_kept_refl [OF assms(1)] queues_harmless_def)
    fix f x assume "f \<in> set frames" "?I x"
    then show "\<exists>x'. ethernet_in_frame f x = Inr x' \<and> ?I x'"
      using ethernet_in_frame_total [OF stack_kept_ok, of s "snd x" ?n "fst x" f] stack_kept_trans assms(2) by fastforce
  qed
  then obtain p s1 where 1: "rfold ethernet_in_frame frames (\<lparr>arp_pkts = [], ipv4_pkts = [], ipv6_pkts = []\<rparr>, s) = Inr (p, s1)"
    "stack_kept s s1" "queues_harmless ?n p" by auto
  note q = 1(3) [unfolded queues_harmless_def]
  have n1: "length (ns_ifaces s1) = ?n" by (rule stack_kept_length [OF 1(2)])
  obtain s2 where 2: "(if 0 < length (arp_pkts p) \<and> ''arp-in'' \<in> set (ns_nodes s1) then arp_in heap (arp_pkts p) s1 else Inr s1) = Inr s2"
      "stack_kept s1 s2"
    using optional_total [OF _ arp_in_returns] stack_kept_ok [OF 1(2)] q n1 by metis
  have n2: "length (ns_ifaces s2) = ?n" using stack_kept_length [OF 2(2)] n1 by simp
  obtain s3 where 3: "(if 0 < length (ipv4_pkts p) \<and> ''ipv4-in'' \<in> set (ns_nodes s2) then ipv4_in heap (ipv4_pkts p) s2 else Inr s2) = Inr s3"
      "stack_kept s2 s3"
    using optional_total [OF _ ip_in_total(1)] stack_kept_ok [OF 2(2)] q n2 by metis
  have n3: "length (ns_ifaces s3) = ?n" using stack_kept_length [OF 3(2)] n2 by simp
  obtain s4 where 4: "(if 0 < length (ipv6_pkts p) \<and> ''ipv6-in'' \<in> set (ns_nodes s3) then ipv6_in heap (ipv6_pkts p) s3 else Inr s3) = Inr s4"
      "stack_kept s3 s4"
    using optional_total [OF _ ip_in_total(2)] stack_kept_ok [OF 3(2)] q n3 by metis
  have "ethernet_in heap frames s = Inr s4" using 1(1) 2(1) 3(1) 4(1) by (simp add: ethernet_in_def)
  then show ?thesis using stack_kept_ok [OF 4(2)] by blast
qed

section \<open>Witness\<close>

text \<open>An ARP request to all stations, an echo request, an IPv6 echo request and a frame of an unknown type.\<close>

definition sample_traffic :: "net_data list" where
  "sample_traffic = map sample_frame [broadcast_arp, sample_echo 28, sample_icmp6 0x80, sample_eth [0x88, 0xcc]]"

theorem harmless_traffic_processed_witness:
  "\<exists>s'. ethernet_in sample_heap sample_traffic sample_state = Inr s' \<and> net_ok s'"
proof -
  have "list_all harmless [broadcast_arp, sample_echo 28, sample_icmp6 0x80, sample_eth [0x88, 0xcc]]" by code_simp
  then have "\<forall>f\<in>set sample_traffic. frame_with (length (ns_ifaces sample_state)) harmless f"
    by (simp add: sample_traffic_def frame_with_def)
  then show ?thesis by (rule harmless_traffic_processed [OF sample_net_ok(3)])
qed

end
