(* ===== verification/Spin_Lock.thy ===== *)
theory Spin_Lock
  imports Rust_Prelude
begin

text \<open>
  The spin lock of \<^verbatim>\<open>src/src/spinlock.rs\<close>: \<^verbatim>\<open>RawSpinlock\<close> with \<^verbatim>\<open>try_lock\<close>, \<^verbatim>\<open>lock\<close> and
  \<^verbatim>\<open>unlock\<close>, and threads that use it through the guards of the \<^verbatim>\<open>lock_api\<close> package.  Of that
  package only the documented contract enters: \<^verbatim>\<open>lock\<close> returns a guard when the raw lock is taken, and
  dropping a guard calls the raw \<^verbatim>\<open>unlock\<close> once.  The marker \<^verbatim>\<open>GuardSend\<close> allows a guard to be handed to
  another thread, which is a step of its own.
\<close>

section \<open>The raw lock\<close>

type_synonym raw_spinlock = bool

definition spinlock_init :: raw_spinlock where
  "spinlock_init = False"

text \<open>\<^verbatim>\<open>compare_exchange\<close>: the old value as a success or a failure, and the value after it.\<close>

definition compare_exchange :: "bool \<Rightarrow> bool \<Rightarrow> bool \<Rightarrow> (bool + bool) \<times> bool" where
  "compare_exchange cell current new = (if cell = current then (Inr cell, new) else (Inl cell, cell))"

definition spin_try_lock :: "raw_spinlock \<Rightarrow> bool \<times> raw_spinlock" where
  "spin_try_lock l =
     (let (r, l) = compare_exchange l False True; is_locked = (case r of Inr _ \<Rightarrow> True | Inl _ \<Rightarrow> False)
      in (is_locked, l))"

text \<open>The loop of \<^verbatim>\<open>lock\<close> when no other thread runs; \<^const>\<open>None\<close> says that it does not return.\<close>

partial_function (option) spin_lock :: "raw_spinlock \<Rightarrow> raw_spinlock option" where
  "spin_lock l = (let (r, l) = spin_try_lock l in if \<not> r then spin_lock l else Some l)"

definition spin_unlock :: "raw_spinlock \<Rightarrow> raw_spinlock" where
  "spin_unlock l = False"

lemma spin_try_lock_simps [simp]:
  "spin_try_lock False = (True, True)" "spin_try_lock True = (False, True)"
  by (simp_all add: spin_try_lock_def compare_exchange_def)

lemma spin_lock_free: "spin_lock False = Some True"
  by (subst spin_lock.simps) simp

lemma spin_lock_held: "spin_lock True = None"
proof (rule ccontr)
  assume "spin_lock True \<noteq> None"
  then obtain y where y: "spin_lock True = Some y" by blast
  have "\<not> True"
  proof (rule spin_lock.raw_induct [where P = "\<lambda>l y. \<not> l", OF _ y])
    fix f l y
    assume IH: "\<And>l y. f l = Some y \<Longrightarrow> \<not> l"
      and eq: "(let (r, l) = spin_try_lock l in if \<not> r then f l else Some l) = Some y"
    show "\<not> l"
    proof
      assume "l"
      then have "f True = Some y" using eq by simp
      then show False using IH by blast
    qed
  qed
  then show False by simp
qed

section \<open>Threads\<close>

datatype lock_pc = Outside | Spinning | Holding

record lock_sys =
  ls_lock :: raw_spinlock
  ls_pc :: "nat \<Rightarrow> lock_pc"

definition lock_sys_init :: lock_sys where
  "lock_sys_init = \<lparr>ls_lock = spinlock_init, ls_pc = (\<lambda>_. Outside)\<rparr>"

inductive lock_step :: "lock_sys \<Rightarrow> lock_sys \<Rightarrow> bool" where
  call: "ls_pc s t = Outside \<Longrightarrow> lock_step s (s\<lparr>ls_pc := (ls_pc s)(t := Spinning)\<rparr>)"
| attempt: "ls_pc s t = Spinning \<Longrightarrow> spin_try_lock (ls_lock s) = (r, l) \<Longrightarrow>
    lock_step s \<lparr>ls_lock = l, ls_pc = (ls_pc s)(t := if r then Holding else Spinning)\<rparr>"
| try_once: "ls_pc s t = Outside \<Longrightarrow> spin_try_lock (ls_lock s) = (r, l) \<Longrightarrow>
    lock_step s \<lparr>ls_lock = l, ls_pc = (ls_pc s)(t := if r then Holding else Outside)\<rparr>"
| hand_over: "ls_pc s t = Holding \<Longrightarrow> ls_pc s u = Outside \<Longrightarrow>
    lock_step s (s\<lparr>ls_pc := (ls_pc s)(t := Outside, u := Holding)\<rparr>)"
| drop_guard: "ls_pc s t = Holding \<Longrightarrow>
    lock_step s \<lparr>ls_lock = spin_unlock (ls_lock s), ls_pc = (ls_pc s)(t := Outside)\<rparr>"

inductive lock_reach :: "lock_sys \<Rightarrow> bool" where
  init: "lock_reach lock_sys_init"
| step: "lock_reach s \<Longrightarrow> lock_step s s' \<Longrightarrow> lock_reach s'"

text \<open>The threads with a guard: one when the flag of the lock is set, none otherwise.\<close>

definition holders :: "(nat \<Rightarrow> lock_pc) \<Rightarrow> nat set" where
  "holders pc = {t. pc t = Holding}"

lemma holders_update: "holders (pc(t := p)) = (if p = Holding then insert t (holders pc) else holders pc - {t})"
  by (auto simp: holders_def)

lemma mem_holders: "t \<in> holders pc \<longleftrightarrow> pc t = Holding"
  by (simp add: holders_def)

definition lock_inv :: "lock_sys \<Rightarrow> bool" where
  "lock_inv s \<longleftrightarrow> (if ls_lock s then \<exists>t. holders (ls_pc s) = {t} else holders (ls_pc s) = {})"

lemma not_holder: "pc t \<noteq> Holding \<Longrightarrow> holders pc - {t} = holders pc"
  by (auto simp: mem_holders)

lemma sole_holder: "lock_inv s \<Longrightarrow> ls_pc s t = Holding \<Longrightarrow> ls_lock s \<and> holders (ls_pc s) = {t}"
  using mem_holders [of t "ls_pc s"] by (auto simp: lock_inv_def split: if_splits)

lemma lock_step_inv: "lock_step s s' \<Longrightarrow> lock_inv s \<Longrightarrow> lock_inv s'"
proof (induction rule: lock_step.induct)
  case (hand_over s t u)
  then have "ls_lock s" "holders (ls_pc s) = {t}" using sole_holder [of s t] by simp_all
  then show ?case by (simp add: lock_inv_def holders_update)
next
  case (drop_guard s t)
  then have "holders (ls_pc s) = {t}" using sole_holder [of s t] by simp
  then show ?case by (simp add: lock_inv_def holders_update spin_unlock_def)
next
  case (attempt s t r l)
  then show ?case by (cases "ls_lock s") (auto simp: lock_inv_def holders_update not_holder)
next
  case (try_once s t r l)
  then show ?case by (cases "ls_lock s") (auto simp: lock_inv_def holders_update not_holder)
qed (simp add: lock_inv_def holders_update not_holder)

lemma lock_reach_inv: "lock_reach s \<Longrightarrow> lock_inv s"
proof (induction rule: lock_reach.induct)
  case init
  show ?case by (simp add: lock_inv_def lock_sys_init_def spinlock_init_def holders_def)
next
  case (step s s')
  then show ?case by (blast intro: lock_step_inv)
qed

text \<open>
  C36. The spin lock excludes: in every reachable state, with any number of threads that lock, try to lock,
  hand guards over and drop them, at most one thread holds a guard; the lock can be taken at once exactly
  when no thread holds a guard, and a thread that calls \<^verbatim>\<open>lock\<close> otherwise spins until the holder runs.
\<close>

theorem spinlock_excludes:
  assumes "lock_reach s"
  shows "(\<forall>t u. ls_pc s t = Holding \<and> ls_pc s u = Holding \<longrightarrow> t = u) \<and>
    spin_lock (ls_lock s) = (if \<exists>t. ls_pc s t = Holding then None else Some True) \<and>
    fst (spin_try_lock (ls_lock s)) = (\<forall>t. ls_pc s t \<noteq> Holding)"
proof (cases "ls_lock s")
  case True
  then obtain h where "holders (ls_pc s) = {h}" using lock_reach_inv [OF assms] by (auto simp: lock_inv_def)
  then have "ls_pc s t = Holding \<longleftrightarrow> t = h" for t using mem_holders [of t "ls_pc s"] by simp
  then show ?thesis using True by (simp add: spin_lock_held)
next
  case False
  then have "ls_pc s t \<noteq> Holding" for t
    using lock_reach_inv [OF assms] mem_holders [of t "ls_pc s"] by (simp add: lock_inv_def)
  then show ?thesis using False by (simp add: spin_lock_free)
qed

lemma lock_reach_held:
  "lock_reach \<lparr>ls_lock = True, ls_pc = (\<lambda>_. Outside)(5 := Holding)\<rparr>"
  using lock_reach.step [OF lock_reach.init lock_step.try_once [of lock_sys_init 5 True True]]
  by (simp add: lock_sys_init_def spinlock_init_def)

theorem spinlock_excludes_witness:
  "spin_lock (ls_lock \<lparr>ls_lock = True, ls_pc = (\<lambda>_. Outside)(5 := Holding)\<rparr>) = None"
proof -
  let ?s = "\<lparr>ls_lock = True, ls_pc = (\<lambda>_. Outside)(5 := Holding)\<rparr>"
  have "spin_lock (ls_lock ?s) = (if \<exists>t. ls_pc ?s t = Holding then None else Some True)"
    using spinlock_excludes [OF lock_reach_held] by (elim conjE)
  moreover have "\<exists>t. ls_pc ?s t = Holding" by (rule exI [of _ 5]) simp
  ultimately show ?thesis by (simp only: if_True)
qed

end
