(* ===== verification/Interrupt_Stub.thy ===== *)
theory Interrupt_Stub
  imports Rust_Prelude
begin

text \<open>
  The way into an interrupt handler and back: the stubs \<^verbatim>\<open>interrupt_handlers\<close> and \<^verbatim>\<open>interrupt_common\<close> of
  \<^verbatim>\<open>src/asm/x86_64/startup.S\<close>, and \<^verbatim>\<open>InterruptFrame\<close> of \<^verbatim>\<open>src/src/lib.rs\<close>, through which the handler
  sees what they saved.  The stack is the list of the 64-bit words from the stack pointer upwards; every
  instruction of the stubs moves whole words.  The Rust function that is called is an argument, of which
  only the calling convention is used.
\<close>

section \<open>The processor\<close>

datatype gpr = Rax | Rbx | Rcx | Rdx | Rsi | Rdi | Rbp | R8 | R9 | R10 | R11 | R12 | R13 | R14 | R15

record cpu =
  cpu_reg :: "gpr \<Rightarrow> u64"
  cpu_xmm :: "nat \<Rightarrow> u128"
  cpu_rsp :: u64
  cpu_stack :: "u64 list"
  cpu_if :: bool

definition low_word :: "u128 \<Rightarrow> u64" where "low_word x = ucast x"
definition high_word :: "u128 \<Rightarrow> u64" where "high_word x = ucast (drop_bit 64 x)"
definition join_words :: "u64 \<Rightarrow> u64 \<Rightarrow> u128" where "join_words lo hi = ucast lo OR push_bit 64 (ucast hi)"

lemma join_split [simp]: "join_words (low_word x) (high_word x) = x"
  by (rule bit_word_eqI) (auto simp: join_words_def low_word_def high_word_def bit_simps)

section \<open>Instructions\<close>

text \<open>
  The instructions that the stubs use; the offsets of the vector moves and the distances of the stack
  pointer are in words.  \<open>None\<close>: the stack does not hold the words that the instruction takes.  The words
  below the stack pointer that \<open>Sub_Rsp\<close> makes part of the stack hold anything (\<open>junk\<close>).
\<close>

datatype stub_instr =
    Cli_Instr
  | Push_Imm u64
  | Push gpr
  | Pop gpr
  | Xchg_Top gpr
  | Sub_Rsp nat
  | Add_Rsp nat
  | Store_Xmm nat nat
  | Load_Xmm nat nat
  | Mov_From_Rsp gpr

fun exec_instr :: "(nat \<Rightarrow> u64) \<Rightarrow> stub_instr \<Rightarrow> cpu \<Rightarrow> cpu option" where
  "exec_instr junk Cli_Instr c = Some (c\<lparr>cpu_if := False\<rparr>)"
| "exec_instr junk (Push_Imm v) c = Some (c\<lparr>cpu_rsp := cpu_rsp c - 8, cpu_stack := v # cpu_stack c\<rparr>)"
| "exec_instr junk (Push r) c = Some (c\<lparr>cpu_rsp := cpu_rsp c - 8, cpu_stack := cpu_reg c r # cpu_stack c\<rparr>)"
| "exec_instr junk (Pop r) c =
     (case cpu_stack c of
        v # st \<Rightarrow> Some (c\<lparr>cpu_reg := (cpu_reg c)(r := v), cpu_rsp := cpu_rsp c + 8, cpu_stack := st\<rparr>)
      | [] \<Rightarrow> None)"
| "exec_instr junk (Xchg_Top r) c =
     (case cpu_stack c of
        v # st \<Rightarrow> Some (c\<lparr>cpu_reg := (cpu_reg c)(r := v), cpu_stack := cpu_reg c r # st\<rparr>)
      | [] \<Rightarrow> None)"
| "exec_instr junk (Sub_Rsp n) c =
     Some (c\<lparr>cpu_rsp := cpu_rsp c - 8 * of_nat n, cpu_stack := map junk [0..<n] @ cpu_stack c\<rparr>)"
| "exec_instr junk (Add_Rsp n) c =
     (if n \<le> length (cpu_stack c) then Some (c\<lparr>cpu_rsp := cpu_rsp c + 8 * of_nat n, cpu_stack := drop n (cpu_stack c)\<rparr>)
      else None)"
| "exec_instr junk (Store_Xmm r off) c =
     (if off + 2 \<le> length (cpu_stack c)
      then Some (c\<lparr>cpu_stack := (cpu_stack c)[off := low_word (cpu_xmm c r), Suc off := high_word (cpu_xmm c r)]\<rparr>)
      else None)"
| "exec_instr junk (Load_Xmm r off) c =
     (if off + 2 \<le> length (cpu_stack c)
      then Some (c\<lparr>cpu_xmm := (cpu_xmm c)(r := join_words (cpu_stack c ! off) (cpu_stack c ! Suc off))\<rparr>)
      else None)"
| "exec_instr junk (Mov_From_Rsp r) c = Some (c\<lparr>cpu_reg := (cpu_reg c)(r := cpu_rsp c)\<rparr>)"

fun exec_code :: "(nat \<Rightarrow> u64) \<Rightarrow> stub_instr list \<Rightarrow> cpu \<Rightarrow> cpu option" where
  "exec_code junk [] c = Some c"
| "exec_code junk (i # is) c = Option.bind (exec_instr junk i c) (exec_code junk is)"

section \<open>The stubs\<close>

text \<open>The vectors for which a stub expects the processor to have pushed an error code.\<close>

definition stub_expects_error :: "nat \<Rightarrow> bool" where
  "stub_expects_error index \<longleftrightarrow> index = 9 \<or> 10 \<le> index \<and> index \<le> 14 \<or> index = 17"

definition stub_code :: "nat \<Rightarrow> stub_instr list" where
  "stub_code index =
     (if stub_expects_error index then [Cli_Instr, Push_Imm (of_nat index)]
      else [Cli_Instr, Push_Imm 0, Push_Imm (of_nat index)])"

definition common_save :: "stub_instr list" where
  "common_save =
     [Xchg_Top Rdi, Sub_Rsp 32, Store_Xmm 15 0, Store_Xmm 14 2, Store_Xmm 13 4,
      Store_Xmm 12 6, Store_Xmm 11 8, Store_Xmm 10 10, Store_Xmm 9 12, Store_Xmm 8 14,
      Store_Xmm 7 16, Store_Xmm 6 18, Store_Xmm 5 20, Store_Xmm 4 22, Store_Xmm 3 24,
      Store_Xmm 2 26, Store_Xmm 1 28, Store_Xmm 0 30, Push R15, Push R14,
      Push R13, Push R12, Push R11, Push R10, Push R9,
      Push R8, Push Rbp, Push Rsi, Push Rdx, Push Rcx,
      Push Rbx, Push Rax, Mov_From_Rsp Rsi, Push_Imm 0]"

definition common_restore :: "stub_instr list" where
  "common_restore =
     [Pop Rax, Pop Rax, Pop Rbx, Pop Rcx, Pop Rdx,
      Pop Rsi, Pop Rbp, Pop R8, Pop R9, Pop R10,
      Pop R11, Pop R12, Pop R13, Pop R14, Pop R15,
      Load_Xmm 15 0, Load_Xmm 14 2, Load_Xmm 13 4, Load_Xmm 12 6, Load_Xmm 11 8,
      Load_Xmm 10 10, Load_Xmm 9 12, Load_Xmm 8 14, Load_Xmm 7 16, Load_Xmm 6 18,
      Load_Xmm 5 20, Load_Xmm 4 22, Load_Xmm 3 24, Load_Xmm 2 26, Load_Xmm 1 28,
      Load_Xmm 0 30, Add_Rsp 32, Pop Rdi, Add_Rsp 1]"

text \<open>\<^verbatim>\<open>iretq\<close>: the instruction pointer, the code segment, the flags, the stack pointer and the stack segment.\<close>

fun iretq :: "cpu \<Rightarrow> (cpu \<times> u64 \<times> u64 \<times> u64 \<times> u64 \<times> u64) option" where
  "iretq c =
     (case cpu_stack c of
        rip # cs # rflags # rsp # ss # st \<Rightarrow>
          Some (c\<lparr>cpu_rsp := rsp, cpu_stack := st, cpu_if := bit rflags 9\<rparr>, rip, cs, rflags, rsp, ss)
      | _ \<Rightarrow> None)"

text \<open>The whole path for a vector: stub, save, the call of \<^verbatim>\<open>interrupt_handler\<close>, restore, return.\<close>

definition interrupt_path ::
  "(nat \<Rightarrow> u64) \<Rightarrow> (cpu \<Rightarrow> cpu) \<Rightarrow> nat \<Rightarrow> cpu \<Rightarrow> (cpu \<times> u64 \<times> u64 \<times> u64 \<times> u64 \<times> u64) option"
where
  "interrupt_path junk handler index c =
     Option.bind (exec_code junk (stub_code index @ common_save) c) (\<lambda>c.
     Option.bind (exec_code junk common_restore (handler c)) iretq)"

section \<open>The frame\<close>

record interrupt_frame =
  fr_rax :: u64
  fr_rbx :: u64
  fr_rcx :: u64
  fr_rdx :: u64
  fr_rsi :: u64
  fr_rbp :: u64
  fr_r8 :: u64
  fr_r9 :: u64
  fr_r10 :: u64
  fr_r11 :: u64
  fr_r12 :: u64
  fr_r13 :: u64
  fr_r14 :: u64
  fr_r15 :: u64
  fr_xmm0 :: u128
  fr_xmm1 :: u128
  fr_xmm2 :: u128
  fr_xmm3 :: u128
  fr_xmm4 :: u128
  fr_xmm5 :: u128
  fr_xmm6 :: u128
  fr_xmm7 :: u128
  fr_xmm8 :: u128
  fr_xmm9 :: u128
  fr_xmm10 :: u128
  fr_xmm11 :: u128
  fr_xmm12 :: u128
  fr_xmm13 :: u128
  fr_xmm14 :: u128
  fr_xmm15 :: u128
  fr_rdi :: u64
  fr_error :: u64
  fr_rip :: u64
  fr_cs :: u64
  fr_rflags :: u64
  fr_rsp :: u64
  fr_ss :: u64

text \<open>The packed structure at an address of the stack: its fields follow each other without gaps.\<close>

definition read_frame :: "u64 list \<Rightarrow> interrupt_frame" where
  "read_frame w = \<lparr>
      fr_rax = w ! 0, fr_rbx = w ! 1, fr_rcx = w ! 2,
      fr_rdx = w ! 3, fr_rsi = w ! 4, fr_rbp = w ! 5,
      fr_r8 = w ! 6, fr_r9 = w ! 7, fr_r10 = w ! 8,
      fr_r11 = w ! 9, fr_r12 = w ! 10, fr_r13 = w ! 11,
      fr_r14 = w ! 12, fr_r15 = w ! 13, fr_xmm0 = join_words (w ! 14) (w ! 15),
      fr_xmm1 = join_words (w ! 16) (w ! 17), fr_xmm2 = join_words (w ! 18) (w ! 19), fr_xmm3 = join_words (w ! 20) (w ! 21),
      fr_xmm4 = join_words (w ! 22) (w ! 23), fr_xmm5 = join_words (w ! 24) (w ! 25), fr_xmm6 = join_words (w ! 26) (w ! 27),
      fr_xmm7 = join_words (w ! 28) (w ! 29), fr_xmm8 = join_words (w ! 30) (w ! 31), fr_xmm9 = join_words (w ! 32) (w ! 33),
      fr_xmm10 = join_words (w ! 34) (w ! 35), fr_xmm11 = join_words (w ! 36) (w ! 37), fr_xmm12 = join_words (w ! 38) (w ! 39),
      fr_xmm13 = join_words (w ! 40) (w ! 41), fr_xmm14 = join_words (w ! 42) (w ! 43), fr_xmm15 = join_words (w ! 44) (w ! 45),
      fr_rdi = w ! 46, fr_error = w ! 47, fr_rip = w ! 48,
      fr_cs = w ! 49, fr_rflags = w ! 50, fr_rsp = w ! 51,
      fr_ss = w ! 52\<rparr>"

section \<open>Saving\<close>

text \<open>The sixteen vector registers as they lie on the stack, from the last one to the first one.\<close>

definition xmm_words :: "(nat \<Rightarrow> u128) \<Rightarrow> u64 list" where
  "xmm_words x = concat (map (\<lambda>k. [low_word (x (15 - k)), high_word (x (15 - k))]) [0..<16])"

lemma upt_32: "[0..<32] = [0,1,2,3,4,5,6,7,8,9,10,11,12,13,14,15,16,17,18,19,20,21,22,23,24,25,26,27,28,29,30,31 :: nat]"
  by (simp add: upt_conv_Cons)

lemma upt_16: "[0..<16] = [0,1,2,3,4,5,6,7,8,9,10,11,12,13,14,15 :: nat]"
  by (simp add: upt_conv_Cons)

lemma xmm_words_list: "xmm_words x =
  [low_word (x 15), high_word (x 15), low_word (x 14), high_word (x 14), low_word (x 13), high_word (x 13),
   low_word (x 12), high_word (x 12), low_word (x 11), high_word (x 11), low_word (x 10), high_word (x 10),
   low_word (x 9), high_word (x 9), low_word (x 8), high_word (x 8), low_word (x 7), high_word (x 7),
   low_word (x 6), high_word (x 6), low_word (x 5), high_word (x 5), low_word (x 4), high_word (x 4),
   low_word (x 3), high_word (x 3), low_word (x 2), high_word (x 2), low_word (x 1), high_word (x 1),
   low_word (x 0), high_word (x 0)]"
  by (simp add: xmm_words_def upt_16)

definition gpr_words :: "(gpr \<Rightarrow> u64) \<Rightarrow> u64 list" where
  "gpr_words r = map r [Rax, Rbx, Rcx, Rdx, Rsi, Rbp, R8, R9, R10, R11, R12, R13, R14, R15]"

lemma exec_save:
  "cpu_stack c = v # st \<Longrightarrow> exec_code junk common_save c =
     Some (c\<lparr>cpu_reg := (cpu_reg c)(Rdi := v, Rsi := cpu_rsp c - 368), cpu_rsp := cpu_rsp c - 376,
       cpu_stack := 0 # gpr_words (cpu_reg c) @ xmm_words (cpu_xmm c) @ cpu_reg c Rdi # st\<rparr>)"
  by (simp add: common_save_def upt_32 xmm_words_list gpr_words_def numeral_eq_Suc)

lemma exec_code_append: "exec_code junk (is @ js) c = Option.bind (exec_code junk is c) (exec_code junk js)"
proof (induction "is" arbitrary: c)
  case (Cons i "is")
  then show ?case by (cases "exec_instr junk i c") simp_all
qed simp

section \<open>Restoring\<close>

definition xmm_restored :: "(nat \<Rightarrow> u128) \<Rightarrow> (nat \<Rightarrow> u128) \<Rightarrow> nat \<Rightarrow> u128" where
  "xmm_restored x y = fold (\<lambda>i y. y(i := x i)) [15,14,13,12,11,10,9,8,7,6,5,4,3,2,1,0] y"

lemma less_16_list: "i < 16 \<longleftrightarrow> i \<in> set [15,14,13,12,11,10,9,8,7,6,5,4,3,2,1,0 :: nat]"
  by simp presburger

lemma xmm_restored_16: "i < 16 \<Longrightarrow> xmm_restored x y i = x i"
  unfolding less_16_list by (auto simp: xmm_restored_def)

lemma exec_restore:
  assumes "cpu_stack c = z # gpr_words r @ xmm_words x @ r Rdi # e # st"
  shows "exec_code junk common_restore c =
     Some (c\<lparr>cpu_reg := r, cpu_xmm := xmm_restored x (cpu_xmm c), cpu_rsp := cpu_rsp c + 392, cpu_stack := st\<rparr>)"
proof -
  have regs: "f(Rax := r Rax, Rbx := r Rbx, Rcx := r Rcx, Rdx := r Rdx, Rsi := r Rsi, Rbp := r Rbp, R8 := r R8, R9 := r R9,
      R10 := r R10, R11 := r R11, R12 := r R12, R13 := r R13, R14 := r R14, R15 := r R15, Rdi := r Rdi) = r" for f
  proof
    fix a show "(f(Rax := r Rax, Rbx := r Rbx, Rcx := r Rcx, Rdx := r Rdx, Rsi := r Rsi, Rbp := r Rbp, R8 := r R8, R9 := r R9,
      R10 := r R10, R11 := r R11, R12 := r R12, R13 := r R13, R14 := r R14, R15 := r R15, Rdi := r Rdi)) a = r a"
      by (cases a) simp_all
  qed
  show ?thesis
    using assms by (simp add: common_restore_def xmm_words_list gpr_words_def regs xmm_restored_def numeral_eq_Suc)
qed

section \<open>From the interrupt to the handler\<close>

text \<open>
  What the processor does when it takes an interrupt: from a stack pointer \<open>base\<close> that is a multiple of
  sixteen it pushes five words and, for some exceptions, an error code, and masks interrupts.
\<close>

definition delivered :: "u64 option \<Rightarrow> u64 \<Rightarrow> u64 list \<Rightarrow> cpu \<Rightarrow> cpu" where
  "delivered err base frame c = c\<lparr>cpu_if := False,
     cpu_rsp := base - (case err of Some _ \<Rightarrow> 48 | None \<Rightarrow> 40),
     cpu_stack := (case err of Some e \<Rightarrow> [e] | None \<Rightarrow> []) @ frame @ cpu_stack c\<rparr>"

text \<open>The vectors for which the processor pushes an error code.\<close>

definition cpu_pushes_error :: "nat \<Rightarrow> bool" where
  "cpu_pushes_error index \<longleftrightarrow> index = 8 \<or> 10 \<le> index \<and> index \<le> 14 \<or> index = 17 \<or> index = 21"

lemma handler_entry:
  assumes "(err \<noteq> None) = stub_expects_error index"
  shows "exec_code junk (stub_code index @ common_save) (delivered err base frame c) =
    Some (c\<lparr>cpu_reg := (cpu_reg c)(Rdi := of_nat index, Rsi := base - 424), cpu_rsp := base - 432, cpu_if := False,
      cpu_stack := 0 # gpr_words (cpu_reg c) @ xmm_words (cpu_xmm c) @
        cpu_reg c Rdi # (case err of Some e \<Rightarrow> e | None \<Rightarrow> 0) # frame @ cpu_stack c\<rparr>)"
  using assms by (cases err) (simp_all add: exec_code_append stub_code_def delivered_def exec_save)

lemma aligned_minus:
  assumes "base AND 15 = (0 :: u64)" shows "(base - 16 * n) AND 15 = 0"
proof -
  have low: "(15 :: u64) = mask 4" by (simp add: mask_eq_exp_minus_1)
  have "push_bit 4 (drop_bit 4 base) = base"
    using bits_ident [of 4 base] assms by (simp add: low take_bit_eq_mask)
  then have "base - 16 * n = push_bit 4 (drop_bit 4 base - n)" by (simp add: push_bit_eq_mult left_diff_distrib)
  then show ?thesis unfolding low by (simp add: bit_eq_iff bit_simps)
qed

text \<open>The calling convention: the stack above the stack pointer is the caller's.\<close>

definition keeps_stack :: "(cpu \<Rightarrow> cpu) \<Rightarrow> bool" where
  "keeps_stack f \<longleftrightarrow> (\<forall>c. cpu_rsp (f c) = cpu_rsp c \<and> cpu_stack (f c) = cpu_stack c)"

text \<open>
  C18. An interrupt is invisible to the code it interrupts: whatever the handler does to the registers, if it
  leaves the words on the stack alone, the stubs return to the interrupted instruction with every general
  and vector register, the stack and the stack pointer restored, for every vector for which the stub
  and the processor agree on an error code.  The handler is called with the vector as its first argument
  and with a stack aligned to sixteen bytes.
\<close>

theorem interrupt_transparent:
  assumes "keeps_stack handler" "(err \<noteq> None) = stub_expects_error index" "base AND 15 = 0"
  shows "\<exists>entry c'. exec_code junk (stub_code index @ common_save) (delivered err base [rip, cs, rflags, rsp, ss] c) = Some entry \<and>
    cpu_reg entry Rdi = of_nat index \<and> cpu_rsp entry AND 15 = 0 \<and>
    interrupt_path junk handler index (delivered err base [rip, cs, rflags, rsp, ss] c) = Some (c', rip, cs, rflags, rsp, ss) \<and>
    cpu_reg c' = cpu_reg c \<and> (\<forall>i<16. cpu_xmm c' i = cpu_xmm c i) \<and> cpu_rsp c' = rsp \<and> cpu_stack c' = cpu_stack c"
proof -
  define entry where "entry = c\<lparr>cpu_reg := (cpu_reg c)(Rdi := of_nat index, Rsi := base - 424), cpu_rsp := base - 432, cpu_if := False,
      cpu_stack := 0 # gpr_words (cpu_reg c) @ xmm_words (cpu_xmm c) @
        cpu_reg c Rdi # (case err of Some e \<Rightarrow> e | None \<Rightarrow> 0) # [rip, cs, rflags, rsp, ss] @ cpu_stack c\<rparr>"
  have enter: "exec_code junk (stub_code index @ common_save) (delivered err base [rip, cs, rflags, rsp, ss] c) = Some entry"
    unfolding entry_def by (rule handler_entry [OF assms(2)])
  have "cpu_stack (handler entry) = cpu_stack entry" using assms(1) by (simp add: keeps_stack_def)
  then have "exec_code junk common_restore (handler entry) = Some ((handler entry)\<lparr>cpu_reg := cpu_reg c,
      cpu_xmm := xmm_restored (cpu_xmm c) (cpu_xmm (handler entry)), cpu_rsp := cpu_rsp (handler entry) + 392,
      cpu_stack := [rip, cs, rflags, rsp, ss] @ cpu_stack c\<rparr>)"
    using exec_restore [where c = "handler entry" and r = "cpu_reg c" and x = "cpu_xmm c"] by (simp add: entry_def)
  moreover have "(base - 432) AND 15 = 0" using aligned_minus [OF assms(3), of 27] by simp
  ultimately show ?thesis
    using enter by (simp add: interrupt_path_def xmm_restored_16) (simp add: entry_def)
qed

theorem interrupt_transparent_witness:
  "\<exists>c'. interrupt_path (\<lambda>_. 7) (\<lambda>c. c\<lparr>cpu_reg := (\<lambda>_. 1), cpu_xmm := (\<lambda>_. 2)\<rparr>) 48
     (delivered None 0x8000 [0x100000, 8, 0x202, 0x8008, 16]
       \<lparr>cpu_reg = (\<lambda>r. if r = Rdi then 5 else 6), cpu_xmm = of_nat, cpu_rsp = 0x8008, cpu_stack = [9], cpu_if = True\<rparr>) =
     Some (c', 0x100000, 8, 0x202, 0x8008, 16) \<and> cpu_reg c' Rdi = 5 \<and> cpu_xmm c' 3 = 3 \<and> cpu_stack c' = [9]"
  using interrupt_transparent [of "\<lambda>c. c\<lparr>cpu_reg := (\<lambda>_. 1), cpu_xmm := (\<lambda>_. 2)\<rparr>" None 48 "0x8000" "\<lambda>_. 7" "0x100000" 8 "0x202" "0x8008" 16
      "\<lparr>cpu_reg = (\<lambda>r. if r = Rdi then 5 else 6), cpu_xmm = of_nat, cpu_rsp = 0x8008, cpu_stack = [9], cpu_if = True\<rparr>"]
  by (auto simp: keeps_stack_def stub_expects_error_def)

section \<open>What the handler sees\<close>

text \<open>The structure behind the second argument of the handler.\<close>

definition handler_frame :: "cpu \<Rightarrow> interrupt_frame" where
  "handler_frame entry = read_frame (drop (unat ((cpu_reg entry Rsi - cpu_rsp entry) div 8)) (cpu_stack entry))"

definition frame_gprs :: "interrupt_frame \<Rightarrow> cpu \<Rightarrow> bool" where
  "frame_gprs F c \<longleftrightarrow>
     fr_rax F = cpu_reg c Rax \<and> fr_rbx F = cpu_reg c Rbx \<and> fr_rcx F = cpu_reg c Rcx \<and> fr_rdx F = cpu_reg c Rdx \<and> fr_rsi F = cpu_reg c Rsi \<and>
     fr_rbp F = cpu_reg c Rbp \<and> fr_r8 F = cpu_reg c R8 \<and> fr_r9 F = cpu_reg c R9 \<and> fr_r10 F = cpu_reg c R10 \<and> fr_r11 F = cpu_reg c R11 \<and>
     fr_r12 F = cpu_reg c R12 \<and> fr_r13 F = cpu_reg c R13 \<and> fr_r14 F = cpu_reg c R14 \<and> fr_r15 F = cpu_reg c R15 \<and> fr_rdi F = cpu_reg c Rdi"

text \<open>The vector registers lie in the opposite order of the fields.\<close>

definition frame_xmms_reversed :: "interrupt_frame \<Rightarrow> cpu \<Rightarrow> bool" where
  "frame_xmms_reversed F c \<longleftrightarrow>
     fr_xmm0 F = cpu_xmm c 15 \<and> fr_xmm1 F = cpu_xmm c 14 \<and> fr_xmm2 F = cpu_xmm c 13 \<and> fr_xmm3 F = cpu_xmm c 12 \<and>
     fr_xmm4 F = cpu_xmm c 11 \<and> fr_xmm5 F = cpu_xmm c 10 \<and> fr_xmm6 F = cpu_xmm c 9 \<and> fr_xmm7 F = cpu_xmm c 8 \<and>
     fr_xmm8 F = cpu_xmm c 7 \<and> fr_xmm9 F = cpu_xmm c 6 \<and> fr_xmm10 F = cpu_xmm c 5 \<and> fr_xmm11 F = cpu_xmm c 4 \<and>
     fr_xmm12 F = cpu_xmm c 3 \<and> fr_xmm13 F = cpu_xmm c 2 \<and> fr_xmm14 F = cpu_xmm c 1 \<and> fr_xmm15 F = cpu_xmm c 0"

lemma read_saved:
  fixes c :: cpu
  defines "F w \<equiv> read_frame (gpr_words (cpu_reg c) @ xmm_words (cpu_xmm c) @ cpu_reg c Rdi # w)"
  shows "frame_gprs (F w) c" "frame_xmms_reversed (F w) c"
    "fr_error (F (e # w)) = e" "fr_rip (F (e # a # w)) = a" "fr_cs (F (e # a # b # w)) = b"
    "fr_rflags (F (e # a # b # d # w)) = d" "fr_rsp (F (e # a # b # d # f # w)) = f" "fr_ss (F (e # a # b # d # f # g # w)) = g"
  by (simp_all add: F_def frame_gprs_def frame_xmms_reversed_def read_frame_def gpr_words_def xmm_words_list)

lemma entry_frame:
  assumes "(err \<noteq> None) = stub_expects_error index"
  shows "\<exists>entry. exec_code junk (stub_code index @ common_save) (delivered err base frame c) = Some entry \<and>
    handler_frame entry = read_frame (gpr_words (cpu_reg c) @ xmm_words (cpu_xmm c) @
      cpu_reg c Rdi # (case err of Some e \<Rightarrow> e | None \<Rightarrow> 0) # frame @ cpu_stack c)"
  using handler_entry [OF assms] by (simp add: handler_frame_def)

text \<open>
  The frame that the handler gets describes the interrupted code, for every vector for which the stub and
  the processor agree on an error code: the general registers, the instruction pointer, the segments, the
  flags and the stack pointer are those of the interrupt.  The fields of the vector registers are in the
  wrong order: \<^verbatim>\<open>xmm0\<close> holds the register 15, and so on.
\<close>

theorem frame_contents:
  assumes "(err \<noteq> None) = stub_expects_error index"
  shows "\<exists>entry F. exec_code junk (stub_code index @ common_save) (delivered err base [rip, cs, rflags, rsp, ss] c) = Some entry \<and>
    F = handler_frame entry \<and> frame_gprs F c \<and> fr_error F = (case err of Some e \<Rightarrow> e | None \<Rightarrow> 0) \<and>
    fr_rip F = rip \<and> fr_cs F = cs \<and> fr_rflags F = rflags \<and> fr_rsp F = rsp \<and> fr_ss F = ss \<and> frame_xmms_reversed F c"
  using entry_frame [OF assms, of junk base "[rip, cs, rflags, rsp, ss]" c] by (auto simp: read_saved)

theorem frame_contents_witness:
  "\<exists>entry. exec_code (\<lambda>_. 7) (stub_code 13 @ common_save)
     (delivered (Some 24) 0x8000 [0x100000, 8, 0x202, 0x8008, 16]
       \<lparr>cpu_reg = (\<lambda>_. 6), cpu_xmm = of_nat, cpu_rsp = 0x8008, cpu_stack = [], cpu_if = True\<rparr>) = Some entry \<and>
     fr_rip (handler_frame entry) = 0x100000 \<and> fr_error (handler_frame entry) = 24 \<and> fr_xmm0 (handler_frame entry) = 15"
  using frame_contents [of "Some 24" 13 "\<lambda>_. 7" "0x8000" "0x100000" 8 "0x202" "0x8008" 16
      "\<lparr>cpu_reg = (\<lambda>_. 6), cpu_xmm = of_nat, cpu_rsp = 0x8008, cpu_stack = [], cpu_if = True\<rparr>"]
  by (auto simp: stub_expects_error_def frame_xmms_reversed_def)

text \<open>
  C39. For a double fault the frame is shifted: the processor pushes an error code for the vector 8, the stub
  does not expect one and pushes another, so that the handler takes the error code for the instruction
  pointer and the instruction pointer for the code segment; for the vector 9, where the stub expects an
  error code that the processor does not push, it takes the instruction pointer for the error code.
\<close>

theorem frame_shifted:
  "cpu_pushes_error 8 \<and> \<not> stub_expects_error 8 \<and> \<not> cpu_pushes_error 9 \<and> stub_expects_error 9 \<and>
   (\<exists>entry F. exec_code junk (stub_code 8 @ common_save) (delivered (Some e) base [rip, cs, rflags, rsp, ss] c) = Some entry \<and>
      F = handler_frame entry \<and> fr_error F = 0 \<and> fr_rip F = e \<and> fr_cs F = rip \<and> fr_rflags F = cs) \<and>
   (\<exists>entry F. exec_code junk (stub_code 9 @ common_save) (delivered None base [rip, cs, rflags, rsp, ss] c) = Some entry \<and>
      F = handler_frame entry \<and> fr_error F = rip \<and> fr_rip F = cs \<and> fr_cs F = rflags \<and> fr_rflags F = rsp)"
proof -
  have vecs: "cpu_pushes_error 8" "\<not> stub_expects_error 8" "\<not> cpu_pushes_error 9" "stub_expects_error 9"
    by (simp_all add: cpu_pushes_error_def stub_expects_error_def)
  have shift: "delivered (Some e) base [rip, cs, rflags, rsp, ss] c = delivered None (base - 8) [e, rip, cs, rflags, rsp, ss] c"
    "delivered None base [rip, cs, rflags, rsp, ss] c = delivered (Some rip) (base + 8) [cs, rflags, rsp, ss] c"
    by (simp_all add: delivered_def)
  show ?thesis
    unfolding shift
    using vecs entry_frame [of None 8 junk "base - 8" "[e, rip, cs, rflags, rsp, ss]" c]
      entry_frame [of "Some rip" 9 junk "base + 8" "[cs, rflags, rsp, ss]" c]
    by (auto simp: read_saved)
qed

end
