(* ===== verification/Kernel_Halt.thy ===== *)
theory Kernel_Halt
  imports Interrupts
begin

text \<open>
  Where the kernel ends up when it panics (\<^verbatim>\<open>panic\<close> and \<^verbatim>\<open>on_oom\<close> of \<^verbatim>\<open>src/src/lib.rs\<close>), and the smallest
  parts: the state of the interrupt flag and the unused trait of tasks (\<^verbatim>\<open>src/src/task.rs\<close>).
  Everywhere else a panic is the result \<open>Inl\<close> of the operation that raises it.
\<close>

section \<open>The panic handler\<close>

text \<open>
  The payload of a panic is a string or something else; how a string is printed with \<^verbatim>\<open>{:?}\<close> is a
  matter of the core library and an argument.
\<close>

definition ascii :: "string \<Rightarrow> u8 list" where
  "ascii s = map (\<lambda>c. of_nat (of_char c)) s"

definition panic_message :: "(string \<Rightarrow> string) \<Rightarrow> string option \<Rightarrow> u8 list" where
  "panic_message debug payload =
     (case payload of
        Some s \<Rightarrow> ascii (''Panic! : '' @ debug s) @ [10]
      | None \<Rightarrow> ascii ''Panic!'' @ [10])"

text \<open>The loop never ends; \<^const>\<open>None\<close> says so.\<close>

partial_function (option) halt_loop :: "io_log \<Rightarrow> unit option" where
  "halt_loop l = halt_loop (hlt l)"

definition panic_handler :: "hardware \<Rightarrow> u16 option \<Rightarrow> (string \<Rightarrow> string) \<Rightarrow> string option \<Rightarrow> io_log \<Rightarrow> unit option" where
  "panic_handler H console debug payload l =
     Option.bind (console_print H console (panic_message debug payload) l) halt_loop"

text \<open>The log of the machine after \<open>n\<close> rounds of the loop.\<close>

fun halt_rounds :: "nat \<Rightarrow> io_log \<Rightarrow> io_log" where
  "halt_rounds 0 l = l"
| "halt_rounds (Suc n) l = halt_rounds n (hlt l)"

definition panic_rounds ::
  "hardware \<Rightarrow> u16 option \<Rightarrow> (string \<Rightarrow> string) \<Rightarrow> string option \<Rightarrow> nat \<Rightarrow> io_log \<Rightarrow> io_log option"
where
  "panic_rounds H console debug payload n l =
     map_option (halt_rounds n) (console_print H console (panic_message debug payload) l)"

definition on_oom :: "'a res" where
  "on_oom = Inl Explicit_panic"

section \<open>The interrupt flag\<close>

text \<open>The state of the flag after the instructions of a log, from the state \<open>f\<close>.\<close>

fun interrupt_flag :: "bool \<Rightarrow> io_log \<Rightarrow> bool" where
  "interrupt_flag f [] = f"
| "interrupt_flag f (e # l) = interrupt_flag (if e = Sti then True else if e = Cli then False else f) l"

lemma interrupt_flag_append: "interrupt_flag f (l @ l') = interrupt_flag (interrupt_flag f l) l'"
  by (induction f l rule: interrupt_flag.induct) simp_all

lemma interrupt_flag_set:
  "interrupt_flag f (enable_interrupt l)" "\<not> interrupt_flag f (disable_interrupt l)"
  by (simp_all add: enable_interrupt_def disable_interrupt_def io_enable_interrupt_def io_disable_interrupt_def
      interrupt_flag_append)

section \<open>Tasks\<close>

definition get_cpu_affinity_mask :: u64 where
  "get_cpu_affinity_mask = 0xffffffffffffffff"

definition dummy_task_exec :: "'s \<Rightarrow> 's" where
  "dummy_task_exec s = s"

lemma affinity_all_cpus: "n < 64 \<Longrightarrow> bit get_cpu_affinity_mask n"
proof -
  have m: "get_cpu_affinity_mask = - 1" by (simp add: get_cpu_affinity_mask_def)
  assume "n < 64"
  then show ?thesis unfolding m bit_minus_1_iff by (simp add: possible_bit_word)
qed

section \<open>A panic is the end\<close>

lemma halt_loop_never: "halt_loop l = None"
proof -
  have False if "halt_loop l = Some y" for l y
    using halt_loop.raw_induct [of "\<lambda>_ _. False" l y] that by blast
  then show ?thesis by (cases "halt_loop l") auto
qed

lemma halt_rounds_log: "halt_rounds n l = l @ replicate n Hlt"
  by (induction n arbitrary: l) (simp_all add: hlt_def replicate_app_Cons_same)

text \<open>
  A panic is the end: the handler never returns, and on a serial port that keeps accepting bytes it sends
  exactly its message and then does nothing but halt the processor.
\<close>

theorem panic_halts:
  assumes "drains H port"
  shows "panic_handler H console debug payload l = None \<and>
    (\<exists>l'. sent_bytes port l' = panic_message debug payload \<and>
       (\<forall>n. panic_rounds H (Some port) debug payload n l = Some (l @ l' @ replicate n Hlt)))"
proof -
  have "panic_handler H console debug payload l = None"
    by (cases "console_print H console (panic_message debug payload) l") (simp_all add: panic_handler_def halt_loop_never)
  moreover obtain l' where "serial_write_str H port (panic_message debug payload) l = Some (l @ l')"
      "sent_bytes port l' = panic_message debug payload"
    using serial_write_str_sends [OF assms] by blast
  ultimately show ?thesis by (intro conjI exI [of _ l']) (simp_all add: panic_rounds_def console_print_def halt_rounds_log)
qed

lemma slow_hardware_drains: "drains slow_hardware 0x3f8"
  unfolding drains_def by (intro allI exI [of _ 1]) (simp add: slow_hardware_def)

theorem panic_halts_witness:
  "\<exists>l'. sent_bytes 0x3f8 l' = [80, 97, 110, 105, 99, 33, 10] \<and>
     panic_rounds slow_hardware (Some 0x3f8) id None 2 [] = Some (l' @ [Hlt, Hlt])"
proof -
  have "panic_message id None = [80, 97, 110, 105, 99, 33, 10]" by code_simp
  then show ?thesis using panic_halts [OF slow_hardware_drains, of None id None "[]"] by (auto simp: numeral_eq_Suc)
qed

end
