(* ===== verification/Spec2Isabelle.thy ===== *)
theory Spec2Isabelle
  imports Kernel_Run Stack_Total Spin_Lock Interrupt_Stub Kernel_Halt
begin

text \<open>
  Verification of Urchin, a small network kernel for virtual machines written in Rust (\<^verbatim>\<open>src/src\<close>).

  \<^bold>\<open>The program.\<close>  A virtual machine monitor loads the kernel with the Linux boot protocol and enters
  \<^verbatim>\<open>start_rust\<close> (\<^verbatim>\<open>lib.rs\<close>).  It checks the boot parameters, sets up the console, the paravirtual
  clock, the interrupt hardware and an executor of asynchronous tasks, finds two virtio network devices
  on the command line, registers their addresses, registers the processing nodes of the network stack
  and then alternates between running tasks and halting.  An interrupt of a device refills its receive
  queue, pops the packets that arrived and hands them to the Ethernet node; the nodes learn
  neighbours, look up the forwarding tables and answer ARP requests and echo requests through the
  transmit queue.  An interrupt of the timer completes the timers that are due and wakes their tasks.

  \<^bold>\<open>Theories and what they model.\<close>

  \<^item> \<^verbatim>\<open>Rust_Prelude\<close>: panics and results (\<^verbatim>\<open>res\<close>, \<^verbatim>\<open>rbind\<close>), checked indexing and slices, loops that
    may panic, masked shifts, and the lemmas on words, lists and bytes that all theories share.
  \<^item> \<^verbatim>\<open>Net_Address\<close>: \<^verbatim>\<open>MacAddress\<close>, \<^verbatim>\<open>Ipv4Address\<close>, \<^verbatim>\<open>Ipv6Address\<close> (\<^verbatim>\<open>net/ethernet.rs\<close>, \<^verbatim>\<open>net/ipv4.rs\<close>,
    \<^verbatim>\<open>net/ipv6.rs\<close>).  Conversions are inverse, masks keep exactly the prefix, the orders are linear.
  \<^item> \<^verbatim>\<open>Fib_Tables\<close>: the tables of \<^verbatim>\<open>net/fib.rs\<close> as a record of partial maps.  The search from a prefix
    length downwards and the registration of adjacencies are locales, interpreted on the IPv4, IPv6 and
    MAC instances.  The IPv4 lookup is a longest prefix match; default routes are never used; the
    IPv6 lookup is an exact match.
  \<^item> \<^verbatim>\<open>Packet_Buffer\<close>: \<^verbatim>\<open>devices/buffer.rs\<close>.  \<^verbatim>\<open>Virt_Queue\<close>: \<^verbatim>\<open>Virtqueue\<close> of \<^verbatim>\<open>devices/virtio.rs\<close>, which
    refines a queue of buffers (locale \<^verbatim>\<open>transfer_ring\<close>) across the wrap-around of its 16-bit indices;
    its layout in memory, and what happens when it is full.  \<^verbatim>\<open>Transmit_Ring\<close>: the transmit queue, which
    is never popped, is such a ring between the driver and the device all the same.
  \<^item> \<^verbatim>\<open>Virtio_Mmio\<close>: \<^verbatim>\<open>devices/virtio/mmio.rs\<close>, the parser of the command line with its round trip and
    every register access.  \<^verbatim>\<open>Virtio_Device\<close>: what the virtio specification says about the device behind the
    registers, as a state that follows the writes, and the predicates \<^verbatim>\<open>virtio_registers\<close> and
    \<^verbatim>\<open>virtio_net_device\<close> that a device answers like that, with an emulated device that satisfies them.
    \<^verbatim>\<open>Virtio_Net\<close>: \<^verbatim>\<open>devices/virtio/net.rs\<close>, the driver, which delivers completed packets or loses them, depending
    on the refill.  \<^verbatim>\<open>Virtio_Init\<close>: on such a device the driver comes up, and the register writes of the
    initialisation are one fixed sequence.
  \<^item> \<^verbatim>\<open>Packet_Headers\<close>, \<^verbatim>\<open>Inet_Checksum\<close>, \<^verbatim>\<open>Echo_Reply\<close>, \<^verbatim>\<open>Net_Stack\<close>: the packed headers, the checksum
    loops, the construction of replies, and the nodes \<^verbatim>\<open>EthernetIn\<close>, \<^verbatim>\<open>ArpIn\<close>, \<^verbatim>\<open>Ipv4In\<close>, \<^verbatim>\<open>Icmpv4InLocal\<close>,
    \<^verbatim>\<open>Ipv6In\<close>, \<^verbatim>\<open>Icmpv6InLocal\<close> (\<^verbatim>\<open>net/*.rs\<close>) on the state they share.  \<^verbatim>\<open>Stack_Behaviour\<close>: requests are
    answered by correct replies, with checksums over all their bytes for an even number of bytes and wrong ones
    for an odd number; permanent entries survive every batch of packets, the ARP node never
    fails.  \<^verbatim>\<open>Stack_Limits\<close>: what crafted packets do.  \<^verbatim>\<open>Stack_Witnesses\<close>: a sample network.
    \<^verbatim>\<open>Stack_Shape\<close>: the type of the state is preserved by every batch of frames that is processed.
    \<^verbatim>\<open>Stack_Total\<close>: which frames are sure to be processed without a panic.
  \<^item> \<^verbatim>\<open>Mem_Ops\<close>: \<^verbatim>\<open>memcmp\<close>, \<^verbatim>\<open>bcmp\<close>, \<^verbatim>\<open>memset\<close>, \<^verbatim>\<open>memcpy\<close>, \<^verbatim>\<open>memmove\<close> of \<^verbatim>\<open>lib.rs\<close> on a flat memory: copies
    are right for every overlap, comparison is the lexicographic order.
  \<^item> \<^verbatim>\<open>Civil_Calendar\<close>, \<^verbatim>\<open>Kvm_Clock\<close>: \<^verbatim>\<open>arch/x86_64/kvmclock.rs\<close>.  The date computation agrees with the
    Gregorian calendar and never panics; the clock returns once the hypervisor is quiet, and restarts at its
    updates.  \<^verbatim>\<open>clock_live\<close> says that the hypervisor again and again leaves its structures alone for two
    successive readings; it is the hypothesis of everything that is said to return after reading the clock.
  \<^item> \<^verbatim>\<open>Bounded_Queue\<close>, \<^verbatim>\<open>Ring_Buf\<close>: the locale \<^verbatim>\<open>bounded_fifo\<close> and the ring buffer of \<^verbatim>\<open>ringbuf.rs\<close>, which
    implements it as long as operations do not overlap; as atomic steps of many threads it never
    panics but may lose values, as the history of the values put and got shows.  \<^verbatim>\<open>Spin_Lock\<close>: \<^verbatim>\<open>spinlock.rs\<close>, mutual exclusion as an invariant of steps.
  \<^item> \<^verbatim>\<open>Async_Tasks\<close>, \<^verbatim>\<open>Async_Laws\<close>: \<^verbatim>\<open>asynchronous/timer.rs\<close>, \<^verbatim>\<open>asynchronous/executor.rs\<close> and the two
    tasks.  The queue package is the locale \<^verbatim>\<open>array_queue\<close>.  In every order of runs of the executor and
    timer interrupts no task is lost and, when the clock can be read, nothing panics or hangs and expired timers
    wake their tasks.
  \<^item> \<^verbatim>\<open>X86_Io\<close>: \<^verbatim>\<open>arch/x86_64/io.rs\<close>, \<^verbatim>\<open>devices/serial.rs\<close>, \<^verbatim>\<open>console.rs\<close>.  Text is sent in order, each byte when
    the port has reported to be ready.
    \<^verbatim>\<open>Kernel_Halt\<close>: the panic handler of \<^verbatim>\<open>lib.rs\<close>, which never returns, and the trait of \<^verbatim>\<open>task.rs\<close>.
    \<^verbatim>\<open>Boot_Info\<close>: \<^verbatim>\<open>bootparams.rs\<close> and \<^verbatim>\<open>arch/x86_64/mptable.rs\<close>: stored tables are read back.
  \<^item> \<^verbatim>\<open>Interrupts\<close>, \<^verbatim>\<open>Interrupt_Laws\<close>: \<^verbatim>\<open>arch/x86_64/apic.rs\<close>, \<^verbatim>\<open>interrupt.rs\<close> and \<^verbatim>\<open>interrupt_handler\<close> of
    \<^verbatim>\<open>lib.rs\<close>.  The handler that was set is the one that runs; initialisation points every vector at its
    stub, masks every line and sets the rate of the timer, and panics without a clock.
    \<^verbatim>\<open>Interrupt_Stub\<close>: the stubs of \<^verbatim>\<open>asm/x86_64/startup.S\<close> as instructions on registers and a stack, and
    \<^verbatim>\<open>InterruptFrame\<close> of \<^verbatim>\<open>lib.rs\<close>.  The interrupted code does not notice an interrupt; the frame of a
    double fault is off by a word.
  \<^item> \<^verbatim>\<open>Kernel_Init\<close>, \<^verbatim>\<open>Kernel_Laws\<close>: \<^verbatim>\<open>start_rust\<close> as a whole, with the body of its main loop (interrupts off, the
    executor, interrupts on, halt).  The kernel comes up, and the state it
    comes up in satisfies the invariants from which the theorems on the stack and the tasks start.
  \<^item> \<^verbatim>\<open>Echo_Service\<close>, \<^verbatim>\<open>Kernel_Run\<close>: the parts together.  An echo request that a device puts into a
    receive queue is answered by a correct reply in the transmit queue.  The running kernel is a
    transition system (interrupts, iterations of the main loop, devices that complete buffers); what
    the start has established lasts in every reachable state, except for the IPv4 route of an interface to
    itself, which ARP packets can replace.

  \<^bold>\<open>How the code is modelled.\<close>  A struct is a record, an enum a datatype, a machine integer a word of its
  width.  Arithmetic is that of the release profile: it wraps around, and shift counts are masked.  A
  panic (index out of range, failed assertion, \<^verbatim>\<open>expect\<close>, \<^verbatim>\<open>panic!\<close>) is an error value of the sum type
  \<^verbatim>\<open>res\<close>.  Statics and shared objects are state that is passed on: a reference to an interface, a timer or
  a task is its index; buffers are values, since no two owners write to one.  A B-tree map is a partial
  map on the key its \<^verbatim>\<open>Ord\<close> instance compares.  Loops are recursion with a proof of termination; a loop
  that polls hardware or spins is a \<^verbatim>\<open>partial_function\<close> whose value \<^const>\<open>None\<close> means that it does not
  return, and the theorems say when it returns, so that no fuel is needed.  Concurrency is modelled
  where the code has it: the ring buffer and the lock as atomic steps, interrupts between iterations of
  the main loop, which runs its tasks with interrupts disabled.

  \<^bold>\<open>Parameters.\<close>  What is outside the sources is an argument: \<^verbatim>\<open>heap_source\<close> (addresses and contents that
  the global allocator gives, call by call), \<^verbatim>\<open>mmio_device\<close> and \<^verbatim>\<open>hardware\<close> (what a read returns after
  the accesses so far), \<^verbatim>\<open>clock_source\<close> (the successive readings of the structures of the hypervisor
  and of the time stamp counter; the state keeps how far they were read), \<^verbatim>\<open>queue_ops\<close> (the queue of \<^verbatim>\<open>crossbeam_queue\<close>, with the laws of the locale
  \<^verbatim>\<open>array_queue\<close>) and the addresses of statics and stubs.

  \<^bold>\<open>Not modelled.\<close>  Formatting and output of messages, beyond the console that carries them (so that what is said
  to return does so apart from its messages, and the console when the serial port accepts bytes); the
  allocator and its initialisation, freeing of memory; the assembler code that switches to 64-bit mode
  before the kernel proper; the locks around objects that only one context uses at a time; the mutex of
  \<^verbatim>\<open>lock_api\<close> around the raw lock; memory ordering weaker than sequential consistency; interrupts in
  the middle of an iteration of the main loop, which the code runs with interrupts disabled.
\<close>

end
